(* ===== verification/Prelude.thy ===== *)
theory Prelude
  imports Complex_Main "HOL-Library.Char_ord" "HOL-Library.List_Lexorder" "HOL-Library.Product_Lexorder"
begin

text \<open>
  What every component shares: the types that stand for the primitive types of the Go
  program, the collections of facts the component proofs draw on, and lemmas on lists
  and folds that no component owns.

  \<^item> A Go \<open>string\<close> that carries human text (artist, title) is a \<open>runes\<close>: the list of its
    code points, which is what \<open>range s\<close>, \<open>[]rune(s)\<close> and the regular expressions see.
  \<^item> A Go \<open>string\<close> used as an identifier or a protocol value is an Isabelle \<open>string\<close>.
  \<^item> \<open>float64\<close> is read as an exact rational (\<open>score\<close>).
  \<^item> \<open>int\<close> and \<open>int64\<close> are \<open>int\<close>; where the code can overflow (durations) the
    wrap-around is written out.
\<close>

type_synonym rune = int
type_synonym runes = "rune list"
type_synonym score = rat

text \<open>A literal of the source, as a list of code points.\<close>

definition lit :: "string \<Rightarrow> runes" where
  "lit s = map of_char s"

lemma lit_simps [simp]:
  "lit [] = []" "lit (c # cs) = of_char c # lit cs"
  by (simp_all add: lit_def)

text \<open>\<open>strconv.Itoa\<close> and \<open>strings.Join\<close>.\<close>

fun nat_digits :: "nat \<Rightarrow> runes" where
  "nat_digits n = (if n < 10 then [48 + int n] else nat_digits (n div 10) @ [48 + int (n mod 10)])"

declare nat_digits.simps [simp del]

definition itoa :: "int \<Rightarrow> runes" where
  "itoa x = (if x < 0 then 45 # nat_digits (nat (- x)) else nat_digits (nat x))"

fun join :: "'a list \<Rightarrow> 'a list list \<Rightarrow> 'a list" where
  "join sep [] = []"
| "join sep [x] = x"
| "join sep (x # y # ys) = x @ sep @ join sep (y # ys)"

subsection \<open>Collections of facts\<close>

named_theorems unit_range \<open>values that lie between 0 and 1\<close>
named_theorems db_frame \<open>what a store operation leaves alone\<close>
named_theorems db_read \<open>what a store query returns after an operation\<close>

subsection \<open>Sums as results\<close>

text \<open>\<open>if err != nil { return ..., err }\<close>: an error ends the function.\<close>

fun and_then :: "'e + 'a \<Rightarrow> ('a \<Rightarrow> 'e + 'b) \<Rightarrow> 'e + 'b" where
  "and_then (Inl e) f = Inl e"
| "and_then (Inr x) f = f x"

lemma and_then_Inr: "and_then r f = Inr y \<longleftrightarrow> (\<exists>x. r = Inr x \<and> f x = Inr y)"
  by (cases r) auto

lemma and_then_Inl: "and_then r f = Inl e \<longleftrightarrow> r = Inl e \<or> (\<exists>x. r = Inr x \<and> f x = Inl e)"
  by (cases r) auto

subsection \<open>Lists and folds\<close>

lemma fold_invariant:
  assumes "P s" and "\<And>x s. x \<in> set xs \<Longrightarrow> P s \<Longrightarrow> P (f x s)"
  shows "P (fold f xs s)"
  using assms by (induction xs arbitrary: s) auto

lemma fold_upt_invariant:
  assumes "m \<le> n" and "P m s" and "\<And>i s. m \<le> i \<Longrightarrow> i < n \<Longrightarrow> P i s \<Longrightarrow> P (Suc i) (f i s)"
  shows "P n (fold f [m..<n] s)"
  using assms
proof (induction n)
  case 0
  then show ?case by simp
next
  case (Suc n)
  show ?case
  proof (cases "m \<le> n")
    case True
    with Suc have "P n (fold f [m..<n] s)" by simp
    with True Suc.prems(3) [of n] show ?thesis by simp
  next
    case False
    with Suc.prems show ?thesis by (simp add: le_Suc_eq)
  qed
qed

lemma distinct_filter_append:
  "distinct xs \<Longrightarrow> distinct ys \<Longrightarrow> (\<And>x. x \<in> set ys \<Longrightarrow> P x \<Longrightarrow> x \<notin> set xs) \<Longrightarrow>
   distinct (xs @ filter P ys)"
  by auto

subsection \<open>Newest first\<close>

text \<open>
  \<open>ORDER BY x DESC\<close> and a descending \<open>sort.SliceStable\<close> sort by \<open>Desc x\<close>: the same
  values in the opposite order. \<open>sort_key\<close> is stable, as both of them are here.
\<close>

datatype 'a desc = Desc 'a

instantiation desc :: (linorder) linorder
begin

definition less_eq_desc :: "'a desc \<Rightarrow> 'a desc \<Rightarrow> bool" where
  "less_eq_desc a b \<longleftrightarrow> (case (a, b) of (Desc x, Desc y) \<Rightarrow> y \<le> x)"

definition less_desc :: "'a desc \<Rightarrow> 'a desc \<Rightarrow> bool" where
  "less_desc a b \<longleftrightarrow> (case (a, b) of (Desc x, Desc y) \<Rightarrow> y < x)"

instance
  by standard (auto simp: less_eq_desc_def less_desc_def split: desc.splits)

end

lemma Desc_le [simp]: "Desc x \<le> Desc y \<longleftrightarrow> y \<le> x"
  by (simp add: less_eq_desc_def)

lemma Desc_less [simp]: "Desc x < Desc y \<longleftrightarrow> y < x"
  by (simp add: less_desc_def)

text \<open>\<open>LIMIT n\<close>: a negative limit is no limit.\<close>

definition limit :: "int \<Rightarrow> 'a list \<Rightarrow> 'a list" where
  "limit n xs = (if n < 0 then xs else take (nat n) xs)"

subsection \<open>Rows of a table\<close>

definition update_where :: "('r \<Rightarrow> bool) \<Rightarrow> ('r \<Rightarrow> 'r) \<Rightarrow> 'r list \<Rightarrow> 'r list" where
  "update_where p f rows = map (\<lambda>r. if p r then f r else r) rows"

definition count_where :: "('r \<Rightarrow> bool) \<Rightarrow> 'r list \<Rightarrow> int" where
  "count_where p rows = int (length (filter p rows))"

definition delete_where :: "('r \<Rightarrow> bool) \<Rightarrow> 'r list \<Rightarrow> 'r list" where
  "delete_where p rows = filter (\<lambda>r. \<not> p r) rows"

lemma map_update_where:
  "(\<And>r. p r \<Longrightarrow> g (f r) = g r) \<Longrightarrow> map g (update_where p f rows) = map g rows"
  by (simp add: update_where_def)

lemma set_update_where: "set (update_where p f rows) = (\<lambda>r. if p r then f r else r) ` set rows"
  by (simp add: update_where_def)

lemma set_delete_where [simp]: "set (delete_where p rows) = {r \<in> set rows. \<not> p r}"
  by (auto simp: delete_where_def)

lemma distinct_map_delete_where: "distinct (map g rows) \<Longrightarrow> distinct (map g (delete_where p rows))"
  by (simp add: delete_where_def distinct_map_filter)

lemma count_where_pos: "0 < count_where p rows \<longleftrightarrow> (\<exists>r\<in>set rows. p r)"
  by (auto simp: count_where_def filter_empty_conv)

end
