(* ===== verification/GoText.thy ===== *)
theory GoText
  imports Prelude
begin

text \<open>
  What \<open>pkg/match\<close> and the clients use of Go's standard library on text: \<open>strings\<close>,
  \<open>unicode\<close> and \<open>regexp\<close>.

  The Unicode character database is data of the standard library, not of this repository; it
  is the parameter \<open>ucd\<close>, and \<open>ucd_ok\<close> names the documented facts some results use.
  \<open>unicode.IsSpace\<close> and the regexp class \<open>\s\<close> are short and are written out.

  A regular expression is its syntax tree \<open>re\<close>. \<open>matches\<close> lists every way it can match at
  a position, in the order a backtracking search tries them; the package's leftmost-first
  match is the first entry at the leftmost position that has one. A position is the pair of
  the text before it (reversed) and the text after it, so that \<open>\b\<close> can see both sides.
\<close>

subsection \<open>unicode and strings\<close>

record ucd =
  u_letter :: "rune \<Rightarrow> bool"
  u_number :: "rune \<Rightarrow> bool"
  u_mn :: "rune \<Rightarrow> bool"
  u_lower :: "rune \<Rightarrow> rune"
  u_fold :: "rune \<Rightarrow> rune \<Rightarrow> bool"
  u_print :: "rune \<Rightarrow> bool"

definition is_space :: "rune \<Rightarrow> bool" where
  "is_space r \<longleftrightarrow> (9 \<le> r \<and> r \<le> 13) \<or> r = 32 \<or> r = 0x85 \<or> r = 0xA0 \<or> r = 0x1680
     \<or> (0x2000 \<le> r \<and> r \<le> 0x200A) \<or> r = 0x2028 \<or> r = 0x2029 \<or> r = 0x202F \<or> r = 0x205F \<or> r = 0x3000"

definition ascii_lower :: "rune \<Rightarrow> bool" where
  "ascii_lower r \<longleftrightarrow> 97 \<le> r \<and> r \<le> 122"

text \<open>The documented facts: a letter or number is not white space; lower-casing is idempotent
  and leaves ASCII outside A to Z alone; no ASCII character is a combining mark.\<close>

definition ucd_ok :: "ucd \<Rightarrow> bool" where
  "ucd_ok u \<longleftrightarrow>
     (\<forall>r. u_letter u r \<or> u_number u r \<longrightarrow> \<not> is_space r) \<and>
     (\<forall>r. u_lower u (u_lower u r) = u_lower u r) \<and>
     (\<forall>r. 0 \<le> r \<and> r < 128 \<longrightarrow> (65 \<le> r \<and> r \<le> 90 \<or> u_lower u r = r) \<and> \<not> u_mn u r) \<and>
     (\<forall>r. 0 \<le> r \<and> r < 128 \<longrightarrow> (u_letter u r \<longleftrightarrow> 65 \<le> r \<and> r \<le> 90 \<or> 97 \<le> r \<and> r \<le> 122) \<and>
              (u_number u r \<longleftrightarrow> 48 \<le> r \<and> r \<le> 57))"

text \<open>The database restricted to ASCII, to evaluate the model on concrete metadata.\<close>

definition ascii_ucd :: ucd where
  "ascii_ucd =
     \<lparr>u_letter = (\<lambda>r. 65 \<le> r \<and> r \<le> 90 \<or> 97 \<le> r \<and> r \<le> 122), u_number = (\<lambda>r. 48 \<le> r \<and> r \<le> 57),
      u_mn = (\<lambda>r. False), u_lower = (\<lambda>r. if 65 \<le> r \<and> r \<le> 90 then r + 32 else r),
      u_fold = (\<lambda>a b. a = b \<or> (65 \<le> a \<and> a \<le> 90 \<and> b = a + 32) \<or> (65 \<le> b \<and> b \<le> 90 \<and> a = b + 32)),
      u_print = (\<lambda>r. 32 \<le> r \<and> r \<le> 126)\<rparr>"

lemma ascii_ucd_ok: "ucd_ok ascii_ucd"
  by (auto simp: ucd_ok_def ascii_ucd_def is_space_def)

definition trim_space :: "runes \<Rightarrow> runes" where
  "trim_space s = rev (dropWhile is_space (rev (dropWhile is_space s)))"

definition to_lower :: "ucd \<Rightarrow> runes \<Rightarrow> runes" where
  "to_lower u s = map (u_lower u) s"

definition equal_fold :: "ucd \<Rightarrow> runes \<Rightarrow> runes \<Rightarrow> bool" where
  "equal_fold u a b \<longleftrightarrow> length a = length b \<and> list_all2 (u_fold u) a b"

function string_fields :: "runes \<Rightarrow> runes list" where
  "string_fields s =
     (let s' = dropWhile is_space s
      in if s' = [] then []
         else takeWhile (\<lambda>r. \<not> is_space r) s' # string_fields (dropWhile (\<lambda>r. \<not> is_space r) s'))"
  by pat_completeness auto
termination
proof (relation "measure length")
  fix s s' :: runes
  assume s': "s' = dropWhile is_space s" "s' \<noteq> []"
  then have "\<not> is_space (hd s')" using hd_dropWhile by metis
  with s'(2) have "length (dropWhile (\<lambda>r. \<not> is_space r) s') < length s'"
    by (cases s') (auto simp: le_imp_less_Suc length_dropWhile_le)
  also have "\<dots> \<le> length s" by (simp add: s'(1) length_dropWhile_le)
  finally show "(dropWhile (\<lambda>r. \<not> is_space r) s', s) \<in> measure length" by simp
qed simp

declare string_fields.simps [simp del]

definition has_prefix :: "'a list \<Rightarrow> 'a list \<Rightarrow> bool" where
  "has_prefix s p \<longleftrightarrow> take (length p) s = p"

fun contains :: "runes \<Rightarrow> runes \<Rightarrow> bool" where
  "contains [] sub = (sub = [])"
| "contains (x # xs) sub = (has_prefix (x # xs) sub \<or> contains xs sub)"

text \<open>\<open>len(s)\<close> of a Go string: its length in UTF-8.\<close>

definition rune_len :: "rune \<Rightarrow> nat" where
  "rune_len r = (if r < 0x80 then 1 else if r < 0x800 then 2 else if r < 0x10000 then 3 else 4)"

definition byte_len :: "runes \<Rightarrow> nat" where
  "byte_len s = sum_list (map rune_len s)"

text \<open>\<open>strconv.Quote\<close>, which is also \<open>%q\<close>.\<close>

definition hex_rune :: "int \<Rightarrow> rune" where
  "hex_rune n = (if n < 10 then 48 + n else 87 + n)"

fun hex :: "nat \<Rightarrow> int \<Rightarrow> runes" where
  "hex 0 n = []"
| "hex (Suc w) n = hex w (n div 16) @ [hex_rune (n mod 16)]"

definition quote_rune :: "ucd \<Rightarrow> rune \<Rightarrow> runes" where
  "quote_rune u r =
     (if r = 34 \<or> r = 92 then [92, r]
      else if u_print u r then [r]
      else if r = 7 then [92, 97] else if r = 8 then [92, 98] else if r = 12 then [92, 102]
      else if r = 10 then [92, 110] else if r = 13 then [92, 114] else if r = 9 then [92, 116]
      else if r = 11 then [92, 118]
      else if r < 32 \<or> r = 127 then [92, 120] @ hex 2 r
      else if r < 0x10000 then [92, 117] @ hex 4 r
      else [92, 85] @ hex 8 r)"

definition quote :: "ucd \<Rightarrow> runes \<Rightarrow> runes" where
  "quote u s = [34] @ concat (map (quote_rune u) s) @ [34]"

subsection \<open>regexp\<close>

datatype re =
    Cls "rune \<Rightarrow> bool"
  | Eps
  | Cat re re
  | Alt re re
  | Star bool re
  | Grp re
  | WordB
  | EndT

type_synonym rstate = "runes \<times> runes \<times> runes option"

definition word_char :: "rune \<Rightarrow> bool" where
  "word_char r \<longleftrightarrow> (48 \<le> r \<and> r \<le> 57) \<or> (65 \<le> r \<and> r \<le> 90) \<or> (97 \<le> r \<and> r \<le> 122) \<or> r = 95"

fun at_word :: "runes \<Rightarrow> bool" where
  "at_word [] = False"
| "at_word (x # xs) = word_char x"

definition rest :: "rstate \<Rightarrow> runes" where
  "rest st = fst (snd st)"

lemma rest_simp [simp]: "rest (p, s, c) = s"
  by (simp add: rest_def)

function matches :: "re \<Rightarrow> rstate \<Rightarrow> rstate list" where
  "matches (Cls p) st =
     (case st of (pre, suf, c) \<Rightarrow>
        (case suf of [] \<Rightarrow> [] | x # xs \<Rightarrow> if p x then [(x # pre, xs, c)] else []))"
| "matches Eps st = [st]"
| "matches (Cat a b) st = concat (map (matches b) (matches a st))"
| "matches (Alt a b) st = matches a st @ matches b st"
| "matches (Star greedy a) st =
     (let more = concat (map (\<lambda>st'. if length (rest st') < length (rest st)
                                     then matches (Star greedy a) st' else []) (matches a st))
      in if greedy then more @ [st] else st # more)"
| "matches (Grp a) st =
     map (\<lambda>(pre', suf', c'). (pre', suf', Some (take (length (rest st) - length suf') (rest st))))
         (matches a st)"
| "matches WordB st = (case st of (pre, suf, c) \<Rightarrow> if at_word pre \<noteq> at_word suf then [st] else [])"
| "matches EndT st = (if rest st = [] then [st] else [])"
  by pat_completeness auto
termination
  by (relation "measures [\<lambda>(r, st). size r, \<lambda>(r, st). length (rest st)]") auto

record rmatch =
  m_skip :: runes
  m_text :: runes
  m_pre :: runes
  m_rest :: runes
  m_cap :: "runes option"

text \<open>The leftmost-first match in \<open>suf\<close>, with the text skipped before it.\<close>

fun find_from :: "re \<Rightarrow> runes \<Rightarrow> runes \<Rightarrow> rmatch option" where
  "find_from r pre [] =
     (case matches r (pre, [], None) of
        [] \<Rightarrow> None
      | (pre', suf', c) # _ \<Rightarrow> Some \<lparr>m_skip = [], m_text = [], m_pre = pre', m_rest = suf', m_cap = c\<rparr>)"
| "find_from r pre (x # xs) =
     (case matches r (pre, x # xs, None) of
        [] \<Rightarrow> map_option (\<lambda>m. m\<lparr>m_skip := x # m_skip m\<rparr>) (find_from r (x # pre) xs)
      | (pre', suf', c) # _ \<Rightarrow>
          Some \<lparr>m_skip = [], m_text = take (length (x # xs) - length suf') (x # xs),
                m_pre = pre', m_rest = suf', m_cap = c\<rparr>)"

text \<open>\<open>FindStringSubmatch\<close>, \<open>FindAllStringSubmatch\<close>, \<open>ReplaceAllString\<close> and
  \<open>Split\<close>. A match that consumes nothing ends the walk here; the expressions of the program
  never produce one (\<open>nullable\<close> below).\<close>

definition find_submatch :: "re \<Rightarrow> runes \<Rightarrow> runes option" where
  "find_submatch r s = Option.bind (find_from r [] s) m_cap"

function find_all_from :: "re \<Rightarrow> runes \<Rightarrow> runes \<Rightarrow> rmatch list" where
  "find_all_from r pre suf =
     (case find_from r pre suf of
        None \<Rightarrow> []
      | Some m \<Rightarrow> if length (m_rest m) < length suf then m # find_all_from r (m_pre m) (m_rest m) else [])"
  by pat_completeness auto
termination by (relation "measure (\<lambda>(r, pre, suf). length suf)") auto

function replace_from :: "re \<Rightarrow> runes \<Rightarrow> runes \<Rightarrow> runes \<Rightarrow> runes" where
  "replace_from r repl pre suf =
     (case find_from r pre suf of
        None \<Rightarrow> suf
      | Some m \<Rightarrow>
          if length (m_rest m) < length suf
          then m_skip m @ repl @ replace_from r repl (m_pre m) (m_rest m) else suf)"
  by pat_completeness auto
termination by (relation "measure (\<lambda>(r, repl, pre, suf). length suf)") auto

function split_from :: "re \<Rightarrow> runes \<Rightarrow> runes \<Rightarrow> runes list" where
  "split_from r pre suf =
     (case find_from r pre suf of
        None \<Rightarrow> [suf]
      | Some m \<Rightarrow>
          if length (m_rest m) < length suf
          then m_skip m # split_from r (m_pre m) (m_rest m) else [suf])"
  by pat_completeness auto
termination by (relation "measure (\<lambda>(r, pre, suf). length suf)") auto

declare find_all_from.simps [simp del] replace_from.simps [simp del] split_from.simps [simp del]

definition find_all :: "re \<Rightarrow> runes \<Rightarrow> rmatch list" where
  "find_all r s = find_all_from r [] s"

definition replace_all :: "re \<Rightarrow> runes \<Rightarrow> runes \<Rightarrow> runes" where
  "replace_all r s repl = replace_from r repl [] s"

definition regex_split :: "re \<Rightarrow> runes \<Rightarrow> runes list" where
  "regex_split r s = split_from r [] s"

subsection \<open>Matches stay inside the text\<close>

fun nullable :: "re \<Rightarrow> bool" where
  "nullable (Cls p) = False"
| "nullable Eps = True"
| "nullable (Cat a b) = (nullable a \<and> nullable b)"
| "nullable (Alt a b) = (nullable a \<or> nullable b)"
| "nullable (Star g a) = True"
| "nullable (Grp a) = nullable a"
| "nullable WordB = True"
| "nullable EndT = True"

text \<open>A match moves a word \<open>w\<close> from the text after the position to the text before it.\<close>

definition moves :: "rstate \<Rightarrow> rstate \<Rightarrow> runes \<Rightarrow> bool" where
  "moves st st' w \<longleftrightarrow> rest st = w @ rest st' \<and> fst st' = rev w @ fst st"

lemma moves_refl: "moves st st []"
  by (simp add: moves_def)

lemma moves_trans: "moves st st' v \<Longrightarrow> moves st' st'' w \<Longrightarrow> moves st st'' (v @ w)"
  by (simp add: moves_def)

lemma matches_moves:
  "st' \<in> set (matches r st) \<Longrightarrow> \<exists>w. moves st st' w \<and> (nullable r \<or> w \<noteq> [])"
proof (induction r st arbitrary: st' rule: matches.induct)
  case (1 p st)
  obtain pre suf c where "st = (pre, suf, c)" by (cases st)
  with 1 show ?case by (auto simp: moves_def split: list.splits if_splits)
next
  case (3 a b st)
  then obtain mid where "mid \<in> set (matches a st)" "st' \<in> set (matches b mid)" by auto
  with "3.IH" obtain v w where "moves st mid v" "nullable a \<or> v \<noteq> []"
    "moves mid st' w" "nullable b \<or> w \<noteq> []" by blast
  then show ?case using moves_trans by (intro exI [of _ "v @ w"]) auto
next
  case (4 a b st)
  from "4.prems" consider "st' \<in> set (matches a st)" | "st' \<in> set (matches b st)" by fastforce
  then show ?case
  proof cases
    case 1
    from "4.IH"(1) [OF this] show ?thesis by auto
  next
    case 2
    from "4.IH"(2) [OF this] show ?thesis by auto
  qed
next
  case (5 g a st)
  from "5.prems" [unfolded matches.simps(5) [of g a st]] consider "st' = st"
    | mid where "mid \<in> set (matches a st)" "length (rest mid) < length (rest st)"
        "st' \<in> set (matches (Star g a) mid)"
    by (auto simp: Let_def simp del: matches.simps(5) split: if_splits)
  then show ?case
  proof cases
    case 1
    then show ?thesis using moves_refl [of st] by auto
  next
    case 2
    with "5.IH" obtain v w where "moves st mid v" "moves mid st' w" by blast
    with moves_trans [of st mid v st' w] show ?thesis by auto
  qed
next
  case (6 a st)
  then obtain pre' suf' c' where "(pre', suf', c') \<in> set (matches a st)"
    "st' = (pre', suf', Some (take (length (rest st) - length suf') (rest st)))" by auto
  with "6.IH" [of "(pre', suf', c')"] show ?case by (auto simp: moves_def)
qed (auto simp: moves_def split: if_splits prod.splits)

lemma find_from_spec:
  assumes "find_from r pre suf = Some m"
  shows "suf = m_skip m @ m_text m @ m_rest m" and "m_pre m = rev (m_skip m @ m_text m) @ pre"
    and "nullable r \<or> m_text m \<noteq> []"
proof -
  have "suf = m_skip m @ m_text m @ m_rest m \<and> m_pre m = rev (m_skip m @ m_text m) @ pre
        \<and> (nullable r \<or> m_text m \<noteq> [])"
    using assms
  proof (induction r pre suf arbitrary: m rule: find_from.induct)
    case (1 r pre)
    then obtain pre' suf' c l where l: "matches r (pre, [], None) = (pre', suf', c) # l"
      and m: "m = \<lparr>m_skip = [], m_text = [], m_pre = pre', m_rest = suf', m_cap = c\<rparr>"
      by (auto split: list.splits)
    from l have "(pre', suf', c) \<in> set (matches r (pre, [], None))" by simp
    from matches_moves [OF this] m show ?case by (auto simp: moves_def)
  next
    case (2 r pre x xs)
    show ?case
    proof (cases "matches r (pre, x # xs, None)")
      case Nil
      with "2.prems" obtain m' where "find_from r (x # pre) xs = Some m'"
        "m = m'\<lparr>m_skip := x # m_skip m'\<rparr>" by auto
      with "2.IH" [OF Nil] show ?thesis by fastforce
    next
      case (Cons st l)
      obtain pre' suf' c where st: "st = (pre', suf', c)" by (cases st)
      from Cons st have "(pre', suf', c) \<in> set (matches r (pre, x # xs, None))" by simp
      from matches_moves [OF this] obtain w
        where w: "x # xs = w @ suf'" "pre' = rev w @ pre" "nullable r \<or> w \<noteq> []"
        by (auto simp: moves_def)
      have "take (length (x # xs) - length suf') (x # xs) = w" using w(1) by simp
      with "2.prems" Cons st
      have "m = \<lparr>m_skip = [], m_text = w, m_pre = pre', m_rest = suf', m_cap = c\<rparr>" by simp
      with w show ?thesis by simp
    qed
  qed
  then show "suf = m_skip m @ m_text m @ m_rest m" and "m_pre m = rev (m_skip m @ m_text m) @ pre"
    and "nullable r \<or> m_text m \<noteq> []" by auto
qed

lemma find_from_shrinks:
  "find_from r pre suf = Some m \<Longrightarrow> \<not> nullable r \<Longrightarrow> length (m_rest m) < length suf"
  using find_from_spec(1,3) [of r pre suf m] by (cases "m_text m") auto

lemma find_from_None: "find_from r pre [] = None \<longleftrightarrow> matches r (pre, [], None) = []"
  "find_from r pre (x # xs) = None \<longleftrightarrow>
     matches r (pre, x # xs, None) = [] \<and> find_from r (x # pre) xs = None"
  by (auto split: list.splits)

text \<open>The tail left after the last match of \<open>find_all\<close>.\<close>

function last_rest :: "re \<Rightarrow> runes \<Rightarrow> runes \<Rightarrow> runes" where
  "last_rest r pre suf =
     (case find_from r pre suf of
        None \<Rightarrow> suf
      | Some m \<Rightarrow> if length (m_rest m) < length suf then last_rest r (m_pre m) (m_rest m) else suf)"
  by pat_completeness auto
termination by (relation "measure (\<lambda>(r, pre, suf). length suf)") auto

declare last_rest.simps [simp del]

lemma find_all_from_partition:
  "suf = concat (map (\<lambda>m. m_skip m @ m_text m) (find_all_from r pre suf)) @ last_rest r pre suf"
proof (induction r pre suf rule: find_all_from.induct)
  case (1 r pre suf)
  show ?case
  proof (cases "find_from r pre suf")
    case None
    then show ?thesis by (simp add: find_all_from.simps [of r pre suf] last_rest.simps [of r pre suf])
  next
    case (Some m)
    with "1.IH" find_from_spec(1) [OF Some, symmetric] show ?thesis
      by (auto simp: find_all_from.simps [of r pre suf] last_rest.simps [of r pre suf])
  qed
qed

lemma replace_from_find_all:
  "replace_from r repl pre suf =
     concat (map (\<lambda>m. m_skip m @ repl) (find_all_from r pre suf)) @ last_rest r pre suf"
proof (induction r pre suf rule: find_all_from.induct)
  case (1 r pre suf)
  then show ?case
    by (auto simp: replace_from.simps [of r repl pre suf] find_all_from.simps [of r pre suf]
        last_rest.simps [of r pre suf] split: option.splits)
qed

lemma split_from_find_all:
  "split_from r pre suf = map m_skip (find_all_from r pre suf) @ [last_rest r pre suf]"
proof (induction r pre suf rule: find_all_from.induct)
  case (1 r pre suf)
  then show ?case
    by (auto simp: split_from.simps [of r pre suf] find_all_from.simps [of r pre suf]
        last_rest.simps [of r pre suf] split: option.splits)
qed

subsection \<open>Replacing runs of a class\<close>

text \<open>What replacing \<open>[class]+\<close> does: every maximal run of the class becomes \<open>repl\<close>.\<close>

function squeeze :: "(rune \<Rightarrow> bool) \<Rightarrow> runes \<Rightarrow> runes \<Rightarrow> runes" where
  "squeeze p repl [] = []"
| "squeeze p repl (x # xs) = (if p x then repl @ squeeze p repl (dropWhile p xs) else x # squeeze p repl xs)"
  by pat_completeness auto
termination
  by (relation "measure (\<lambda>(p, repl, s). length s)") (auto simp: le_imp_less_Suc length_dropWhile_le)

lemma matches_star_class:
  "\<exists>l. matches (Star True (Cls p)) (pre, suf, c) = (rev (takeWhile p suf) @ pre, dropWhile p suf, c) # l"
proof (induction suf arbitrary: pre)
  case (Cons x xs)
  then obtain l where "matches (Star True (Cls p)) (x # pre, xs, c)
      = (rev (takeWhile p xs) @ x # pre, dropWhile p xs, c) # l" by blast
  then show ?case by (auto simp: Let_def)
qed simp

lemma find_from_class_plus:
  "find_from (Cat (Cls p) (Star True (Cls p))) pre suf =
     (case dropWhile (\<lambda>r. \<not> p r) suf of
        [] \<Rightarrow> None
      | x # xs \<Rightarrow> Some \<lparr>m_skip = takeWhile (\<lambda>r. \<not> p r) suf, m_text = takeWhile p (x # xs),
                        m_pre = rev (takeWhile p (x # xs)) @ rev (takeWhile (\<lambda>r. \<not> p r) suf) @ pre,
                        m_rest = dropWhile p xs, m_cap = None\<rparr>)"
proof (induction suf arbitrary: pre)
  case (Cons x xs)
  show ?case
  proof (cases "p x")
    case True
    obtain l where "matches (Star True (Cls p)) (x # pre, xs, None)
        = (rev (takeWhile p xs) @ x # pre, dropWhile p xs, None) # l"
      using matches_star_class by blast
    moreover have "take (Suc (length xs) - length (dropWhile p xs)) (x # xs) = x # takeWhile p xs"
    proof -
      have "length xs = length (takeWhile p xs) + length (dropWhile p xs)"
        by (metis length_append takeWhile_dropWhile_id)
      then have "Suc (length xs) - length (dropWhile p xs) = Suc (length (takeWhile p xs))" by simp
      then show ?thesis by (simp add: takeWhile_eq_take [symmetric])
    qed
    ultimately show ?thesis using True by (simp del: matches.simps(5))
  next
    case False
    with Cons [of "x # pre"] show ?thesis
      by (simp del: matches.simps(5) dropWhile_eq_Nil_conv split: list.splits)
  qed
qed simp

lemma squeeze_skip: "squeeze p repl s = takeWhile (\<lambda>r. \<not> p r) s @ squeeze p repl (dropWhile (\<lambda>r. \<not> p r) s)"
  by (induction s) auto

lemma replace_all_class_plus:
  "replace_all (Cat (Cls p) (Star True (Cls p))) s repl = squeeze p repl s"
proof -
  have "replace_from (Cat (Cls p) (Star True (Cls p))) repl pre suf = squeeze p repl suf" for pre suf
  proof (induction "length suf" arbitrary: pre suf rule: less_induct)
    case less
    show ?case
    proof (cases "dropWhile (\<lambda>r. \<not> p r) suf")
      case Nil
      then have "takeWhile (\<lambda>r. \<not> p r) suf = suf" by (metis append_Nil2 takeWhile_dropWhile_id)
      then have "squeeze p repl suf = suf"
        using Nil squeeze_skip [of p repl suf] by (simp del: dropWhile_eq_Nil_conv)
      moreover have "find_from (Cat (Cls p) (Star True (Cls p))) pre suf = None"
        using Nil by (simp add: find_from_class_plus del: find_from.simps dropWhile_eq_Nil_conv)
      ultimately show ?thesis by (simp add: replace_from.simps [of _ repl pre suf])
    next
      case (Cons x xs)
      have px: "p x" using Cons hd_dropWhile [of "\<lambda>r. \<not> p r" suf] by auto
      have "length (x # xs) \<le> length suf" by (metis Cons length_dropWhile_le)
      then have shorter: "length (dropWhile p xs) < length suf"
        using length_dropWhile_le [of p xs] by simp
      have "squeeze p repl suf = takeWhile (\<lambda>r. \<not> p r) suf @ repl @ squeeze p repl (dropWhile p xs)"
        using Cons px squeeze_skip [of p repl suf] by simp
      moreover have "replace_from (Cat (Cls p) (Star True (Cls p))) repl pre suf =
          takeWhile (\<lambda>r. \<not> p r) suf @ repl @ squeeze p repl (dropWhile p xs)"
        using Cons shorter less [OF shorter]
        by (subst replace_from.simps) (simp add: find_from_class_plus del: find_from.simps)
      ultimately show ?thesis by simp
    qed
  qed
  then show ?thesis by (simp add: replace_all_def)
qed

lemma replace_all_class:
  "replace_all (Cls p) s [] = filter (\<lambda>r. \<not> p r) s"
proof -
  have find: "find_from (Cls p) pre suf =
     (case dropWhile (\<lambda>r. \<not> p r) suf of
        [] \<Rightarrow> None
      | x # xs \<Rightarrow> Some \<lparr>m_skip = takeWhile (\<lambda>r. \<not> p r) suf, m_text = [x],
                        m_pre = x # rev (takeWhile (\<lambda>r. \<not> p r) suf) @ pre, m_rest = xs, m_cap = None\<rparr>)"
    for pre suf
    by (induction suf arbitrary: pre) (simp_all del: dropWhile_eq_Nil_conv split: list.splits)
  have filter_skip: "filter (\<lambda>r. \<not> p r) s = takeWhile (\<lambda>r. \<not> p r) s @ filter (\<lambda>r. \<not> p r) (dropWhile (\<lambda>r. \<not> p r) s)"
    for s by (induction s) auto
  have "replace_from (Cls p) [] pre suf = filter (\<lambda>r. \<not> p r) suf" for pre suf
  proof (induction "length suf" arbitrary: pre suf rule: less_induct)
    case less
    show ?case
    proof (cases "dropWhile (\<lambda>r. \<not> p r) suf")
      case Nil
      then have "\<forall>r\<in>set suf. \<not> p r" by (simp add: dropWhile_eq_Nil_conv)
      moreover from Nil have "find_from (Cls p) pre suf = None"
        by (simp add: find del: find_from.simps dropWhile_eq_Nil_conv)
      ultimately show ?thesis by (simp add: replace_from.simps [of _ "[]" pre suf])
    next
      case (Cons x xs)
      have "p x" using Cons hd_dropWhile [of "\<lambda>r. \<not> p r" suf] by auto
      moreover have shorter: "length xs < length suf"
        using length_dropWhile_le [of "\<lambda>r. \<not> p r" suf] Cons by simp
      ultimately show ?thesis using Cons less [OF shorter] filter_skip [of suf]
        by (simp add: replace_from.simps [of _ "[]" pre suf] find del: matches.simps find_from.simps)
    qed
  qed
  then show ?thesis by (simp add: replace_all_def)
qed

end
