(* ===== verification/GoTime.thy ===== *)
theory GoTime
  imports Prelude
begin

text \<open>
  Instants, calendar dates and durations of Go's \<open>time\<close> package, as far as the program uses
  them. An instant (\<open>gotime\<close>) is the number of nanoseconds since January 1 of year 1, UTC,
  which is Go's zero \<open>time.Time\<close>, so \<open>t.IsZero()\<close> is \<open>t = 0\<close>. \<open>format_time\<close>
  and \<open>parse_time\<close> are \<open>Format\<close> and \<open>Parse\<close> with the store's \<open>TimeFormat\<close>
  (milliseconds; what is finer is cut off), \<open>format_day\<close>/\<open>parse_day\<close> those with the
  backups' \<open>snapshotDay\<close>, \<open>parse_rfc3339\<close> is \<open>time.Parse(time.RFC3339, s)\<close>. A
  duration is an \<open>int64\<close> of nanoseconds; \<open>mul_duration\<close> wraps around as the machine
  multiplication does.

  The lemmas end in \<open>parse_format_time\<close> (a round trip up to the cut) and
  \<open>format_time_less_iff\<close> (the byte order of the stored text is the order in time), on which
  the store's cutoffs and the watermark depend.
\<close>

type_synonym gotime = int

subsection \<open>Calendar\<close>

definition is_leap :: "int \<Rightarrow> bool" where
  "is_leap y \<longleftrightarrow> y mod 4 = 0 \<and> (y mod 100 \<noteq> 0 \<or> y mod 400 = 0)"

definition leap_day :: "int \<Rightarrow> int" where
  "leap_day y = (if is_leap y then 1 else 0)"

definition days_before_year :: "int \<Rightarrow> int" where
  "days_before_year y = 365 * (y - 1) + (y - 1) div 4 - (y - 1) div 100 + (y - 1) div 400"

definition days_before_month :: "int \<Rightarrow> int \<Rightarrow> int" where
  "days_before_month y m =
     (if m \<le> 1 then 0 else if m = 2 then 31
      else leap_day y +
        (if m = 3 then 59 else if m = 4 then 90 else if m = 5 then 120 else if m = 6 then 151
         else if m = 7 then 181 else if m = 8 then 212 else if m = 9 then 243
         else if m = 10 then 273 else if m = 11 then 304 else if m = 12 then 334 else 365))"

definition month_len :: "int \<Rightarrow> int \<Rightarrow> int" where
  "month_len y m = days_before_month y (m + 1) - days_before_month y m"

text \<open>The year and the day of the year, by cycles of 400, 100, 4 and 1 years.\<close>

definition year_of_days :: "int \<Rightarrow> int \<times> int" where
  "year_of_days d =
     (let n400 = d div 146097; r = d mod 146097;
          n100 = min 3 (r div 36524); r = r - 36524 * n100;
          n4 = r div 1461; r = r mod 1461;
          n1 = min 3 (r div 365)
      in (400 * n400 + 100 * n100 + 4 * n4 + n1 + 1, r - 365 * n1))"

definition month_of_yday :: "int \<Rightarrow> int \<Rightarrow> int" where
  "month_of_yday y yd =
     (let l = leap_day y
      in if yd < 31 then 1 else if yd < 59 + l then 2 else if yd < 90 + l then 3
         else if yd < 120 + l then 4 else if yd < 151 + l then 5 else if yd < 181 + l then 6
         else if yd < 212 + l then 7 else if yd < 243 + l then 8 else if yd < 273 + l then 9
         else if yd < 304 + l then 10 else if yd < 334 + l then 11 else 12)"

definition civil :: "int \<Rightarrow> int \<times> int \<times> int" where
  "civil d =
     (let (y, yd) = year_of_days d; m = month_of_yday y yd
      in (y, m, yd - days_before_month y m + 1))"

definition days_of :: "int \<Rightarrow> int \<Rightarrow> int \<Rightarrow> int" where
  "days_of y m d = days_before_year y + days_before_month y m + d - 1"

definition valid_date :: "int \<Rightarrow> int \<Rightarrow> int \<Rightarrow> bool" where
  "valid_date y m d \<longleftrightarrow> 1 \<le> m \<and> m \<le> 12 \<and> 1 \<le> d \<and> d \<le> month_len y m"

lemma year_of_days:
  assumes "year_of_days d = (y, yd)"
  shows "d = days_before_year y + yd" and "0 \<le> yd" and "yd < 365 + leap_day y"
proof -
  define a where "a = d div 146097"
  define r where "r = d mod 146097"
  define b where "b = min 3 (r div 36524)"
  define r1 where "r1 = r - 36524 * b"
  define c where "c = r1 div 1461"
  define r2 where "r2 = r1 mod 1461"
  define e where "e = min 3 (r2 div 365)"
  have y: "y = 400 * a + 100 * b + 4 * c + e + 1" and yd: "yd = r2 - 365 * e"
    using assms by (simp_all add: year_of_days_def Let_def a_def r_def b_def r1_def c_def r2_def e_def)
  have r: "0 \<le> r" "r < 146097" "d = 146097 * a + r" by (simp_all add: r_def a_def)
  have b: "0 \<le> b" "b \<le> 3" "0 \<le> r1" "r1 < 36524 \<or> b = 3 \<and> r1 < 36525"
    using r by (auto simp: b_def r1_def min_def)
  have c: "0 \<le> c" "c \<le> 24" "0 \<le> r2" "r2 < 1461" "r1 = 1461 * c + r2"
    using b by (auto simp: c_def r2_def)
  have e: "0 \<le> e" "e \<le> 3" "0 \<le> yd" "yd < 365 \<or> e = 3 \<and> yd < 366"
    using c by (auto simp: e_def yd min_def)
  have div4: "(y - 1) div 4 = 100 * a + 25 * b + c" using e by (simp add: y)
  have div100: "(y - 1) div 100 = 4 * a + b" using e c by (simp add: y)
  have "0 \<le> 100 * b + 4 * c + e" "100 * b + 4 * c + e < 400" using e c b by simp_all
  then have div400: "(y - 1) div 400 = a"
    by (intro int_div_pos_eq [where r = "100 * b + 4 * c + e"]) (simp_all add: y)
  show "d = days_before_year y + yd"
    unfolding days_before_year_def div4 div100 div400 using r c yd by (simp add: y r1_def)
  show "0 \<le> yd" by (rule e)
  show "yd < 365 + leap_day y"
  proof (cases "yd < 365")
    case True
    then show ?thesis by (simp add: leap_day_def)
  next
    case False
    then have e3: "e = 3" "yd = 365" using e by auto
    then have "r2 = 1460" using yd by simp
    then have "c < 24 \<or> b = 3" using b c by auto
    moreover have "y mod 4 = 0"
      by (rule int_mod_pos_eq [where q = "100 * a + 25 * b + c + 1"]) (simp_all add: y e3)
    moreover have "y mod 100 = 4 * c + 4" if "c < 24"
      by (rule int_mod_pos_eq [where q = "4 * a + b"]) (use that c in \<open>simp_all add: y e3\<close>)
    moreover have "y mod 400 = 0" if "\<not> c < 24" "b = 3"
      by (rule int_mod_pos_eq [where q = "a + 1"]) (use that c in \<open>simp_all add: y e3\<close>)
    moreover have "4 * c + 4 \<noteq> 0" using c by simp
    ultimately have "is_leap y" unfolding is_leap_def by metis
    with e3 show ?thesis by (simp add: leap_day_def)
  qed
qed

lemma div_pred:
  assumes "0 < (k::int)"
  shows "y div k = (y - 1) div k + (if y mod k = 0 then 1 else 0)"
proof (cases "y mod k = 0")
  case True
  have "y - 1 = k * (y div k - 1) + (k - 1)" using True by (simp add: algebra_simps mult_div_mod_eq)
      (metis add.right_neutral mult_div_mod_eq)
  then have "(y - 1) div k = y div k - 1" by (rule int_div_pos_eq) (use assms in simp_all)
  with True show ?thesis by simp
next
  case False
  with assms have "0 \<le> y mod k - 1" "y mod k - 1 < k"
    using pos_mod_sign [of k y] pos_mod_bound [of k y] by linarith+
  moreover have "y - 1 = k * (y div k) + (y mod k - 1)" by simp
  ultimately have "(y - 1) div k = y div k" using int_div_pos_eq by blast
  with False show ?thesis by simp
qed

lemma days_before_year_step: "days_before_year (y + 1) = days_before_year y + 365 + leap_day y"
proof -
  have sum: "365 * y + q4 - q100 + q400
      = 365 * (y - 1) + p4 - p100 + p400 + 365 + (if A \<and> (\<not> B \<or> C) then 1 else 0)"
    if "q4 = p4 + (if A then 1 else 0)" "q100 = p100 + (if B then 1 else 0)"
      "q400 = p400 + (if C then 1 else 0)" "C \<longrightarrow> B" "B \<longrightarrow> A"
    for q4 q100 q400 p4 p100 p400 :: int and A B C
    using that by (cases A; cases B; cases C; simp)
  have d4: "y div 4 = (y - 1) div 4 + (if y mod 4 = 0 then 1 else 0)" by (rule div_pred) simp
  have d100: "y div 100 = (y - 1) div 100 + (if y mod 100 = 0 then 1 else 0)" by (rule div_pred) simp
  have d400: "y div 400 = (y - 1) div 400 + (if y mod 400 = 0 then 1 else 0)" by (rule div_pred) simp
  have "(100::int) dvd 400" "(4::int) dvd 100" by simp_all
  then have "y mod 400 = 0 \<longrightarrow> y mod 100 = 0" "y mod 100 = 0 \<longrightarrow> y mod 4 = 0"
    unfolding dvd_eq_mod_eq_0 [symmetric] using dvd_trans by blast+
  from sum [OF d4 d100 d400 this] show ?thesis
    unfolding days_before_year_def leap_day_def is_leap_def add_diff_cancel_right' .
qed

lemma days_before_year_mono: "y \<le> z \<Longrightarrow> days_before_year y \<le> days_before_year z"
proof (induction z rule: int_ge_induct)
  case (step z)
  then show ?case using days_before_year_step [of z] by (simp add: leap_day_def split: if_splits)
qed simp

lemma month_of_yday:
  assumes "0 \<le> yd" "yd < 365 + leap_day y" "m = month_of_yday y yd"
  shows "1 \<le> m \<and> m \<le> 12 \<and> days_before_month y m \<le> yd \<and> yd < days_before_month y (m + 1)"
  using assms by (auto simp: month_of_yday_def days_before_month_def Let_def leap_day_def split: if_splits)

lemma days_before_month_mono: "m \<le> n \<Longrightarrow> days_before_month y m \<le> days_before_month y n"
proof (induction n rule: int_ge_induct)
  case (step n)
  moreover have "days_before_month y n \<le> days_before_month y (n + 1)"
    by (auto simp: days_before_month_def leap_day_def)
  ultimately show ?case by simp
qed simp

lemma civil:
  assumes "civil d = (y, m, dd)"
  shows "valid_date y m dd" and "days_of y m dd = d"
proof -
  obtain yd where yd: "year_of_days d = (y, yd)" and m: "m = month_of_yday y yd"
    and dd: "dd = yd - days_before_month y m + 1"
    using assms by (auto simp: civil_def Let_def split: prod.splits)
  note Y = year_of_days [OF yd]
  note M = month_of_yday [OF Y(2,3) m]
  show "valid_date y m dd" using M by (simp add: valid_date_def month_len_def dd)
  show "days_of y m dd = d" using Y(1) by (simp add: days_of_def dd)
qed

lemma days_of_bounds:
  assumes "valid_date y m d"
  shows "days_before_year y \<le> days_of y m d" "days_of y m d < days_before_year (y + 1)"
    "days_before_year y + days_before_month y m \<le> days_of y m d"
    "days_of y m d < days_before_year y + days_before_month y (m + 1)"
proof -
  have v: "1 \<le> m" "m \<le> 12" "1 \<le> d" "d \<le> days_before_month y (m + 1) - days_before_month y m"
    using assms by (auto simp: valid_date_def month_len_def)
  have "days_before_month y (m + 1) \<le> days_before_month y 13"
    using v by (intro days_before_month_mono) simp
  then have top: "days_before_month y (m + 1) \<le> 365 + leap_day y" by (simp add: days_before_month_def)
  have "0 \<le> days_before_month y m" using days_before_month_mono [of 1 m y] v by (simp add: days_before_month_def)
  with v top show "days_before_year y \<le> days_of y m d" "days_of y m d < days_before_year (y + 1)"
    "days_before_year y + days_before_month y m \<le> days_of y m d"
    "days_of y m d < days_before_year y + days_before_month y (m + 1)"
    by (simp_all add: days_of_def days_before_year_step)
qed

text \<open>Dates are ordered as their fields are, year first.\<close>

lemma days_of_less_iff:
  assumes "valid_date y m d" and "valid_date y' m' d'"
  shows "days_of y m d < days_of y' m' d' \<longleftrightarrow>
         y < y' \<or> y = y' \<and> (m < m' \<or> m = m' \<and> d < d')"
proof -
  note B = days_of_bounds [OF assms(1)] and B' = days_of_bounds [OF assms(2)]
  consider "y < y'" | "y' < y" | "y = y'" "m < m'" | "y = y'" "m' < m" | "y = y'" "m = m'" by linarith
  then show ?thesis
  proof cases
    case 1
    with days_before_year_mono [of "y + 1" y'] B B' show ?thesis by simp
  next
    case 2
    with days_before_year_mono [of "y' + 1" y] B B' show ?thesis by simp
  next
    case 3
    with days_before_month_mono [of "m + 1" m' y] B B' show ?thesis by simp
  next
    case 4
    with days_before_month_mono [of "m' + 1" m y] B B' show ?thesis by simp
  next
    case 5
    then show ?thesis by (simp add: days_of_def)
  qed
qed

lemma civil_days_of:
  assumes "valid_date y m d"
  shows "civil (days_of y m d) = (y, m, d)"
proof -
  obtain y' m' d' where c: "civil (days_of y m d) = (y', m', d')" by (metis prod_cases3)
  note C = civil [OF c]
  show ?thesis using days_of_less_iff [OF assms C(1)] days_of_less_iff [OF C(1) assms] C(2) c by auto
qed

subsection \<open>Fields of fixed width\<close>

definition dig :: "int \<Rightarrow> char" where
  "dig n = char_of (48 + n)"

definition is_dig :: "char \<Rightarrow> bool" where
  "is_dig c \<longleftrightarrow> 48 \<le> (of_char c :: int) \<and> (of_char c :: int) \<le> 57"

definition dig_val :: "char \<Rightarrow> int" where
  "dig_val c = of_char c - 48"

fun digits :: "nat \<Rightarrow> int \<Rightarrow> string" where
  "digits 0 n = []"
| "digits (Suc w) n = dig (n div 10 ^ w) # digits w (n mod 10 ^ w)"

fun read_fixed :: "nat \<Rightarrow> int \<Rightarrow> string \<Rightarrow> (int \<times> string) option" where
  "read_fixed 0 acc s = Some (acc, s)"
| "read_fixed (Suc w) acc [] = None"
| "read_fixed (Suc w) acc (c # s) = (if is_dig c then read_fixed w (acc * 10 + dig_val c) s else None)"

fun expect :: "char \<Rightarrow> string \<Rightarrow> string option" where
  "expect c [] = None"
| "expect c (x # s) = (if x = c then Some s else None)"

lemma of_char_dig: "0 \<le> n \<Longrightarrow> n < 10 \<Longrightarrow> (of_char (dig n) :: int) = 48 + n"
  by (simp add: dig_def)

lemma is_dig_dig: "0 \<le> n \<Longrightarrow> n < 10 \<Longrightarrow> is_dig (dig n) \<and> dig_val (dig n) = n"
  by (simp add: is_dig_def dig_val_def of_char_dig)

lemma dig_less: 
  assumes "0 \<le> m" "m < 10" "0 \<le> n" "n < 10"
  shows "dig m < dig n \<longleftrightarrow> m < n" "dig m = dig n \<longleftrightarrow> m = n"
proof -
  have "dig m < dig n \<longleftrightarrow> (of_char (dig m) :: int) < of_char (dig n)"
    unfolding less_char_def of_nat_of_char [symmetric, where 'a = int] by simp
  then show "dig m < dig n \<longleftrightarrow> m < n" using assms by (simp add: of_char_dig)
  show "dig m = dig n \<longleftrightarrow> m = n" using is_dig_dig assms by metis
qed

lemma div_pow_digit: "0 \<le> n \<Longrightarrow> n < 10 ^ Suc w \<Longrightarrow> 0 \<le> n div 10 ^ w \<and> n div 10 ^ w < (10::int)"
proof -
  assume n: "0 \<le> n" "n < 10 ^ Suc w"
  have "n div 10 ^ w < 10"
  proof (rule ccontr)
    assume "\<not> n div 10 ^ w < 10"
    then have "10 * 10 ^ w \<le> n div 10 ^ w * 10 ^ w" by (intro mult_right_mono) simp_all
    also have "0 \<le> n mod 10 ^ w" by simp
    then have "n div 10 ^ w * 10 ^ w \<le> n" using div_mult_mod_eq [of n "10 ^ w"] by linarith
    finally show False using n by simp
  qed
  with n show ?thesis by (simp add: pos_imp_zdiv_nonneg_iff)
qed

lemma read_digits: "0 \<le> n \<Longrightarrow> n < 10 ^ w \<Longrightarrow> read_fixed w acc (digits w n @ s) = Some (acc * 10 ^ w + n, s)"
proof (induction w arbitrary: n acc)
  case (Suc w)
  have d: "0 \<le> n div 10 ^ w \<and> n div 10 ^ w < 10" using div_pow_digit Suc.prems by blast
  have "read_fixed (Suc w) acc (digits (Suc w) n @ s)
      = read_fixed w (acc * 10 + n div 10 ^ w) (digits w (n mod 10 ^ w) @ s)"
    using is_dig_dig d by simp
  also have "\<dots> = Some ((acc * 10 + n div 10 ^ w) * 10 ^ w + n mod 10 ^ w, s)"
    by (rule Suc.IH) simp_all
  also have "(acc * 10 + n div 10 ^ w) * 10 ^ w + n mod 10 ^ w = acc * 10 ^ Suc w + n"
    by (simp add: algebra_simps)
  finally show ?case .
qed simp

lemma lex_mul:
  fixes a a' b b' k :: int
  assumes "0 \<le> b" "b < k" "0 \<le> b'" "b' < k"
  shows "a * k + b < a' * k + b' \<longleftrightarrow> a < a' \<or> a = a' \<and> b < b'"
proof (cases a a' rule: linorder_cases)
  case less
  then have "(a + 1) * k \<le> a' * k" using assms by (intro mult_right_mono) auto
  with less assms show ?thesis by (simp add: algebra_simps)
next
  case greater
  then have "(a' + 1) * k \<le> a * k" using assms by (intro mult_right_mono) auto
  with greater assms show ?thesis by (simp add: algebra_simps)
qed simp

lemma lex_mul_eq:
  fixes a a' b b' k :: int
  assumes "0 \<le> b" "b < k" "0 \<le> b'" "b' < k"
  shows "a * k + b = a' * k + b' \<longleftrightarrow> a = a' \<and> b = b'"
  using lex_mul [OF assms, of a a'] lex_mul [OF assms(3,4,1,2), of a' a]
  by (metis not_less_iff_gr_or_eq)

lemma digits_less:
  "0 \<le> m \<Longrightarrow> m < 10 ^ w \<Longrightarrow> 0 \<le> n \<Longrightarrow> n < 10 ^ w \<Longrightarrow>
   digits w m @ s < digits w n @ t \<longleftrightarrow> m < n \<or> m = n \<and> s < t"
proof (induction w arbitrary: m n)
  case (Suc w)
  let ?p = "10 ^ w :: int"
  have d: "0 \<le> m div ?p \<and> m div ?p < 10" "0 \<le> n div ?p \<and> n div ?p < 10"
    using div_pow_digit Suc.prems by blast+
  have IH: "digits w (m mod ?p) @ s < digits w (n mod ?p) @ t \<longleftrightarrow>
      m mod ?p < n mod ?p \<or> m mod ?p = n mod ?p \<and> s < t"
    by (rule Suc.IH) simp_all
  have eq: "m = n \<longleftrightarrow> m div ?p = n div ?p \<and> m mod ?p = n mod ?p"
    by (metis mult_div_mod_eq)
  have lt: "m < n \<longleftrightarrow> m div ?p < n div ?p \<or> m div ?p = n div ?p \<and> m mod ?p < n mod ?p"
    using lex_mul [of "m mod ?p" ?p "n mod ?p" "m div ?p" "n div ?p"] unfolding div_mult_mod_eq by simp
  show ?case using d by (auto simp: dig_less IH lt eq)
qed simp

subsection \<open>Format and Parse\<close>

definition day_ns :: int where "day_ns = 86400 * 10 ^ 9"

text \<open>A year is written with at least four digits, and with a sign when it is negative.\<close>

function dec_digits :: "int \<Rightarrow> string" where
  "dec_digits n = (if n < 10 then [dig n] else dec_digits (n div 10) @ [dig (n mod 10)])"
  by pat_completeness auto
termination by (relation "measure nat") auto

declare dec_digits.simps [simp del]

definition pad4 :: "int \<Rightarrow> string" where
  "pad4 n = (if n < 10000 then digits 4 n else dec_digits n)"

definition format_year :: "int \<Rightarrow> string" where
  "format_year y = (if y < 0 then CHR ''-'' # pad4 (- y) else pad4 y)"

definition format_day :: "gotime \<Rightarrow> string" where
  "format_day t =
     (let (y, m, d) = civil (t div day_ns)
      in format_year y @ CHR ''-'' # digits 2 m @ CHR ''-'' # digits 2 d)"

definition ms_of_day :: "gotime \<Rightarrow> int" where
  "ms_of_day t = t mod day_ns div 10 ^ 6"

definition format_clock :: "int \<Rightarrow> string" where
  "format_clock ms =
     digits 2 (ms div 3600000) @ CHR '':'' # digits 2 (ms div 60000 mod 60) @ CHR '':'' #
     digits 2 (ms div 1000 mod 60) @ CHR ''.'' # digits 3 (ms mod 1000)"

definition format_time :: "gotime \<Rightarrow> string" where
  "format_time t = format_day t @ CHR ''T'' # format_clock (ms_of_day t) @ ''Z''"

text \<open>The parser reads the fields from left to right. An hour may have one digit, and the
  fraction may follow a comma and carry a sign, as the library allows.\<close>

fun getnum :: "string \<Rightarrow> (int \<times> string) option" where
  "getnum [] = None"
| "getnum (a # s) =
     (if \<not> is_dig a then None
      else case s of
             [] \<Rightarrow> Some (dig_val a, [])
           | b # r \<Rightarrow> if is_dig b then Some (dig_val a * 10 + dig_val b, r) else Some (dig_val a, s))"

fun read_ms :: "string \<Rightarrow> (int \<times> string) option" where
  "read_ms [] = None"
| "read_ms (p # s) =
     (if p \<noteq> CHR ''.'' \<and> p \<noteq> CHR '','' then None
      else case s of
             [] \<Rightarrow> None
           | c # r \<Rightarrow>
               if c = CHR ''+'' then read_fixed 2 0 r
               else if c = CHR ''-'' then Option.bind (read_fixed 2 0 r) (\<lambda>(n, r). if n = 0 then Some (0, r) else None)
               else read_fixed 3 0 s)"

definition read_date :: "string \<Rightarrow> ((int \<times> int \<times> int) \<times> string) option" where
  "read_date s =
     Option.bind (read_fixed 4 0 s) (\<lambda>(y, s).
     Option.bind (expect CHR ''-'' s) (\<lambda>s.
     Option.bind (read_fixed 2 0 s) (\<lambda>(m, s).
     Option.bind (expect CHR ''-'' s) (\<lambda>s.
     Option.bind (read_fixed 2 0 s) (\<lambda>(d, s).
     if valid_date y m d then Some ((y, m, d), s) else None)))))"

definition read_clock :: "string \<Rightarrow> (int \<times> string) option" where
  "read_clock s =
     Option.bind (getnum s) (\<lambda>(h, s).
     Option.bind (expect CHR '':'' s) (\<lambda>s.
     Option.bind (read_fixed 2 0 s) (\<lambda>(mi, s).
     Option.bind (expect CHR '':'' s) (\<lambda>s.
     Option.bind (read_fixed 2 0 s) (\<lambda>(sec, s).
     if h < 24 \<and> mi < 60 \<and> sec < 60 then Some ((h * 60 + mi) * 60 + sec, s) else None)))))"

definition parse_day :: "string \<Rightarrow> gotime option" where
  "parse_day s =
     Option.bind (read_date s) (\<lambda>((y, m, d), s). if s = [] then Some (days_of y m d * day_ns) else None)"

definition parse_time :: "string \<Rightarrow> gotime option" where
  "parse_time s =
     Option.bind (read_date s) (\<lambda>((y, m, d), s).
     Option.bind (expect CHR ''T'' s) (\<lambda>s.
     Option.bind (read_clock s) (\<lambda>(sec, s).
     Option.bind (read_ms s) (\<lambda>(ms, s).
     if s = ''Z'' then Some (days_of y m d * day_ns + sec * 10 ^ 9 + ms * 10 ^ 6) else None))))"

text \<open>The instants the format can represent, years 0 to 9999, and the cut to milliseconds.\<close>

definition printable :: "gotime \<Rightarrow> bool" where
  "printable t \<longleftrightarrow> days_before_year 0 * day_ns \<le> t \<and> t < days_before_year 10000 * day_ns"

definition cut :: "gotime \<Rightarrow> gotime" where
  "cut t = t - t mod 10 ^ 6"

lemma cut_le: "cut t \<le> t" and cut_near: "t < cut t + 10 ^ 6"
proof -
  have "0 \<le> t mod 10 ^ 6" "t mod 10 ^ 6 < 10 ^ 6" by simp_all
  then show "cut t \<le> t" "t < cut t + 10 ^ 6" unfolding cut_def by linarith+
qed

lemma cut_mono: "s \<le> t \<Longrightarrow> cut s \<le> cut t"
proof -
  assume "s \<le> t"
  then have "s div 10 ^ 6 * 10 ^ 6 \<le> t div 10 ^ 6 * 10 ^ 6" by (intro mult_right_mono zdiv_mono1) simp_all
  then show ?thesis by (simp add: cut_def minus_mod_eq_div_mult)
qed

lemma cut_cut [simp]: "cut (cut t) = cut t"
  by (simp add: cut_def minus_mod_eq_div_mult)

lemma cut_parts: "cut t = t div day_ns * day_ns + ms_of_day t * 10 ^ 6"
proof -
  have "t mod day_ns mod 10 ^ 6 = t mod 10 ^ 6"
    by (rule mod_mod_cancel) (simp add: day_ns_def)
  then have "ms_of_day t * 10 ^ 6 = t mod day_ns - t mod 10 ^ 6"
    by (metis ms_of_day_def minus_mod_eq_div_mult)
  then show ?thesis using div_mult_mod_eq [of t day_ns] unfolding cut_def by linarith
qed

lemma ms_of_day: "0 \<le> ms_of_day t" "ms_of_day t < 86400000"
proof -
  have "0 \<le> t mod day_ns" "t mod day_ns < day_ns" by (simp_all add: day_ns_def)
  then show "0 \<le> ms_of_day t" "ms_of_day t < 86400000" by (simp_all add: ms_of_day_def day_ns_def)
qed

lemma printable_year:
  assumes "printable t" and "civil (t div day_ns) = (y, m, d)"
  shows "0 \<le> y" "y < 10000"
proof -
  have d: "days_before_year 0 \<le> t div day_ns" "t div day_ns < days_before_year 10000"
  proof -
    have pos: "0 < day_ns" by (simp add: day_ns_def)
    show "days_before_year 0 \<le> t div day_ns"
      using assms(1) zdiv_mono1 [of "days_before_year 0 * day_ns" t day_ns] pos by (simp add: printable_def)
    show "t div day_ns < days_before_year 10000"
    proof (rule ccontr)
      assume "\<not> ?thesis"
      then have "days_before_year 10000 * day_ns \<le> t div day_ns * day_ns"
        using pos by (intro mult_right_mono) simp_all
      also have "0 \<le> t mod day_ns" using pos by simp
      then have "t div day_ns * day_ns \<le> t" using div_mult_mod_eq [of t day_ns] by linarith
      finally show False using assms(1) by (simp add: printable_def)
    qed
  qed
  note C = civil [OF assms(2)]
  note B = days_of_bounds [OF C(1), unfolded C(2)]
  show "0 \<le> y" using d(1) B(2) days_before_year_mono [of "y + 1" 0] by linarith
  show "y < 10000" using d(2) B(1) days_before_year_mono [of 10000 y] by linarith
qed

lemma month_len_le: "1 \<le> m \<Longrightarrow> m \<le> 12 \<Longrightarrow> month_len y m \<le> 31"
  by (auto simp: month_len_def days_before_month_def leap_day_def)

lemma valid_date_bounds: "valid_date y m d \<Longrightarrow> 1 \<le> m \<and> m \<le> 12 \<and> 1 \<le> d \<and> d \<le> 31"
  using month_len_le [of m y] by (auto simp: valid_date_def)

lemma printable_format_year:
  "0 \<le> y \<Longrightarrow> y < 10000 \<Longrightarrow> format_year y = digits 4 y"
  by (simp add: format_year_def pad4_def)

lemma read_format_day:
  assumes "printable t" "civil (t div day_ns) = (y, m, d)"
  shows "read_date (format_day t @ s) = Some ((y, m, d), s)"
proof -
  note v = civil(1) [OF assms(2)]
  note b = valid_date_bounds [OF v]
  show ?thesis using printable_year [OF assms] b v
    by (simp add: format_day_def read_date_def assms(2) printable_format_year read_digits
        del: digits.simps read_fixed.simps)
qed

lemma digits_2: "digits 2 n = [dig (n div 10), dig (n mod 10)]"
  by (simp add: numeral_2_eq_2)

lemma getnum_digits: "0 \<le> n \<Longrightarrow> n < 100 \<Longrightarrow> getnum (digits 2 n @ s) = Some (n, s)"
proof -
  assume "0 \<le> n" "n < 100"
  then have "0 \<le> n div 10" "n div 10 < 10" "0 \<le> n mod 10" "n mod 10 < 10" by simp_all
  then show ?thesis unfolding digits_2 using is_dig_dig by simp
qed

lemma read_format_clock:
  assumes "0 \<le> ms" "ms < 86400000"
  shows "Option.bind (read_clock (format_clock ms @ s)) (\<lambda>(sec, s). Option.bind (read_ms s) (f sec)) =
         f (ms div 1000) (ms mod 1000, s)"
proof -
  have h: "0 \<le> ms div 3600000" "ms div 3600000 < 24" using assms by simp_all
  have ms: "read_ms (CHR ''.'' # digits 3 (ms mod 1000) @ s) = Some (ms mod 1000, s)"
  proof -
    obtain c r where cr: "digits 3 (ms mod 1000) = c # r" "is_dig c"
      using is_dig_dig [of "ms mod 1000 div 100"] by (simp add: numeral_3_eq_3)
    then have "c \<noteq> CHR ''+'' \<and> c \<noteq> CHR ''-''" by (auto simp: is_dig_def)
    moreover have "read_fixed 3 0 (digits 3 (ms mod 1000) @ s) = Some (ms mod 1000, s)"
      by (subst read_digits) simp_all
    ultimately show ?thesis by (simp add: cr(1))
  qed
  have sum: "(ms div 3600000 * 60 + ms div 60000 mod 60) * 60 + ms div 1000 mod 60 = ms div 1000"
  proof -
    have "ms div 60000 = ms div 1000 div 60" "ms div 3600000 = ms div 1000 div 60 div 60"
      using zdiv_zmult2_eq [of 60 ms 1000] zdiv_zmult2_eq [of 60 ms "1000 * 60"] by simp_all
    then show ?thesis by (simp only: div_mult_mod_eq)
  qed
  have "read_clock (format_clock ms @ s) = Some (ms div 1000, CHR ''.'' # digits 3 (ms mod 1000) @ s)"
  proof -
    have mi: "0 \<le> ms div 60000 mod 60" "ms div 60000 mod 60 < 60"
      and sec: "0 \<le> ms div 1000 mod 60" "ms div 1000 mod 60 < 60" by simp_all
    define H M S where HMS: "H = ms div 3600000" "M = ms div 60000 mod 60" "S = ms div 1000 mod 60"
    have "read_clock (digits 2 H @ CHR '':'' # digits 2 M @ CHR '':'' # digits 2 S @ u)
        = Some ((H * 60 + M) * 60 + S, u)" for u
      using h mi sec unfolding HMS [symmetric] read_clock_def
      by (simp add: getnum_digits read_digits del: digits.simps read_fixed.simps getnum.simps)
    then show ?thesis unfolding format_clock_def HMS sum by (simp only: append_assoc append_Cons)
  qed
  with ms show ?thesis by simp
qed

lemma parse_format_cut:
  assumes "printable t"
  shows "parse_time (format_time t) = Some (cut t)"
proof -
  obtain y m d where c: "civil (t div day_ns) = (y, m, d)" by (metis prod_cases3)
  note m = ms_of_day [of t]
  have "parse_time (format_time t) =
      Some (t div day_ns * day_ns + ms_of_day t div 1000 * 10 ^ 9 + ms_of_day t mod 1000 * 10 ^ 6)"
    unfolding parse_time_def format_time_def append_assoc
    by (simp add: read_format_day [OF assms c] read_format_clock [OF m] civil(2) [OF c])
  moreover have "ms_of_day t div 1000 * 10 ^ 9 + ms_of_day t mod 1000 * 10 ^ 6 = ms_of_day t * 10 ^ 6"
  proof -
    have "q * 10 ^ 9 + r * 10 ^ 6 = (q * 1000 + r) * 10 ^ 6" for q r :: int by simp
    then show ?thesis by (simp only: div_mult_mod_eq)
  qed
  ultimately show ?thesis by (simp add: cut_parts)
qed

lemma format_day_less:
  assumes "printable s" "printable t"
  shows "format_day s @ a < format_day t @ b \<longleftrightarrow>
         s div day_ns < t div day_ns \<or> s div day_ns = t div day_ns \<and> a < b"
proof -
  obtain y m d where c: "civil (s div day_ns) = (y, m, d)" by (metis prod_cases3)
  obtain y' m' d' where c': "civil (t div day_ns) = (y', m', d')" by (metis prod_cases3)
  note C = civil [OF c] and C' = civil [OF c']
  note b = valid_date_bounds [OF C(1)] valid_date_bounds [OF C'(1)]
    printable_year [OF assms(1) c] printable_year [OF assms(2) c']
  have "format_day s @ a < format_day t @ b \<longleftrightarrow>
      y < y' \<or> y = y' \<and> (m < m' \<or> m = m' \<and> (d < d' \<or> d = d' \<and> a < b))"
    using b by (simp add: format_day_def c c' printable_format_year digits_less del: digits.simps)
  moreover have "s div day_ns = t div day_ns \<longleftrightarrow> y = y' \<and> m = m' \<and> d = d'"
    using c c' C(2) C'(2) by (metis prod.inject)
  ultimately show ?thesis using days_of_less_iff [OF C(1) C'(1)] C(2) C'(2) by auto
qed

lemma clock_fields:
  "0 \<le> (ms::int) \<Longrightarrow> ms < 86400000 \<Longrightarrow>
   \<exists>H M S l. ms div 3600000 = H \<and> ms div 60000 mod 60 = M \<and> ms div 1000 mod 60 = S \<and> ms mod 1000 = l \<and>
     ms = ((H * 60 + M) * 60 + S) * 1000 + l \<and>
     0 \<le> H \<and> H < 24 \<and> 0 \<le> M \<and> M < 60 \<and> 0 \<le> S \<and> S < 60 \<and> 0 \<le> l \<and> l < 1000"
proof (intro exI conjI)
  assume ms: "0 \<le> ms" "ms < 86400000"
  have "ms div 60000 = ms div 1000 div 60" "ms div 3600000 = ms div 1000 div 60 div 60"
    using zdiv_zmult2_eq [of 60 ms 1000] zdiv_zmult2_eq [of 60 ms "1000 * 60"] by simp_all
  then show "ms = ((ms div 3600000 * 60 + ms div 60000 mod 60) * 60 + ms div 1000 mod 60) * 1000 + ms mod 1000"
    by (simp only: div_mult_mod_eq)
  show "0 \<le> ms div 3600000" "ms div 3600000 < 24" using ms by simp_all
qed simp_all

lemma format_clock_less:
  assumes "0 \<le> i" "i < 86400000" "0 \<le> j" "j < 86400000"
  shows "format_clock i @ a < format_clock j @ b \<longleftrightarrow> i < j \<or> i = j \<and> a < b"
proof -
  obtain H M S l where i: "i div 3600000 = H" "i div 60000 mod 60 = M" "i div 1000 mod 60 = S" "i mod 1000 = l"
      and i_eq: "i = ((H * 60 + M) * 60 + S) * 1000 + l"
      and ib: "0 \<le> H" "H < 24" "0 \<le> M" "M < 60" "0 \<le> S" "S < 60" "0 \<le> l" "l < 1000"
    using clock_fields [OF assms(1,2)] by metis
  obtain H' M' S' l' where j: "j div 3600000 = H'" "j div 60000 mod 60 = M'" "j div 1000 mod 60 = S'" "j mod 1000 = l'"
      and j_eq: "j = ((H' * 60 + M') * 60 + S') * 1000 + l'"
      and jb: "0 \<le> H'" "H' < 24" "0 \<le> M'" "M' < 60" "0 \<le> S'" "S' < 60" "0 \<le> l'" "l' < 1000"
    using clock_fields [OF assms(3,4)] by metis
  have "format_clock i @ a < format_clock j @ b \<longleftrightarrow>
      H < H' \<or> H = H' \<and> (M < M' \<or> M = M' \<and> (S < S' \<or> S = S' \<and> (l < l' \<or> l = l' \<and> a < b)))"
    unfolding format_clock_def i j using ib jb by (simp add: digits_less del: digits.simps)
  moreover have "i < j \<longleftrightarrow> H < H' \<or> H = H' \<and> (M < M' \<or> M = M' \<and> (S < S' \<or> S = S' \<and> l < l'))"
    unfolding i_eq j_eq using ib jb by (auto simp: lex_mul lex_mul_eq simp del: distrib_right_numeral)
  moreover have "i = j \<longleftrightarrow> H = H' \<and> M = M' \<and> S = S' \<and> l = l'" using i j i_eq j_eq by metis
  ultimately show ?thesis by blast
qed

lemma format_time_less:
  assumes "printable s" "printable t"
  shows "format_time s < format_time t \<longleftrightarrow> cut s < cut t"
proof -
  have "format_time s < format_time t \<longleftrightarrow>
      s div day_ns < t div day_ns \<or> s div day_ns = t div day_ns \<and> ms_of_day s < ms_of_day t"
    unfolding format_time_def
    using format_day_less [OF assms] format_clock_less [OF ms_of_day [of s] ms_of_day [of t]] by simp
  also have "\<dots> \<longleftrightarrow> cut s < cut t"
    unfolding cut_parts using ms_of_day [of s] ms_of_day [of t]
    by (subst lex_mul) (simp_all add: day_ns_def)
  finally show ?thesis .
qed

lemma parse_format_day:
  assumes "printable t"
  shows "parse_day (format_day t) = Some (t div day_ns * day_ns)"
proof -
  obtain y m d where c: "civil (t div day_ns) = (y, m, d)" by (metis prod_cases3)
  show ?thesis using read_format_day [OF assms c, of "[]"] civil(2) [OF c] by (simp add: parse_day_def)
qed

lemma format_day_less_iff:
  assumes "printable s" "printable t"
  shows "format_day s < format_day t \<longleftrightarrow> s div day_ns < t div day_ns"
  using format_day_less [OF assms, of "[]" "[]"] by simp

text \<open>And back: a text that reads as a day is the canonical text of its midnight.\<close>

lemma dig_dig_val: "is_dig c \<Longrightarrow> dig (dig_val c) = c \<and> 0 \<le> dig_val c \<and> dig_val c < 10"
  by (simp add: is_dig_def dig_val_def dig_def)

lemma read_fixed_digits:
  "read_fixed w acc s = Some (v, r) \<Longrightarrow> \<exists>n. 0 \<le> n \<and> n < 10 ^ w \<and> v = acc * 10 ^ w + n \<and> s = digits w n @ r"
proof (induction w arbitrary: acc s)
  case (Suc w)
  then obtain c t where s: "s = c # t" "is_dig c" and t: "read_fixed w (acc * 10 + dig_val c) t = Some (v, r)"
    by (cases s) (auto split: if_splits)
  from Suc.IH [OF t] obtain n where n: "0 \<le> n" "n < 10 ^ w" "v = (acc * 10 + dig_val c) * 10 ^ w + n" "t = digits w n @ r"
    by blast
  note c = dig_dig_val [OF s(2)]
  have "(dig_val c * 10 ^ w + n) div 10 ^ w = dig_val c" "(dig_val c * 10 ^ w + n) mod 10 ^ w = n"
    using n(1,2) by (simp_all add: int_div_pos_eq int_mod_pos_eq)
  moreover have "dig_val c * 10 ^ w + n < 10 ^ Suc w"
  proof -
    have "dig_val c * 10 ^ w \<le> 9 * 10 ^ w" using c by (intro mult_right_mono) simp_all
    then show ?thesis using n(2) unfolding power_Suc by linarith
  qed
  ultimately show ?case
    using n c s by (intro exI [of _ "dig_val c * 10 ^ w + n"]) (simp add: algebra_simps)
qed simp

lemma expect_Some: "expect c s = Some r \<longleftrightarrow> s = c # r"
  by (cases s) auto

lemma parse_day_format:
  assumes "parse_day s = Some t"
  shows "printable t" "t mod day_ns = 0" "format_day t = s"
proof -
  obtain y m d s1 s2 s3 s4 where r: "read_fixed 4 0 s = Some (y, s1)" "s1 = CHR ''-'' # s2"
    "read_fixed 2 0 s2 = Some (m, s3)" "s3 = CHR ''-'' # s4" "read_fixed 2 0 s4 = Some (d, [])"
    and v: "valid_date y m d" and t: "t = days_of y m d * day_ns"
    using assms by (auto simp: parse_day_def read_date_def bind_eq_Some_conv expect_Some
        split: if_splits simp del: read_fixed.simps)
  have y: "0 \<le> y" "y < 10000" "s = digits 4 y @ s1" using read_fixed_digits [OF r(1)] by auto
  have m: "s2 = digits 2 m @ s3" using read_fixed_digits [OF r(3)] by auto
  have d: "s4 = digits 2 d" using read_fixed_digits [OF r(5)] by auto
  have pos: "0 < day_ns" by (simp add: day_ns_def)
  have div: "t div day_ns = days_of y m d" "t mod day_ns = 0" using t pos by simp_all
  show "t mod day_ns = 0" by (rule div)
  show "format_day t = s"
    using y m d r(2,4) civil_days_of [OF v] div(1) by (simp add: format_day_def printable_format_year del: digits.simps)
  have "days_before_year 0 \<le> days_of y m d" "days_of y m d < days_before_year 10000"
    using days_of_bounds(1,2) [OF v] days_before_year_mono [OF y(1)] days_before_year_mono [of "y + 1" 10000] y(2)
    by linarith+
  then show "printable t" unfolding printable_def t using pos by simp
qed

lemma parse_day_less:
  assumes "parse_day a = Some s" "parse_day b = Some t"
  shows "a < b \<longleftrightarrow> s < t"
proof -
  note A = parse_day_format [OF assms(1)] and B = parse_day_format [OF assms(2)]
  have "a < b \<longleftrightarrow> s div day_ns < t div day_ns" using format_day_less_iff [OF A(1) B(1)] A(3) B(3) by simp
  also have "\<dots> \<longleftrightarrow> s div day_ns * day_ns < t div day_ns * day_ns" by (simp add: day_ns_def)
  also have "\<dots> \<longleftrightarrow> s < t" using A(2) B(2) div_mult_mod_eq [of s day_ns] div_mult_mod_eq [of t day_ns] by simp
  finally show ?thesis .
qed

lemma format_time_not_Nil [simp]: "format_time t \<noteq> []"
  by (simp add: format_time_def)

subsection \<open>RFC 3339\<close>

definition read_frac :: "string \<Rightarrow> int \<times> string" where
  "read_frac s =
     (case s of
        p # c # r \<Rightarrow>
          if (p = CHR ''.'' \<or> p = CHR '','') \<and> is_dig c then
            (let ds = takeWhile is_dig (c # r); ds9 = take 9 ds
             in (fold (\<lambda>d n. n * 10 + dig_val d) ds9 0 * 10 ^ (9 - length ds9), dropWhile is_dig (c # r)))
          else (0, s)
      | _ \<Rightarrow> (0, s))"

text \<open>The zone as an offset in seconds; 24 hours and 60 minutes are accepted, as in the library.\<close>

fun read_zone :: "string \<Rightarrow> (int \<times> string) option" where
  "read_zone [] = None"
| "read_zone (c # s) =
     (if c = CHR ''Z'' then Some (0, s)
      else if c \<noteq> CHR ''+'' \<and> c \<noteq> CHR ''-'' then None
      else Option.bind (read_fixed 2 0 s) (\<lambda>(h, s).
           Option.bind (expect CHR '':'' s) (\<lambda>s.
           Option.bind (read_fixed 2 0 s) (\<lambda>(m, s).
           if h > 24 \<or> m > 60 then None
           else Some ((if c = CHR ''-'' then - 1 else 1) * ((h * 60 + m) * 60), s)))))"

definition parse_rfc3339 :: "string \<Rightarrow> gotime option" where
  "parse_rfc3339 s =
     Option.bind (read_date s) (\<lambda>((y, m, d), s).
     Option.bind (expect CHR ''T'' s) (\<lambda>s.
     Option.bind (read_clock s) (\<lambda>(sec, s).
     let (ns, s) = read_frac s
     in Option.bind (read_zone s) (\<lambda>(off, s).
        if s = [] then Some (days_of y m d * day_ns + (sec - off) * 10 ^ 9 + ns) else None))))"

subsection \<open>Durations\<close>

type_synonym duration = int

definition wrap64 :: "int \<Rightarrow> int" where
  "wrap64 x = (x + 2 ^ 63) mod 2 ^ 64 - 2 ^ 63"

definition int64 :: "int \<Rightarrow> bool" where
  "int64 x \<longleftrightarrow> - (2 ^ 63) \<le> x \<and> x < 2 ^ 63"

definition second :: duration where "second = 10 ^ 9"
definition minute :: duration where "minute = 60 * second"
definition hour :: duration where "hour = 60 * minute"

definition mul_duration :: "duration \<Rightarrow> duration \<Rightarrow> duration" where
  "mul_duration a b = wrap64 (a * b)"

text \<open>\<open>t.Sub(u)\<close> saturates instead of wrapping.\<close>

definition sub_time :: "gotime \<Rightarrow> gotime \<Rightarrow> duration" where
  "sub_time t u = max (- (2 ^ 63)) (min (2 ^ 63 - 1) (t - u))"

lemma wrap64_range: "int64 (wrap64 x)"
  by (simp add: int64_def wrap64_def)

lemma wrap64_id: "int64 x \<Longrightarrow> wrap64 x = x"
  by (simp add: int64_def wrap64_def)

lemma sub_time_range: "int64 (sub_time t u)"
  by (simp add: int64_def sub_time_def)

end
