(* ===== verification/GoError.thy ===== *)
theory GoError
  imports GoText GoTime
begin

text \<open>
  Error values. Go wraps errors with \<open>fmt.Errorf("...: %w", err)\<close>, and callers branch with
  \<open>errors.Is\<close> and \<open>errors.As\<close>, which search the tree of wrapped errors. A \<open>gerr\<close> is
  such a tree: its leaves are the sentinels the packages declare, the two \<open>RateLimitError\<close>
  structs (which unwrap to their package's sentinel), oauth2's \<open>RetrieveError\<close>, and errors of
  which only the text is known. \<open>err_text\<close> is \<open>Error()\<close>, which is what ends up in
  \<open>sync_runs.error\<close>.

  The second part is the HTTP back-off hint: \<open>parseRetryAfter\<close>, which \<open>pkg/difm\<close> and
  \<open>pkg/spotify\<close> both declare, and the text of a duration. The date form of the header is
  read by \<open>net/http\<close>; that parser is the argument \<open>http_date\<close>.
\<close>

subsection \<open>Numbers as text\<close>

definition rune_dig :: "rune \<Rightarrow> bool" where
  "rune_dig r \<longleftrightarrow> 48 \<le> r \<and> r \<le> 57"

text \<open>\<open>strconv.Atoi\<close>: an optional sign, then digits, within the range of \<open>int\<close>.\<close>

definition atoi :: "runes \<Rightarrow> int option" where
  "atoi v =
     (let (neg, ds) = (case v of [] \<Rightarrow> (False, []) | c # r \<Rightarrow>
                         if c = 45 then (True, r) else if c = 43 then (False, r) else (False, v));
          n = fold (\<lambda>d n. n * 10 + (d - 48)) ds 0
      in if ds = [] \<or> \<not> list_all rune_dig ds then None
         else let x = (if neg then - n else n) in if int64 x then Some x else None)"

subsection \<open>Durations as text\<close>

text \<open>\<open>Duration.String\<close>: the fraction is cut of its trailing zeros.\<close>

definition frac_text :: "int \<Rightarrow> nat \<Rightarrow> runes" where
  "frac_text v prec =
     (let ds = rev (dropWhile (\<lambda>c. c = 48) (rev (lit (digits prec v)))) in if ds = [] then [] else 46 # ds)"

definition duration_text :: "duration \<Rightarrow> runes" where
  "duration_text d =
     (let u = abs d; sign = (if d < 0 then [45] else [])
      in if u = 0 then lit ''0s''
         else if u < 1000 then sign @ itoa u @ lit ''ns''
         else if u < 10 ^ 6 then sign @ itoa (u div 1000) @ frac_text (u mod 1000) 3 @ [181] @ lit ''s''
         else if u < 10 ^ 9 then sign @ itoa (u div 10 ^ 6) @ frac_text (u mod 10 ^ 6) 6 @ lit ''ms''
         else
           (let secs = u div 10 ^ 9; s = itoa (secs mod 60) @ frac_text (u mod 10 ^ 9) 9 @ lit ''s'';
                mins = secs div 60
            in sign @ (if mins = 0 then s
                       else (if mins div 60 = 0 then [] else itoa (mins div 60) @ lit ''h'')
                            @ itoa (mins mod 60) @ lit ''m'' @ s)))"

subsection \<open>Error trees\<close>

datatype sentinel =
    ErrPassIncomplete
  | DifmErrUnauthorized | DifmErrRateLimited | DifmErrTruncated | DifmErrDropped
  | SpErrNoCredentials | SpErrRateLimited | SpErrUnauthorized | SpErrGrantRevoked
  | SqlErrNoRows | StoreErrCorrupt
  | CtxCanceled | CtxDeadlineExceeded
  | HttpErrServerClosed

fun sentinel_text :: "sentinel \<Rightarrow> runes" where
  "sentinel_text ErrPassIncomplete = lit ''sync pass incomplete''"
| "sentinel_text DifmErrUnauthorized = lit ''difm: unauthorized''"
| "sentinel_text DifmErrRateLimited = lit ''difm: rate limited''"
| "sentinel_text DifmErrTruncated = lit ''difm: result truncated at page limit''"
| "sentinel_text DifmErrDropped = lit ''difm: records dropped''"
| "sentinel_text SpErrNoCredentials = lit ''spotify: no refresh token; run `difmsync auth` first''"
| "sentinel_text SpErrRateLimited = lit ''spotify: rate limited''"
| "sentinel_text SpErrUnauthorized = lit ''spotify: unauthorized''"
| "sentinel_text SpErrGrantRevoked = lit ''spotify: refresh token rejected''"
| "sentinel_text SqlErrNoRows = lit ''sql: no rows in result set''"
| "sentinel_text StoreErrCorrupt = lit ''sqlite: database is unreadable''"
| "sentinel_text CtxCanceled = lit ''context canceled''"
| "sentinel_text CtxDeadlineExceeded = lit ''context deadline exceeded''"
| "sentinel_text HttpErrServerClosed = lit ''http: Server closed''"

text \<open>
  \<open>TokenError\<close> is \<open>*oauth2.RetrieveError\<close>: the response's status and \<open>Retry-After\<close>
  header (\<open>None\<close> without a response), the error code of the body, and the text.
  \<open>UrlError\<close> is \<open>*url.Error\<close>: operation, URL and cause.
\<close>

datatype gerr =
    Sentinel sentinel
  | DifmRateLimit duration int
  | SpRateLimit duration int
  | TokenError "(int \<times> runes) option" runes runes
  | UrlError runes runes gerr
  | Msg runes
  | Wrap runes gerr runes
  | Wrap2 runes gerr runes gerr runes

fun rate_limit_text :: "string \<Rightarrow> duration \<Rightarrow> int \<Rightarrow> runes" where
  "rate_limit_text pkg retryAfter status =
     lit pkg @ lit '': rate limited (status '' @ itoa status @ lit '')'' @
     (if retryAfter > 0 then lit '', retry after '' @ duration_text retryAfter else [])"

fun err_text :: "gerr \<Rightarrow> runes" where
  "err_text (Sentinel s) = sentinel_text s"
| "err_text (DifmRateLimit d status) = rate_limit_text ''difm'' d status"
| "err_text (SpRateLimit d status) = rate_limit_text ''spotify'' d status"
| "err_text (TokenError resp code txt) = txt"
| "err_text (UrlError verb url e) = verb @ lit '' '' @ [34] @ url @ [34] @ lit '': '' @ err_text e"
| "err_text (Msg txt) = txt"
| "err_text (Wrap pre e post) = pre @ err_text e @ post"
| "err_text (Wrap2 pre e mid f post) = pre @ err_text e @ mid @ err_text f @ post"

fun errors_is :: "gerr \<Rightarrow> sentinel \<Rightarrow> bool" where
  "errors_is (Sentinel s) t \<longleftrightarrow> s = t"
| "errors_is (DifmRateLimit d status) t \<longleftrightarrow> t = DifmErrRateLimited"
| "errors_is (SpRateLimit d status) t \<longleftrightarrow> t = SpErrRateLimited"
| "errors_is (TokenError resp code txt) t \<longleftrightarrow> False"
| "errors_is (UrlError verb url e) t \<longleftrightarrow> errors_is e t"
| "errors_is (Msg txt) t \<longleftrightarrow> False"
| "errors_is (Wrap pre e post) t \<longleftrightarrow> errors_is e t"
| "errors_is (Wrap2 pre e mid f post) t \<longleftrightarrow> errors_is e t \<or> errors_is f t"

text \<open>\<open>errors.As\<close> finds the first match of a depth-first walk.\<close>

fun orelse :: "'a option \<Rightarrow> 'a option \<Rightarrow> 'a option" where
  "orelse (Some x) y = Some x"
| "orelse None y = y"

fun as_difm_rate_limit :: "gerr \<Rightarrow> duration option" where
  "as_difm_rate_limit (DifmRateLimit d status) = Some d"
| "as_difm_rate_limit (UrlError verb url e) = as_difm_rate_limit e"
| "as_difm_rate_limit (Wrap pre e post) = as_difm_rate_limit e"
| "as_difm_rate_limit (Wrap2 pre e mid f post) = orelse (as_difm_rate_limit e) (as_difm_rate_limit f)"
| "as_difm_rate_limit e = None"

fun as_spotify_rate_limit :: "gerr \<Rightarrow> duration option" where
  "as_spotify_rate_limit (SpRateLimit d status) = Some d"
| "as_spotify_rate_limit (UrlError verb url e) = as_spotify_rate_limit e"
| "as_spotify_rate_limit (Wrap pre e post) = as_spotify_rate_limit e"
| "as_spotify_rate_limit (Wrap2 pre e mid f post) =
     orelse (as_spotify_rate_limit e) (as_spotify_rate_limit f)"
| "as_spotify_rate_limit e = None"

fun as_token_error :: "gerr \<Rightarrow> ((int \<times> runes) option \<times> runes) option" where
  "as_token_error (TokenError resp code txt) = Some (resp, code)"
| "as_token_error (UrlError verb url e) = as_token_error e"
| "as_token_error (Wrap pre e post) = as_token_error e"
| "as_token_error (Wrap2 pre e mid f post) = orelse (as_token_error e) (as_token_error f)"
| "as_token_error e = None"

fun as_url_error :: "gerr \<Rightarrow> (runes \<times> runes \<times> gerr) option" where
  "as_url_error (UrlError verb url e) = Some (verb, url, e)"
| "as_url_error (Wrap pre e post) = as_url_error e"
| "as_url_error (Wrap2 pre e mid f post) = orelse (as_url_error e) (as_url_error f)"
| "as_url_error e = None"

lemma orelse_eq_Some: "orelse x y = Some d \<longleftrightarrow> x = Some d \<or> x = None \<and> y = Some d"
  by (cases x) auto

lemma as_difm_rate_limit_is: "as_difm_rate_limit e = Some d \<Longrightarrow> errors_is e DifmErrRateLimited"
  by (induction e rule: as_difm_rate_limit.induct) (auto simp: orelse_eq_Some)

lemma as_spotify_rate_limit_is: "as_spotify_rate_limit e = Some d \<Longrightarrow> errors_is e SpErrRateLimited"
  by (induction e rule: as_spotify_rate_limit.induct) (auto simp: orelse_eq_Some)

subsection \<open>Retry-After\<close>

definition parseRetryAfter :: "gotime \<Rightarrow> (runes \<Rightarrow> gotime option) \<Rightarrow> runes \<Rightarrow> duration" where
  "parseRetryAfter now http_date v =
     (let v = trim_space v
      in if v = [] then 0
         else case atoi v of
                Some secs \<Rightarrow> if secs < 0 then 0 else mul_duration secs second
              | None \<Rightarrow>
                  (case http_date v of
                     Some when \<Rightarrow> (let d = sub_time when now in if d > 0 then d else 0)
                   | None \<Rightarrow> 0))"

lemma parseRetryAfter_int64: "int64 (parseRetryAfter now http_date v)"
  using wrap64_range sub_time_range
  by (auto simp: parseRetryAfter_def mul_duration_def Let_def int64_def split: option.split)

subsection \<open>HTTP\<close>

text \<open>
  What a request comes back with: the request could not be built, there was no response, or a
  response with a status, a \<open>Retry-After\<close> header, the start of the body as text, and what
  decoding the body as JSON gives.
\<close>

datatype 'b reply =
    BadRequest gerr
  | NoReply gerr
  | Reply int runes runes "gerr + 'b"

text \<open>\<open>url.PathEscape\<close>: what may stand in a path segment stays, other bytes are escaped.\<close>

definition path_safe :: "char \<Rightarrow> bool" where
  "path_safe c \<longleftrightarrow>
     (let n = (of_char c :: nat)
      in 48 \<le> n \<and> n \<le> 57 \<or> 65 \<le> n \<and> n \<le> 90 \<or> 97 \<le> n \<and> n \<le> 122) \<or> c \<in> set ''-_.~$&+=:@''"

definition hex_digit :: "nat \<Rightarrow> char" where
  "hex_digit n = ''0123456789ABCDEF'' ! n"

definition path_escape :: "string \<Rightarrow> string" where
  "path_escape s =
     concat (map (\<lambda>c. if path_safe c then [c]
                      else [CHR ''%'', hex_digit (of_char c div 16), hex_digit (of_char c mod 16)]) s)"

text \<open>\<open>strings.ReplaceAll\<close> with a non-empty \<open>old\<close>.\<close>

function replace_sub :: "'a list \<Rightarrow> 'a list \<Rightarrow> 'a list \<Rightarrow> 'a list" where
  "replace_sub old new s =
     (if s = [] then []
      else if old \<noteq> [] \<and> take (length old) s = old then new @ replace_sub old new (drop (length old) s)
      else hd s # replace_sub old new (tl s))"
  by pat_completeness auto
termination by (relation "measure (\<lambda>(old, new, s). length s)") auto

declare replace_sub.simps [simp del]

definition trim_right :: "'a \<Rightarrow> 'a list \<Rightarrow> 'a list" where
  "trim_right c s = rev (dropWhile (\<lambda>x. x = c) (rev s))"

end
