(* ===== verification/Levenshtein.thy ===== *)
theory Levenshtein
  imports Prelude
begin

text \<open>
  The edit distance of \<open>pkg/match/score.go\<close>. \<open>levenshtein\<close> is the two-row
  dynamic-programming loop, with the rows as lists that are updated in place and swapped, as
  the code swaps its two slices (so a row starts with the stale values of the row before
  last). \<open>script\<close> says what an edit distance is: \<open>script a b n\<close> when \<open>a\<close> can
  be turned into \<open>b\<close> with \<open>n\<close> insertions, deletions and substitutions. The lemmas end
  in \<open>levenshtein_least\<close>: the loop computes the least such \<open>n\<close>.
\<close>

subsection \<open>The loop of the source\<close>

definition lev_cell :: "rune \<Rightarrow> runes \<Rightarrow> nat list \<Rightarrow> nat \<Rightarrow> nat list \<Rightarrow> nat list" where
  "lev_cell x br prev j cur =
     (let cost = (if x = br ! (j - 1) then 0 else 1)
      in cur[j := min (min (cur ! (j - 1) + 1) (prev ! j + 1)) (prev ! (j - 1) + cost)])"

definition lev_row :: "runes \<Rightarrow> runes \<Rightarrow> nat \<Rightarrow> nat list \<times> nat list \<Rightarrow> nat list \<times> nat list" where
  "lev_row ar br i rows =
     (case rows of (prev, cur) \<Rightarrow>
        (fold (lev_cell (ar ! (i - 1)) br prev) [1..<Suc (length br)] (cur[0 := i]), prev))"

definition levenshtein :: "runes \<Rightarrow> runes \<Rightarrow> nat" where
  "levenshtein a b =
     (let ar = (if length a < length b then b else a);
          br = (if length a < length b then a else b);
          rows = ([0..<Suc (length br)], replicate (Suc (length br)) 0)
      in fst (fold (lev_row ar br) [1..<Suc (length ar)] rows) ! length br)"

subsection \<open>The specification: cheapest edit scripts\<close>

inductive script :: "'a list \<Rightarrow> 'a list \<Rightarrow> nat \<Rightarrow> bool" where
  script_nil: "script [] [] 0"
| script_keep: "script xs ys n \<Longrightarrow> script (x # xs) (x # ys) n"
| script_subst: "script xs ys n \<Longrightarrow> script (x # xs) (y # ys) (Suc n)"
| script_delete: "script xs ys n \<Longrightarrow> script (x # xs) ys (Suc n)"
| script_insert: "script xs ys n \<Longrightarrow> script xs (y # ys) (Suc n)"

inductive_cases script_nilE: "script [] [] n"
inductive_cases script_nil_consE: "script [] (y # ys) n"
inductive_cases script_cons_nilE: "script (x # xs) [] n"
inductive_cases script_consE: "script (x # xs) (y # ys) n"

fun edist :: "'a list \<Rightarrow> 'a list \<Rightarrow> nat" where
  "edist [] ys = length ys"
| "edist xs [] = length xs"
| "edist (x # xs) (y # ys) =
     min (min (edist (x # xs) ys + 1) (edist xs (y # ys) + 1))
         (edist xs ys + (if x = y then 0 else 1))"

lemma edist_Nil2 [simp]: "edist xs [] = length xs"
  by (cases xs) auto

lemma script_edist: "script xs ys (edist xs ys)"
proof (induction xs ys rule: edist.induct)
  case (1 ys)
  show ?case by (induction ys) (auto intro: script.intros)
next
  case (2 x xs)
  have "script xs [] (length xs)" for xs :: "'a list"
    by (induction xs) (auto intro: script.intros)
  from this [of "x # xs"] show ?case by simp
next
  case (3 x xs y ys)
  then show ?case by (auto simp: min_def intro: script.intros)
qed

lemma script_nil_length: "script xs ys n \<Longrightarrow> length xs \<le> length ys + n \<and> length ys \<le> length xs + n"
  by (induction rule: script.induct) auto

lemma edist_least: "script xs ys n \<Longrightarrow> edist xs ys \<le> n"
proof (induction xs ys arbitrary: n rule: edist.induct)
  case (1 ys)
  then show ?case using script_nil_length by fastforce
next
  case (2 x xs)
  then show ?case using script_nil_length by fastforce
next
  case (3 x xs y ys)
  from "3.prems" show ?case
  proof (cases rule: script.cases)
    case script_keep
    with "3.IH"(3) show ?thesis by (simp add: min.coboundedI2)
  next
    case (script_subst m)
    with "3.IH"(3) [of m] show ?thesis by (auto simp: min_le_iff_disj)
  next
    case (script_delete m)
    with "3.IH"(2) [of m] show ?thesis by (simp add: min.coboundedI1)
  next
    case (script_insert m)
    with "3.IH"(1) [of m] show ?thesis by (simp add: min.coboundedI1)
  qed
qed

lemma script_append:
  "script a b m \<Longrightarrow> script c d n \<Longrightarrow> script (a @ c) (b @ d) (m + n)"
  by (induction rule: script.induct) (auto intro: script.intros)

lemma script_rev: "script a b n \<Longrightarrow> script (rev a) (rev b) n"
proof (induction rule: script.induct)
  case (script_keep xs ys n x)
  then show ?case using script_append [of _ _ n "[x]" "[x]" 0] by (auto intro: script.intros)
next
  case (script_subst xs ys n x y)
  then show ?case using script_append [of _ _ n "[x]" "[y]" 1]
    by (auto intro: script.intros)
next
  case (script_delete xs ys n x)
  then show ?case using script_append [of _ _ n "[x]" "[]" 1]
    by (auto intro: script.intros)
next
  case (script_insert xs ys n y)
  then show ?case using script_append [of _ _ n "[]" "[y]" 1]
    by (auto intro: script.intros)
qed (auto intro: script.intros)

lemma script_sym: "script a b n \<Longrightarrow> script b a n"
  by (induction rule: script.induct) (auto intro: script.intros)

lemma edist_rev: "edist (rev a) (rev b) = edist a b"
proof (rule antisym)
  show "edist (rev a) (rev b) \<le> edist a b"
    using script_edist [of a b] by (intro edist_least script_rev)
  show "edist a b \<le> edist (rev a) (rev b)"
    using script_rev [OF script_edist [of "rev a" "rev b"]] by (intro edist_least) simp
qed

lemma edist_sym: "edist a b = edist b a"
proof -
  have "edist x y \<le> edist y x" for x y :: "'a list"
    by (rule edist_least [OF script_sym [OF script_edist]])
  then show ?thesis by (simp add: antisym)
qed

subsection \<open>The loop computes the specification\<close>

definition lev_tab :: "runes \<Rightarrow> runes \<Rightarrow> nat \<Rightarrow> nat \<Rightarrow> nat" where
  "lev_tab ar br i j = edist (rev (take i ar)) (rev (take j br))"

lemma lev_tab_0 [simp]: "j \<le> length br \<Longrightarrow> lev_tab ar br 0 j = j"
  and lev_tab_i0 [simp]: "i \<le> length ar \<Longrightarrow> lev_tab ar br i 0 = i"
  by (simp_all add: lev_tab_def)

lemma lev_tab_Suc:
  "i < length ar \<Longrightarrow> j < length br \<Longrightarrow>
   lev_tab ar br (Suc i) (Suc j) =
     min (min (lev_tab ar br (Suc i) j + 1) (lev_tab ar br i (Suc j) + 1))
         (lev_tab ar br i j + (if ar ! i = br ! j then 0 else 1))"
  by (simp add: lev_tab_def take_Suc_conv_app_nth)

definition row_ok :: "runes \<Rightarrow> runes \<Rightarrow> nat \<Rightarrow> nat \<Rightarrow> nat list \<Rightarrow> bool" where
  "row_ok ar br i k row \<longleftrightarrow>
     length row = Suc (length br) \<and> (\<forall>j<k. row ! j = lev_tab ar br i j)"

lemma lev_cell_ok:
  assumes "i < length ar" and "1 \<le> j" and "j \<le> length br"
    and "row_ok ar br i (Suc (length br)) prev" and "row_ok ar br (Suc i) j cur"
  shows "row_ok ar br (Suc i) (Suc j) (lev_cell (ar ! i) br prev j cur)"
proof -
  obtain j' where j: "j = Suc j'" using assms(2) by (cases j) auto
  have "lev_cell (ar ! i) br prev j cur ! j = lev_tab ar br (Suc i) j"
    using assms lev_tab_Suc [of i ar j' br] by (simp add: lev_cell_def row_ok_def j)
  with assms show ?thesis
    by (auto simp: row_ok_def lev_cell_def Let_def less_Suc_eq)
qed

lemma lev_row_ok:
  assumes "i < length ar" and "row_ok ar br i (Suc (length br)) prev"
    and "length cur = Suc (length br)"
  shows "row_ok ar br (Suc i) (Suc (length br)) (fst (lev_row ar br (Suc i) (prev, cur)))"
proof -
  have "row_ok ar br (Suc i) (Suc (length br))
          (fold (lev_cell (ar ! i) br prev) [1..<Suc (length br)] (cur[0 := Suc i]))"
  proof (rule fold_upt_invariant [where P = "row_ok ar br (Suc i)"])
    show "row_ok ar br (Suc i) 1 (cur[0 := Suc i])"
      using assms by (simp add: row_ok_def)
    fix j row
    assume "1 \<le> j" "j < Suc (length br)" "row_ok ar br (Suc i) j row"
    with assms show "row_ok ar br (Suc i) (Suc j) (lev_cell (ar ! i) br prev j row)"
      by (simp add: lev_cell_ok)
  qed simp
  then show ?thesis by (simp add: lev_row_def)
qed

lemma lev_rows_ok:
  assumes "n \<le> length ar"
  shows "case fold (lev_row ar br) [1..<Suc n] ([0..<Suc (length br)], replicate (Suc (length br)) 0) of
           (prev, cur) \<Rightarrow> row_ok ar br n (Suc (length br)) prev \<and> length cur = Suc (length br)"
  using assms
proof (induction n)
  case 0
  then show ?case by (simp add: row_ok_def del: upt_Suc)
next
  case (Suc n)
  obtain prev cur where r: "fold (lev_row ar br) [1..<Suc n]
      ([0..<Suc (length br)], replicate (Suc (length br)) 0) = (prev, cur)" by fastforce
  with Suc have ok: "row_ok ar br n (Suc (length br)) prev" "length cur = Suc (length br)"
    by auto
  have "snd (lev_row ar br (Suc n) (prev, cur)) = prev" by (simp add: lev_row_def)
  with ok lev_row_ok [OF _ ok, of] Suc.prems r show ?case
    by (auto simp: row_ok_def split: prod.splits)
qed

lemma levenshtein_edist: "levenshtein a b = edist a b"
proof -
  have main: "fst (fold (lev_row ar br) [1..<Suc (length ar)]
        ([0..<Suc (length br)], replicate (Suc (length br)) 0)) ! length br = edist ar br" for ar br
    using lev_rows_ok [of "length ar" ar br]
    by (auto simp: row_ok_def lev_tab_def edist_rev split: prod.splits)
  show ?thesis
    unfolding levenshtein_def Let_def main by (simp add: edist_sym)
qed

lemma levenshtein_sym: "levenshtein a b = levenshtein b a"
  by (simp add: levenshtein_edist edist_sym)

lemma levenshtein_le: "levenshtein a b \<le> max (length a) (length b)"
  unfolding levenshtein_edist by (induction a b rule: edist.induct) (auto simp: min_def)

lemma script_0: "script a b n \<Longrightarrow> n = 0 \<Longrightarrow> a = b"
  by (induction rule: script.induct) auto

lemma levenshtein_0_iff: "levenshtein a b = 0 \<longleftrightarrow> a = b"
proof
  assume "levenshtein a b = 0"
  then show "a = b" using script_edist [of a b] script_0 by (metis levenshtein_edist)
next
  have "script b b 0" by (induction b) (auto intro: script.intros)
  moreover assume "a = b"
  ultimately show "levenshtein a b = 0" using edist_least by (fastforce simp: levenshtein_edist)
qed

text \<open>
  C23: the two-row loop of \<open>levenshtein\<close> returns the true edit distance: there is an edit
  script of that cost between the two texts, and no script is cheaper. The row swap, the
  stale contents of the reused row and the swap of the arguments do not matter.
\<close>

theorem levenshtein_least:
  "script a b (levenshtein a b) \<and> (\<forall>n. script a b n \<longrightarrow> levenshtein a b \<le> n)"
  by (auto simp: levenshtein_edist intro: edist_least script_edist)

text \<open>The distance of two titles, computed by the loop.\<close>

theorem levenshtein_least_witness:
  "levenshtein (lit ''mix'') (lit ''fox'') = 2 \<and>
   script (lit ''mix'') (lit ''fox'') 2 \<and> \<not> script (lit ''mix'') (lit ''fox'') 1"
proof -
  have "levenshtein (lit ''mix'') (lit ''fox'') = 2" by (simp add: levenshtein_edist)
  with levenshtein_least [of "lit ''mix''" "lit ''fox''"] show ?thesis by force
qed

end
