(* ===== verification/Score.thy ===== *)
theory Score
  imports Levenshtein
begin

text \<open>
  Candidate scoring, \<open>pkg/match/score.go\<close>, over the parsed tracks of
  \<open>pkg/match/normalize.go\<close>. \<open>float64\<close> is exact (type \<open>score\<close>, rationals), so the
  bounds below are bounds of the formula; no statement here depends on how a tie at a
  threshold is rounded. Runtimes are positive wherever they are subtracted, so their
  difference cannot overflow.
\<close>

subsection \<open>Tracks and versions\<close>

datatype VersionKind =
    VersionUnknown | VersionOriginal | VersionExtended | VersionRadio
  | VersionRemix | VersionInstrumental | VersionLive | VersionAcoustic

fun kind_string :: "VersionKind \<Rightarrow> runes" where
  "kind_string VersionOriginal = lit ''original''"
| "kind_string VersionExtended = lit ''extended''"
| "kind_string VersionRadio = lit ''radio''"
| "kind_string VersionRemix = lit ''remix''"
| "kind_string VersionInstrumental = lit ''instrumental''"
| "kind_string VersionLive = lit ''live''"
| "kind_string VersionAcoustic = lit ''acoustic''"
| "kind_string VersionUnknown = lit ''unknown''"

record Version =
  Kind :: VersionKind
  Remixer :: runes
  Raw :: runes

record Track =
  Artists :: "runes list"
  Title :: runes
  Featuring :: "runes list"
  TVersion :: Version

record Candidate =
  C_ID :: string
  C_Artist :: runes
  C_Title :: runes
  C_DurationSec :: int
  C_ISRC :: runes

record Scored =
  Cand :: Candidate
  SScore :: score
  Why :: runes

definition zero_candidate :: Candidate where
  "zero_candidate = \<lparr>C_ID = [], C_Artist = [], C_Title = [], C_DurationSec = 0, C_ISRC = []\<rparr>"

definition zero_version :: Version where
  "zero_version = \<lparr>Kind = VersionUnknown, Remixer = [], Raw = []\<rparr>"

subsection \<open>Similarity of two strings\<close>

definition ratio :: "runes \<Rightarrow> runes \<Rightarrow> score" where
  "ratio a b =
     (if a = [] \<or> b = [] then 0
      else if a = b then 1
      else let d = levenshtein a b; longest = max (length a) (length b)
           in 1 - of_nat d / of_nat longest)"

definition best_of :: "('a \<Rightarrow> 'a \<Rightarrow> score) \<Rightarrow> 'a list \<Rightarrow> 'a \<Rightarrow> score" where
  "best_of sim got w = fold (\<lambda>g best. let r = sim w g in if r > best then r else best) got 0"

definition artistSimilarity :: "runes list \<Rightarrow> runes list \<Rightarrow> score" where
  "artistSimilarity want got =
     (if want = [] \<or> got = [] then 0
      else let total = fold (\<lambda>w total. total + best_of ratio got w) want 0;
               score = total / of_nat (length want)
           in if length got > length want then score * (97 / 100) else score)"

subsection \<open>Version agreement\<close>

record versionVerdict =
  vv_score :: score
  vv_conflict :: bool
  vv_reason :: runes

abbreviation verdict :: "score \<Rightarrow> bool \<Rightarrow> runes \<Rightarrow> versionVerdict" where
  "verdict s c r \<equiv> \<lparr>vv_score = s, vv_conflict = c, vv_reason = r\<rparr>"

definition remixScore :: "Version \<Rightarrow> Version \<Rightarrow> versionVerdict" where
  "remixScore a b =
     (if Remixer a \<noteq> [] \<and> Remixer b \<noteq> [] then
        (let r = ratio (Remixer a) (Remixer b)
         in if r < 8 / 10 then verdict (r * (3 / 10)) True [] else verdict 1 False [])
      else if Remixer a \<noteq> [] \<or> Remixer b \<noteq> [] then
        (let named = (if Remixer a = [] then Remixer b else Remixer a)
         in verdict (55 / 100) True
              (lit ''unconfirmed remix: one side names no remixer, the other names '' @ named))
      else verdict 1 False [])"

definition versionScore :: "Version \<Rightarrow> Version \<Rightarrow> versionVerdict" where
  "versionScore a b =
     (if Kind a = Kind b then
        (if Kind a = VersionRemix then remixScore a b else verdict 1 False [])
      else if Kind a = VersionUnknown \<or> Kind b = VersionUnknown then
        (let other = (if Kind a = VersionUnknown then Kind b else Kind a)
         in if other = VersionOriginal then verdict (85 / 100) False []
            else verdict (55 / 100) False [])
      else if Kind a = VersionRemix \<or> Kind b = VersionRemix then verdict (10 / 100) True []
      else
        (let pair = (\<lambda>x y. (Kind a = x \<and> Kind b = y) \<or> (Kind a = y \<and> Kind b = x))
         in if pair VersionRadio VersionExtended then verdict 0 True []
            else if pair VersionOriginal VersionExtended then verdict (45 / 100) True []
            else if pair VersionOriginal VersionRadio then verdict (35 / 100) True []
            else if pair VersionLive VersionOriginal \<or> pair VersionLive VersionExtended
                 \<or> pair VersionAcoustic VersionOriginal
                 \<or> pair VersionInstrumental VersionOriginal then verdict (15 / 100) True []
            else verdict (3 / 10) True []))"

subsection \<open>The other components, and the total\<close>

definition artistGate :: "score \<Rightarrow> score" where
  "artistGate artistSim =
     (let plausible = 7 / 10
      in if artistSim \<ge> plausible then 1 else 45 / 100 + (artistSim / plausible) * (55 / 100))"

definition absInt :: "int \<Rightarrow> int" where
  "absInt x = (if x < 0 then - x else x)"

definition durationScore :: "int \<Rightarrow> int \<Rightarrow> score" where
  "durationScore a b =
     (let d = absInt (a - b)
      in if d \<le> 3 then 1 else if d \<ge> 60 then 0 else 1 - of_int (d - 3) / 57)"

definition clamp01 :: "score \<Rightarrow> score" where
  "clamp01 f = (if f < 0 then 0 else if f > 1 then 1 else f)"

definition weightTitle :: score where "weightTitle = 40 / 100"
definition weightArtist :: score where "weightArtist = 30 / 100"
definition weightVersion :: score where "weightVersion = 20 / 100"
definition weightDuration :: score where "weightDuration = 10 / 100"
definition hardConflictPenalty :: score where "hardConflictPenalty = 75 / 100"

lemmas weights = weightTitle_def weightArtist_def weightVersion_def weightDuration_def

text \<open>The score before the clamp, then the rationale, then \<open>Score\<close> itself.\<close>

definition raw_score :: "Track \<Rightarrow> int \<Rightarrow> Track \<Rightarrow> int \<Rightarrow> score" where
  "raw_score want wantDur got gotDur =
     (let titleSim = ratio (Title want) (Title got);
          artistSim = artistSimilarity (Artists want) (Artists got);
          version = versionScore (TVersion want) (TVersion got);
          num = weightTitle * titleSim + weightArtist * artistSim + weightVersion * vv_score version;
          den = weightTitle + weightArtist + weightVersion;
          haveDurations = wantDur > 0 \<and> gotDur > 0;
          num = (if haveDurations then num + weightDuration * durationScore wantDur gotDur else num);
          den = (if haveDurations then den + weightDuration else den);
          score = (num / den) * artistGate artistSim
      in if vv_conflict version then score * hardConflictPenalty else score)"

definition why_parts :: "Track \<Rightarrow> int \<Rightarrow> Track \<Rightarrow> int \<Rightarrow> runes list" where
  "why_parts want wantDur got gotDur =
     (let titleSim = ratio (Title want) (Title got);
          artistSim = artistSimilarity (Artists want) (Artists got);
          version = versionScore (TVersion want) (TVersion got);
          haveDurations = wantDur > 0 \<and> gotDur > 0
      in (if vv_conflict version then
            [if vv_reason version = [] then
               lit ''version conflict: '' @ kind_string (Kind (TVersion want)) @ lit '' vs ''
               @ kind_string (Kind (TVersion got))
             else vv_reason version] else [])
         @ (if haveDurations \<and> absInt (wantDur - gotDur) > 30 then
              [lit ''runtime differs by '' @ itoa (absInt (wantDur - gotDur)) @ lit ''s''] else [])
         @ (if artistSim < 7 / 10 then [lit ''artist mismatch''] else [])
         @ (if titleSim < 7 / 10 then [lit ''title mismatch''] else []))"

definition Score :: "Track \<Rightarrow> int \<Rightarrow> Track \<Rightarrow> int \<Rightarrow> Scored" where
  "Score want wantDur got gotDur =
     (let why = why_parts want wantDur got gotDur;
          why = (if why = [] then [lit ''clean match''] else why)
      in \<lparr>Cand = zero_candidate, SScore = clamp01 (raw_score want wantDur got gotDur),
          Why = join (lit ''; '') why\<rparr>)"

subsection \<open>Similarity measures\<close>

text \<open>
  What the artist comparison needs of the string similarity. \<open>valid\<close> marks the strings
  that are evidence of anything: two empty strings are not a match.
\<close>

locale similarity =
  fixes sim :: "'a \<Rightarrow> 'a \<Rightarrow> score" and valid :: "'a \<Rightarrow> bool"
  assumes sim_ge_0: "0 \<le> sim a b"
    and sim_le_1: "sim a b \<le> 1"
    and sim_eq_1: "sim a b = 1 \<longleftrightarrow> valid a \<and> a = b"
    and sim_commute: "sim a b = sim b a"
begin

lemma best_of_Max: "best_of sim got w = Max (insert 0 (sim w ` set got))"
proof -
  have "(\<lambda>g best. let r = sim w g in if r > best then r else best) = max \<circ> sim w"
    by (auto simp: fun_eq_iff Let_def max_def)
  then have "best_of sim got w = fold max (map (sim w) got) 0"
    by (simp add: best_of_def fold_map)
  also have "\<dots> = Max (set (0 # map (sim w) got))" by (simp only: Max.set_eq_fold)
  finally show ?thesis by simp
qed

lemma best_of_range: "0 \<le> best_of sim got w" "best_of sim got w \<le> 1"
  using sim_le_1 by (auto simp: best_of_Max)

lemma best_of_eq_1: "best_of sim got w = 1 \<longleftrightarrow> valid w \<and> w \<in> set got"
proof -
  have "best_of sim got w = 1 \<longleftrightarrow> 1 \<in> sim w ` set got"
    using sim_le_1 by (auto simp: best_of_Max Max_eq_iff)
  then show ?thesis by (metis sim_eq_1 image_iff)
qed

lemma best_of_set: "set got = set got' \<Longrightarrow> best_of sim got w = best_of sim got' w"
  by (simp add: best_of_Max)

end

lemma ratio_range: "0 \<le> ratio a b" "ratio a b \<le> 1"
proof -
  have "(of_nat (levenshtein a b) :: score) \<le> of_nat (max (length a) (length b))"
    using levenshtein_le by (rule of_nat_mono)
  then show "0 \<le> ratio a b" "ratio a b \<le> 1"
    by (auto simp: ratio_def Let_def divide_le_eq max_def)
qed

lemma ratio_eq_1: "ratio a b = 1 \<longleftrightarrow> a \<noteq> [] \<and> a = b"
  using levenshtein_0_iff [of a b] by (auto simp: ratio_def Let_def max_def)

lemma ratio_commute: "ratio a b = ratio b a"
  by (auto simp: ratio_def levenshtein_sym [of a b] max.commute)

interpretation ratio_sim: similarity ratio "\<lambda>a. a \<noteq> []"
  by unfold_locales (use ratio_range ratio_eq_1 ratio_commute in auto)

subsection \<open>Artists\<close>

lemma artist_total:
  "fold (\<lambda>w total. total + f w) want (t :: score) = t + (\<Sum>w\<leftarrow>want. f w)"
  by (induction want arbitrary: t) (auto simp: add_ac)

lemma artistSimilarity_eq:
  "artistSimilarity want got =
     (if want = [] \<or> got = [] then 0
      else (\<Sum>w\<leftarrow>want. best_of ratio got w) / of_nat (length want)
           * (if length got > length want then 97 / 100 else 1))"
  by (simp add: artistSimilarity_def artist_total Let_def)

lemma sum_list_unit:
  fixes f :: "'a \<Rightarrow> score"
  assumes "\<And>w. w \<in> set ws \<Longrightarrow> 0 \<le> f w \<and> f w \<le> 1"
  shows "0 \<le> sum_list (map f ws)" and "sum_list (map f ws) \<le> of_nat (length ws)"
    and "sum_list (map f ws) = of_nat (length ws) \<longleftrightarrow> (\<forall>w\<in>set ws. f w = 1)"
proof -
  have "0 \<le> sum_list (map f ws) \<and> sum_list (map f ws) \<le> of_nat (length ws) \<and>
    (sum_list (map f ws) = of_nat (length ws) \<longleftrightarrow> (\<forall>w\<in>set ws. f w = 1))"
    using assms
  proof (induction ws)
    case (Cons w ws)
    let ?S = "sum_list (map f ws)"
    from Cons.prems have "0 \<le> f w" "f w \<le> 1" by auto
    moreover from Cons have "0 \<le> ?S" "?S \<le> of_nat (length ws)"
      "?S = of_nat (length ws) \<longleftrightarrow> (\<forall>w\<in>set ws. f w = 1)" by auto
    moreover from calculation have "f w + ?S = 1 + of_nat (length ws) \<longleftrightarrow> f w = 1 \<and> ?S = of_nat (length ws)"
      by linarith
    ultimately show ?case by simp
  qed simp
  then show "0 \<le> sum_list (map f ws)" and "sum_list (map f ws) \<le> of_nat (length ws)"
    and "sum_list (map f ws) = of_nat (length ws) \<longleftrightarrow> (\<forall>w\<in>set ws. f w = 1)" by auto
qed

lemma best_sum_range:
  "0 \<le> (\<Sum>w\<leftarrow>want. best_of ratio got w)"
  "(\<Sum>w\<leftarrow>want. best_of ratio got w) \<le> of_nat (length want)"
  using sum_list_unit [of want "best_of ratio got"] ratio_sim.best_of_range by auto

lemma artistSimilarity_range: "0 \<le> artistSimilarity want got" "artistSimilarity want got \<le> 1"
proof -
  have "(\<Sum>w\<leftarrow>want. best_of ratio got w) / of_nat (length want) \<le> 1" if "want \<noteq> []"
    using that best_sum_range [of got want] by (simp add: divide_le_eq)
  moreover have "0 \<le> (\<Sum>w\<leftarrow>want. best_of ratio got w) / of_nat (length want)"
    using best_sum_range by simp
  ultimately show "0 \<le> artistSimilarity want got" "artistSimilarity want got \<le> 1"
    by (auto simp: artistSimilarity_eq)
qed

text \<open>
  \<open>artistSimilarity\<close> is 1 exactly when every wanted artist is a non-empty name that is
  credited on the candidate, and the candidate credits no more artists than were wanted. The
  order of the credits does not matter, and an empty artist list is never a match.
\<close>

theorem artistSimilarity_full:
  "artistSimilarity want got = 1 \<longleftrightarrow>
     want \<noteq> [] \<and> length got \<le> length want \<and> (\<forall>w\<in>set want. w \<noteq> [] \<and> w \<in> set got)"
proof (cases "want = [] \<or> got = []")
  case True
  then show ?thesis by (cases want) (auto simp: artistSimilarity_def)
next
  case False
  let ?S = "\<Sum>w\<leftarrow>want. best_of ratio got w" and ?n = "of_nat (length want) :: score"
  have n: "0 < ?n" using False by simp
  have le: "?S / ?n \<le> 1" using n best_sum_range(2) [of got want] by (simp add: divide_le_eq)
  have "?S = ?n \<longleftrightarrow> (\<forall>w\<in>set want. w \<noteq> [] \<and> w \<in> set got)"
    using sum_list_unit(3) [of want "best_of ratio got"] ratio_sim.best_of_range
    by (simp add: ratio_sim.best_of_eq_1)
  moreover have "?S / ?n = 1 \<longleftrightarrow> ?S = ?n" using n by auto
  moreover have "q \<le> 1 \<Longrightarrow> q * (97 / 100) \<noteq> 1" for q :: score by linarith
  note this [OF le]
  ultimately show ?thesis using False by (auto simp: artistSimilarity_eq)
qed

theorem artistSimilarity_full_witness:
  "artistSimilarity [lit ''a'', lit ''b''] [lit ''b'', lit ''a''] = 1"
  by (rule artistSimilarity_full [THEN iffD2]) simp

subsection \<open>Versions\<close>

lemma remixScore_facts:
  shows "0 \<le> vv_score (remixScore a b) \<and> vv_score (remixScore a b) \<le> 1"
    and "vv_conflict (remixScore a b) \<Longrightarrow> vv_score (remixScore a b) \<le> 55 / 100"
    and "remixScore a b = remixScore b a"
  using ratio_range [of "Remixer a" "Remixer b"] ratio_commute [of "Remixer a" "Remixer b"]
  by (auto simp: remixScore_def Let_def split: if_splits)

lemma versionScore_range [unit_range]:
  "0 \<le> vv_score (versionScore a b)" "vv_score (versionScore a b) \<le> 1"
  using remixScore_facts(1) [of a b] by (simp_all add: versionScore_def Let_def)

lemma versionScore_conflict_le: "vv_conflict (versionScore a b) \<Longrightarrow> vv_score (versionScore a b) \<le> 55 / 100"
  using remixScore_facts(2) [of a b]
  by (cases "Kind a"; cases "Kind b"; simp add: versionScore_def)

lemma versionScore_commute: "versionScore a b = versionScore b a"
  using remixScore_facts(3) [of a b]
  by (cases "Kind a"; cases "Kind b"; simp add: versionScore_def)

lemma versionScore_same: "versionScore v v = verdict 1 False []"
  using ratio_eq_1 [of "Remixer v" "Remixer v"]
  by (auto simp: versionScore_def remixScore_def Let_def)

text \<open>When two remixes are two recordings: both name a remixer and the names are not close, or
  exactly one names a remixer.\<close>

definition remix_clash :: "Version \<Rightarrow> Version \<Rightarrow> bool" where
  "remix_clash a b \<longleftrightarrow>
     (Remixer a \<noteq> [] \<and> Remixer b \<noteq> [] \<and> ratio (Remixer a) (Remixer b) < 8 / 10)
     \<or> (Remixer a \<noteq> []) \<noteq> (Remixer b \<noteq> [])"

text \<open>
  \<open>versionScore\<close> does not depend on which side is wanted, and it reports a conflict for
  exactly these pairs: two known kinds that differ, or two remixes whose remixers clash. An
  unknown version on either side is never a conflict.
\<close>

theorem versionScore_conflict_iff:
  "versionScore a b = versionScore b a \<and>
   (vv_conflict (versionScore a b) \<longleftrightarrow>
      (if Kind a = Kind b then Kind a = VersionRemix \<and> remix_clash a b
       else Kind a \<noteq> VersionUnknown \<and> Kind b \<noteq> VersionUnknown))"
proof
  show "versionScore a b = versionScore b a" by (rule versionScore_commute)
  show "vv_conflict (versionScore a b) \<longleftrightarrow>
      (if Kind a = Kind b then Kind a = VersionRemix \<and> remix_clash a b
       else Kind a \<noteq> VersionUnknown \<and> Kind b \<noteq> VersionUnknown)"
    by (auto simp: versionScore_def remixScore_def remix_clash_def Let_def)
qed

subsection \<open>The total score\<close>

lemma durationScore_range: "0 \<le> durationScore a b" "durationScore a b \<le> 1"
proof -
  define d where "d = absInt (a - b)"
  have "0 \<le> 1 - (of_int (d - 3) :: score) / 57" if "d < 60"
  proof -
    from that have "d - 3 \<le> 57" by simp
    then have "(of_int (d - 3) :: score) \<le> of_int 57" by (rule of_int_le_iff [THEN iffD2])
    then show ?thesis by (simp add: divide_le_eq)
  qed
  then show "0 \<le> durationScore a b" "durationScore a b \<le> 1"
    by (auto simp: durationScore_def Let_def d_def [symmetric])
qed

lemma artistGate_range: "0 \<le> s \<Longrightarrow> 0 \<le> artistGate s" "artistGate s \<le> 1"
  by (auto simp: artistGate_def Let_def)

definition mean_score :: "Track \<Rightarrow> int \<Rightarrow> Track \<Rightarrow> int \<Rightarrow> score" where
  "mean_score want wantDur got gotDur =
     (let t = ratio (Title want) (Title got); a = artistSimilarity (Artists want) (Artists got);
          v = vv_score (versionScore (TVersion want) (TVersion got))
      in if wantDur > 0 \<and> gotDur > 0 then (4 * t + 3 * a + 2 * v + durationScore wantDur gotDur) / 10
         else (4 * t + 3 * a + 2 * v) / 9)"

lemma raw_score_mean:
  "raw_score want wantDur got gotDur =
     mean_score want wantDur got gotDur * artistGate (artistSimilarity (Artists want) (Artists got))
     * (if vv_conflict (versionScore (TVersion want) (TVersion got)) then 3 / 4 else 1)"
  by (simp add: raw_score_def mean_score_def weights hardConflictPenalty_def Let_def)

lemma mean_score_range:
  "0 \<le> mean_score want wantDur got gotDur" "mean_score want wantDur got gotDur \<le> 1"
  using ratio_range [of "Title want" "Title got"] durationScore_range [of wantDur gotDur]
    artistSimilarity_range [of "Artists want" "Artists got"]
    versionScore_range [of "TVersion want" "TVersion got"]
  by (simp_all add: mean_score_def Let_def)

lemma gated_le: "raw_score want wantDur got gotDur \<le> mean_score want wantDur got gotDur"
proof -
  let ?m = "mean_score want wantDur got gotDur"
  let ?g = "artistGate (artistSimilarity (Artists want) (Artists got))"
  have "?m * ?g \<le> ?m" using mean_score_range artistGate_range(2) by (simp add: mult_left_le)
  moreover have "0 \<le> ?m * ?g"
    using mean_score_range artistGate_range(1) artistSimilarity_range by simp
  ultimately show ?thesis by (simp add: raw_score_mean)
qed

lemma raw_score_range: "0 \<le> raw_score want wantDur got gotDur" "raw_score want wantDur got gotDur \<le> 1"
proof -
  show "0 \<le> raw_score want wantDur got gotDur"
    using mean_score_range artistGate_range(1) artistSimilarity_range by (simp add: raw_score_mean)
  show "raw_score want wantDur got gotDur \<le> 1"
    using gated_le [of want wantDur got gotDur] mean_score_range(2) [of want wantDur got gotDur]
    by (rule order_trans)
qed

lemma SScore_raw: "SScore (Score want wantDur got gotDur) = raw_score want wantDur got gotDur"
  using raw_score_range [of want wantDur got gotDur] by (simp add: Score_def clamp01_def Let_def)

text \<open>
  Every score lies between 0 and 1, and it does so before the clamp: \<open>clamp01\<close> at the end
  of \<open>Score\<close> never changes a value, so no score is distorted by it.
\<close>

theorem Score_range:
  "0 \<le> SScore (Score want wantDur got gotDur) \<and> SScore (Score want wantDur got gotDur) \<le> 1 \<and>
   SScore (Score want wantDur got gotDur) = raw_score want wantDur got gotDur"
  using raw_score_range by (simp add: SScore_raw)

text \<open>
  C24: two recordings whose versions conflict (a radio edit and an extended mix, an original and
  a remix, remixes by two people) score at most 0.6825, whatever their titles, artists and
  runtimes: well below the default auto-add threshold 0.85.
\<close>

theorem conflict_never_auto:
  assumes "vv_conflict (versionScore (TVersion want) (TVersion got))"
  shows "SScore (Score want wantDur got gotDur) \<le> 6825 / 10000 \<and>
         SScore (Score want wantDur got gotDur) < 85 / 100"
proof -
  let ?m = "mean_score want wantDur got gotDur"
  let ?g = "artistGate (artistSimilarity (Artists want) (Artists got))"
  have "?m \<le> 91 / 100"
    using versionScore_conflict_le [OF assms] ratio_range [of "Title want" "Title got"]
      durationScore_range [of wantDur gotDur] artistSimilarity_range [of "Artists want" "Artists got"]
    by (simp add: mean_score_def Let_def)
  moreover have "?m * ?g \<le> ?m" using mean_score_range artistGate_range(2) by (simp add: mult_left_le)
  ultimately show ?thesis using assms by (simp add: SScore_raw raw_score_mean)
qed

definition wants :: "runes \<Rightarrow> VersionKind \<Rightarrow> Track" where
  "wants title k = \<lparr>Artists = [lit ''deadmau5''], Title = title, Featuring = [],
     TVersion = zero_version\<lparr>Kind := k\<rparr>\<rparr>"

theorem conflict_never_auto_witness:
  "SScore (Score (wants (lit ''strobe'') VersionRadio) 200 (wants (lit ''strobe'') VersionExtended) 600)
     < 85 / 100"
  using conflict_never_auto [of "wants (lit ''strobe'') VersionRadio" "wants (lit ''strobe'') VersionExtended"]
  by (simp add: wants_def versionScore_def zero_version_def)

text \<open>
  A wrong artist keeps a candidate out of the automatic bucket. If the artist similarity is
  at most 0.6 the score stays below 0.85 even when title, version and runtime agree exactly;
  and if the title similarity is 0 (one of the titles normalized to nothing) the score is at
  most 0.6.
\<close>

theorem mismatch_never_auto:
  "(artistSimilarity (Artists want) (Artists got) \<le> 6 / 10 \<longrightarrow>
      SScore (Score want wantDur got gotDur) < 85 / 100) \<and>
   (Title want = [] \<or> Title got = [] \<longrightarrow> SScore (Score want wantDur got gotDur) \<le> 6 / 10)"
proof (intro conjI impI)
  let ?m = "mean_score want wantDur got gotDur" and ?a = "artistSimilarity (Artists want) (Artists got)"
  note ranges = ratio_range [of "Title want" "Title got"] durationScore_range [of wantDur gotDur]
    artistSimilarity_range [of "Artists want" "Artists got"]
    versionScore_range [of "TVersion want" "TVersion got"]
  show "SScore (Score want wantDur got gotDur) < 85 / 100" if a: "?a \<le> 6 / 10"
  proof -
    have "?m \<le> 88 / 100" using a ranges by (simp add: mean_score_def Let_def)
    moreover have "artistGate ?a \<le> 93 / 100" using a by (simp add: artistGate_def Let_def)
    moreover have "0 \<le> artistGate ?a" using artistGate_range ranges by simp
    ultimately have "?m * artistGate ?a \<le> 88 / 100 * (93 / 100)"
      using mean_score_range(1) by (intro mult_mono) auto
    moreover have "0 \<le> ?m * artistGate ?a"
      using mean_score_range(1) artistGate_range ranges by simp
    ultimately show ?thesis by (simp add: SScore_raw raw_score_mean)
  qed
  show "SScore (Score want wantDur got gotDur) \<le> 6 / 10" if "Title want = [] \<or> Title got = []"
  proof -
    have "ratio (Title want) (Title got) = 0" using that by (auto simp: ratio_def)
    then have "?m \<le> 6 / 10" using ranges by (simp add: mean_score_def Let_def)
    with gated_le show ?thesis unfolding SScore_raw by (rule order_trans)
  qed
qed

theorem mismatch_never_auto_witness:
  "artistSimilarity [lit ''abba''] [lit ''deadmau5''] \<le> 6 / 10 \<and>
   SScore (Score ((wants (lit ''strobe'') VersionOriginal)\<lparr>Artists := [lit ''abba'']\<rparr>) 300
                 (wants (lit ''strobe'') VersionOriginal) 300) < 85 / 100"
proof -
  have "levenshtein (lit ''abba'') (lit ''deadmau5'') \<ge> 4"
  proof -
    have "script xs ys n \<Longrightarrow> length ys \<le> length xs + n" for xs ys :: runes and n
      using script_nil_length by blast
    from this [OF script_edist, of "lit ''abba''" "lit ''deadmau5''"] show ?thesis
      by (simp add: levenshtein_edist)
  qed
  then have "(4 :: score) \<le> of_nat (levenshtein (lit ''abba'') (lit ''deadmau5''))"
    using of_nat_mono by fastforce
  then have "ratio (lit ''abba'') (lit ''deadmau5'') \<le> 1 / 2"
    by (simp add: ratio_def)
  then have "artistSimilarity [lit ''abba''] [lit ''deadmau5''] \<le> 6 / 10"
    by (simp add: artistSimilarity_def best_of_def Let_def)
  then show ?thesis
    using mismatch_never_auto [of "(wants (lit ''strobe'') VersionOriginal)\<lparr>Artists := [lit ''abba'']\<rparr>"
        "wants (lit ''strobe'') VersionOriginal" 300 300]
    by (simp add: wants_def)
qed

text \<open>
  A candidate with the wanted title, artists and version, and a runtime within three seconds
  or unknown, scores exactly 1 with the rationale "clean match", provided title and artist names
  are not empty.
\<close>

theorem exact_match_scores_one:
  assumes "Title want \<noteq> []" and "Artists want \<noteq> []" and "[] \<notin> set (Artists want)"
    and "Title got = Title want" and "TVersion got = TVersion want"
    and "set (Artists got) = set (Artists want)" and "length (Artists got) \<le> length (Artists want)"
    and "wantDur \<le> 0 \<or> gotDur \<le> 0 \<or> \<bar>wantDur - gotDur\<bar> \<le> 3"
  shows "SScore (Score want wantDur got gotDur) = 1 \<and> Why (Score want wantDur got gotDur) = lit ''clean match''"
proof -
  have t: "ratio (Title want) (Title got) = 1" using assms by (simp add: ratio_eq_1)
  have a: "artistSimilarity (Artists want) (Artists got) = 1"
    unfolding artistSimilarity_full using assms by auto
  have v: "versionScore (TVersion want) (TVersion got) = verdict 1 False []"
    using assms by (simp add: versionScore_same)
  have d: "wantDur > 0 \<and> gotDur > 0 \<Longrightarrow> durationScore wantDur gotDur = 1 \<and> \<not> absInt (wantDur - gotDur) > 30"
    using assms(8) by (auto simp: durationScore_def absInt_def Let_def)
  have "why_parts want wantDur got gotDur = []"
    using t a v d by (auto simp: why_parts_def Let_def)
  moreover have "raw_score want wantDur got gotDur = 1"
    using t a v d by (simp add: raw_score_mean mean_score_def artistGate_def Let_def)
  ultimately show ?thesis by (simp add: Score_def clamp01_def Let_def)
qed

theorem exact_match_scores_one_witness:
  "SScore (Score (wants (lit ''strobe'') VersionOriginal) 300 (wants (lit ''strobe'') VersionOriginal) 302) = 1"
  using exact_match_scores_one [of "wants (lit ''strobe'') VersionOriginal" "wants (lit ''strobe'') VersionOriginal" 300 302]
  by (simp add: wants_def)

end
