(* ===== verification/Store.thy ===== *)
theory Store
  imports GoError Score
begin

text \<open>
  The persistence layer, \<open>internal/store/sqlite\<close>: the four tables of
  \<open>migrations-sqlite\<close>, one definition per generated query (\<open>gen/*.sql.go\<close>, whose text is
  that of \<open>queries/*.sql\<close>), and the methods of \<open>Store\<close> (\<open>ops.go\<close>, \<open>store.go\<close>) on top of
  them.

  A table is the list of its rows in insertion order; \<open>AUTOINCREMENT\<close> is a counter that never
  goes back. A generated query is a function from the database to a result and a database, with
  the constraints of the schema (\<open>UNIQUE\<close>, \<open>CHECK\<close>, foreign keys) as errors. A method runs
  its query through \<open>query\<close>, which may fail instead (a canceled context, a disk error): the
  environment \<open>env\<close> says what happens at the n-th step and what the clock shows then. A
  transaction (\<open>InTx\<close>) restores the tables when its body or its commit fails.

  Timestamps are text, as in the tables. The review queue's \<open>candidates_json\<close> is the list it
  decodes to, \<open>None\<close> when it does not decode. SQL leaves the order of rows that agree on all
  \<open>ORDER BY\<close> columns open; the model takes the insertion order.
\<close>

subsection \<open>Tables\<close>

record account_row =
  ar_id :: int
  ar_label :: string
  ar_member :: string
  ar_playlist :: string
  ar_token :: string
  ar_watermark :: string
  ar_created :: string

record synced_row =
  sr_id :: int
  sr_account :: int
  sr_track :: int
  sr_vote :: int
  sr_spotify :: string
  sr_playlist :: string
  sr_artist :: runes
  sr_title :: runes
  sr_score :: score
  sr_liked :: string
  sr_added :: string

record review_row =
  rr_id :: int
  rr_account :: int
  rr_track :: int
  rr_vote :: int
  rr_artist :: runes
  rr_title :: runes
  rr_duration :: int
  rr_details :: string
  rr_candidates :: "Scored list option"
  rr_best :: score
  rr_reason :: string
  rr_status :: string
  rr_liked :: string
  rr_created :: string
  rr_resolved :: "string option"

record run_row =
  ru_id :: int
  ru_account :: int
  ru_started :: string
  ru_finished :: "string option"
  ru_dry :: int
  ru_fetched :: int
  ru_added :: int
  ru_queued :: int
  ru_skipped :: int
  ru_error :: runes
  ru_kind :: string

record db =
  accounts :: "account_row list"
  synced_tracks :: "synced_row list"
  review_queue :: "review_row list"
  sync_runs :: "run_row list"
  next_account :: int
  next_synced :: int
  next_review :: int
  next_run :: int

definition empty_db :: db where
  "empty_db = \<lparr>accounts = [], synced_tracks = [], review_queue = [], sync_runs = [],
               next_account = 1, next_synced = 1, next_review = 1, next_run = 1\<rparr>"

type_synonym 'a sql = "db \<Rightarrow> (gerr + 'a) \<times> db"

definition account_exists :: "int \<Rightarrow> db \<Rightarrow> bool" where
  "account_exists i d \<longleftrightarrow> (\<exists>a\<in>set (accounts d). ar_id a = i)"

definition fk_error :: gerr where
  "fk_error = Msg (lit ''constraint failed: FOREIGN KEY constraint failed (787)'')"

definition check_error :: gerr where
  "check_error = Msg (lit ''constraint failed: CHECK constraint failed (275)'')"

subsection \<open>accounts.sql\<close>

definition getAccountByLabel :: "string \<Rightarrow> account_row sql" where
  "getAccountByLabel label d =
     (case List.find (\<lambda>a. ar_label a = label) (accounts d) of
        None \<Rightarrow> (Inl (Sentinel SqlErrNoRows), d)
      | Some a \<Rightarrow> (Inr a, d))"

definition upsertAccount :: "gotime \<Rightarrow> string \<Rightarrow> string \<Rightarrow> string \<Rightarrow> account_row sql" where
  "upsertAccount now label member playlist d =
     (let upd = (\<lambda>a. a\<lparr>ar_member := member, ar_playlist := playlist\<rparr>)
      in case List.find (\<lambda>a. ar_label a = label) (accounts d) of
           Some a \<Rightarrow>
             (Inr (upd a), d\<lparr>accounts := update_where (\<lambda>a. ar_label a = label) upd (accounts d)\<rparr>)
         | None \<Rightarrow>
             (let a = \<lparr>ar_id = next_account d, ar_label = label, ar_member = member,
                       ar_playlist = playlist, ar_token = [], ar_watermark = [],
                       ar_created = format_time now\<rparr>
              in (Inr a, d\<lparr>accounts := accounts d @ [a], next_account := next_account d + 1\<rparr>)))"

definition setSpotifyRefreshToken :: "string \<Rightarrow> int \<Rightarrow> unit sql" where
  "setSpotifyRefreshToken token i d =
     (Inr (), d\<lparr>accounts := update_where (\<lambda>a. ar_id a = i) (\<lambda>a. a\<lparr>ar_token := token\<rparr>) (accounts d)\<rparr>)"

definition clearSpotifyRefreshTokenIf :: "int \<Rightarrow> string \<Rightarrow> int sql" where
  "clearSpotifyRefreshTokenIf i rejected d =
     (let p = (\<lambda>a. ar_id a = i \<and> ar_token a = rejected)
      in (Inr (count_where p (accounts d)),
          d\<lparr>accounts := update_where p (\<lambda>a. a\<lparr>ar_token := []\<rparr>) (accounts d)\<rparr>))"

definition countSpotifyRefreshToken :: "int \<Rightarrow> int sql" where
  "countSpotifyRefreshToken i d =
     (Inr (count_where (\<lambda>a. ar_token a \<noteq> [] \<and> ar_id a = i) (accounts d)), d)"

definition setWatermark :: "string \<Rightarrow> int \<Rightarrow> unit sql" where
  "setWatermark mark i d =
     (Inr (), d\<lparr>accounts := update_where (\<lambda>a. ar_id a = i) (\<lambda>a. a\<lparr>ar_watermark := mark\<rparr>) (accounts d)\<rparr>)"

definition clearWatermark :: "int \<Rightarrow> unit sql" where
  "clearWatermark i d =
     (Inr (), d\<lparr>accounts := update_where (\<lambda>a. ar_id a = i) (\<lambda>a. a\<lparr>ar_watermark := []\<rparr>) (accounts d)\<rparr>)"

subsection \<open>synced_tracks.sql\<close>

definition same_synced :: "int \<Rightarrow> int \<Rightarrow> string \<Rightarrow> synced_row \<Rightarrow> bool" where
  "same_synced acct track playlist r \<longleftrightarrow>
     sr_account r = acct \<and> sr_track r = track \<and> sr_playlist r = playlist"

text \<open>The parameters are the row without the columns the database fills in.\<close>

definition recordSyncedTrack :: "gotime \<Rightarrow> synced_row \<Rightarrow> unit sql" where
  "recordSyncedTrack now p d =
     (if \<exists>r\<in>set (synced_tracks d). same_synced (sr_account p) (sr_track p) (sr_playlist p) r then (Inr (), d)
      else if \<not> account_exists (sr_account p) d then (Inl fk_error, d)
      else (Inr (), d\<lparr>synced_tracks := synced_tracks d @ [p\<lparr>sr_id := next_synced d, sr_added := format_time now\<rparr>],
                      next_synced := next_synced d + 1\<rparr>))"

definition isTrackSynced :: "int \<Rightarrow> int \<Rightarrow> string \<Rightarrow> int sql" where
  "isTrackSynced acct track playlist d =
     (Inr (if \<exists>r\<in>set (synced_tracks d). same_synced acct track playlist r then 1 else 0), d)"

definition countSyncedTracks :: "int \<Rightarrow> int sql" where
  "countSyncedTracks acct d = (Inr (count_where (\<lambda>r. sr_account r = acct) (synced_tracks d)), d)"

definition forgetSyncedTrack :: "int \<Rightarrow> int \<Rightarrow> int sql" where
  "forgetSyncedTrack acct track d =
     (let p = (\<lambda>r. sr_account r = acct \<and> sr_track r = track)
      in (Inr (count_where p (synced_tracks d)), d\<lparr>synced_tracks := delete_where p (synced_tracks d)\<rparr>))"

definition forgetAllSyncedTracks :: "int \<Rightarrow> unit sql" where
  "forgetAllSyncedTracks acct d =
     (Inr (), d\<lparr>synced_tracks := delete_where (\<lambda>r. sr_account r = acct) (synced_tracks d)\<rparr>)"

definition getSyncedTrackLikedAt :: "int \<Rightarrow> int \<Rightarrow> string sql" where
  "getSyncedTrackLikedAt acct track d =
     (case sort (map sr_liked (filter (\<lambda>r. sr_account r = acct \<and> sr_track r = track) (synced_tracks d))) of
        [] \<Rightarrow> (Inl (Sentinel SqlErrNoRows), d)
      | liked # _ \<Rightarrow> (Inr liked, d))"

subsection \<open>review_queue.sql\<close>

definition reasons :: "string list" where
  "reasons = [''low_confidence'', ''no_match'', ''skipped'']"

definition statuses :: "string list" where
  "statuses = [''pending'', ''approved'', ''rejected'']"

definition same_review :: "int \<Rightarrow> int \<Rightarrow> review_row \<Rightarrow> bool" where
  "same_review acct track r \<longleftrightarrow> rr_account r = acct \<and> rr_track r = track"

definition refresh_review :: "review_row \<Rightarrow> review_row \<Rightarrow> review_row" where
  "refresh_review p r =
     r\<lparr>rr_vote := rr_vote p, rr_artist := rr_artist p, rr_title := rr_title p,
       rr_duration := rr_duration p, rr_details := rr_details p, rr_candidates := rr_candidates p,
       rr_best := rr_best p, rr_reason := rr_reason p, rr_liked := rr_liked p\<rparr>"

definition enqueueReview :: "gotime \<Rightarrow> review_row \<Rightarrow> unit sql" where
  "enqueueReview now p d =
     (if rr_reason p \<notin> set reasons then (Inl check_error, d)
      else if \<exists>r\<in>set (review_queue d). same_review (rr_account p) (rr_track p) r then
        (Inr (), d\<lparr>review_queue :=
           update_where (same_review (rr_account p) (rr_track p)) (refresh_review p) (review_queue d)\<rparr>)
      else if \<not> account_exists (rr_account p) d then (Inl fk_error, d)
      else (Inr (), d\<lparr>review_queue := review_queue d @
              [p\<lparr>rr_id := next_review d, rr_status := ''pending'', rr_created := format_time now,
                 rr_resolved := None\<rparr>],
            next_review := next_review d + 1\<rparr>))"

definition listReviewQueue :: "int \<Rightarrow> string \<Rightarrow> int \<Rightarrow> review_row list sql" where
  "listReviewQueue acct status n d =
     (Inr (limit n (sort_key (\<lambda>r. (Desc (rr_best r), Desc (rr_created r)))
             (filter (\<lambda>r. rr_account r = acct \<and> rr_status r = status) (review_queue d)))), d)"

definition resolveReview :: "gotime \<Rightarrow> string \<Rightarrow> int \<Rightarrow> int \<Rightarrow> int sql" where
  "resolveReview now status acct track d =
     (let p = same_review acct track; n = count_where p (review_queue d)
      in if n > 0 \<and> status \<notin> set statuses then (Inl check_error, d)
         else (Inr n, d\<lparr>review_queue :=
                 update_where p (\<lambda>r. r\<lparr>rr_status := status, rr_resolved := Some (format_time now)\<rparr>) (review_queue d)\<rparr>))"

definition getReviewItem :: "int \<Rightarrow> int \<Rightarrow> review_row sql" where
  "getReviewItem acct track d =
     (case List.find (same_review acct track) (review_queue d) of
        None \<Rightarrow> (Inl (Sentinel SqlErrNoRows), d)
      | Some r \<Rightarrow> (Inr r, d))"

definition countReviewQueue :: "int \<Rightarrow> string \<Rightarrow> int sql" where
  "countReviewQueue acct status d =
     (Inr (count_where (\<lambda>r. rr_account r = acct \<and> rr_status r = status) (review_queue d)), d)"

definition countReviewQueueActionable :: "int \<Rightarrow> int sql" where
  "countReviewQueueActionable acct d =
     (Inr (count_where (\<lambda>r. rr_account r = acct \<and> rr_status r = ''pending'' \<and> rr_reason r \<noteq> ''skipped'')
             (review_queue d)), d)"

subsection \<open>sync_runs.sql\<close>

definition startSyncRun :: "int \<Rightarrow> string \<Rightarrow> int \<Rightarrow> run_row sql" where
  "startSyncRun acct started dry d =
     (if \<not> account_exists acct d then (Inl fk_error, d)
      else let r = \<lparr>ru_id = next_run d, ru_account = acct, ru_started = started, ru_finished = None,
                    ru_dry = dry, ru_fetched = 0, ru_added = 0, ru_queued = 0, ru_skipped = 0,
                    ru_error = [], ru_kind = []\<rparr>
           in (Inr r, d\<lparr>sync_runs := sync_runs d @ [r], next_run := next_run d + 1\<rparr>))"

definition finishSyncRun ::
  "string \<Rightarrow> int \<Rightarrow> int \<Rightarrow> int \<Rightarrow> int \<Rightarrow> runes \<Rightarrow> string \<Rightarrow> int \<Rightarrow> unit sql" where
  "finishSyncRun finished fetched added queued skipped err kind i d =
     (Inr (), d\<lparr>sync_runs := update_where (\<lambda>r. ru_id r = i)
        (\<lambda>r. r\<lparr>ru_finished := Some finished, ru_fetched := fetched, ru_added := added,
               ru_queued := queued, ru_skipped := skipped, ru_error := err, ru_kind := kind\<rparr>)
        (sync_runs d)\<rparr>)"

definition newest_runs :: "int \<Rightarrow> db \<Rightarrow> run_row list" where
  "newest_runs acct d =
     sort_key (\<lambda>r. (Desc (ru_started r), Desc (ru_id r))) (filter (\<lambda>r. ru_account r = acct) (sync_runs d))"

definition listSyncRuns :: "int \<Rightarrow> int \<Rightarrow> run_row list sql" where
  "listSyncRuns acct n d = (Inr (limit n (newest_runs acct d)), d)"

definition prunable :: "int \<Rightarrow> string \<Rightarrow> int \<Rightarrow> db \<Rightarrow> run_row \<Rightarrow> bool" where
  "prunable acct cutoff keep d r \<longleftrightarrow>
     ru_account r = acct \<and> ru_finished r \<noteq> None \<and> ru_started r < cutoff \<and>
     ru_id r \<notin> set (map ru_id (limit keep (newest_runs acct d)))"

definition pruneSyncRuns :: "int \<Rightarrow> string \<Rightarrow> int \<Rightarrow> int sql" where
  "pruneSyncRuns acct cutoff keep d =
     (Inr (count_where (prunable acct cutoff keep d) (sync_runs d)),
      d\<lparr>sync_runs := delete_where (prunable acct cutoff keep d) (sync_runs d)\<rparr>)"

subsection \<open>Running a query\<close>

text \<open>
  The environment: what fails, and what the clock shows, at each step. A store is its database,
  the number of steps so far, and whether it is the one \<open>InTx\<close> hands to its callback.
\<close>

record env =
  e_fault :: "nat \<Rightarrow> gerr option"
  e_now :: "nat \<Rightarrow> gotime"

record store =
  s_db :: db
  s_tick :: nat
  s_tx :: bool

type_synonym ('z, 'a) op = "'z store_scheme \<Rightarrow> (gerr + 'a) \<times> 'z store_scheme"

definition query :: "'e env_scheme \<Rightarrow> (gotime \<Rightarrow> 'a sql) \<Rightarrow> ('z, 'a) op" where
  "query E q s =
     (case e_fault E (s_tick s) of
        Some e \<Rightarrow> (Inl e, s\<lparr>s_tick := s_tick s + 1\<rparr>)
      | None \<Rightarrow> (let (r, d) = q (e_now E (s_tick s)) (s_db s)
                 in (r, s\<lparr>s_db := d, s_tick := s_tick s + 1\<rparr>)))"

definition opErr :: "string \<Rightarrow> gerr \<Rightarrow> gerr" where
  "opErr name e = Wrap (lit ''sqlite.'' @ lit name @ lit '': '') e []"

fun map_res :: "(gerr \<Rightarrow> gerr) \<Rightarrow> ('a \<Rightarrow> 'b) \<Rightarrow> (gerr + 'a) \<times> 'z store_scheme \<Rightarrow> (gerr + 'b) \<times> 'z store_scheme" where
  "map_res f g (Inl e, s) = (Inl (f e), s)"
| "map_res f g (Inr x, s) = (Inr (g x), s)"

definition bind_op :: "('z, 'a) op \<Rightarrow> ('a \<Rightarrow> ('z, 'b) op) \<Rightarrow> ('z, 'b) op" where
  "bind_op m k s = (case m s of (Inl e, s) \<Rightarrow> (Inl e, s) | (Inr x, s) \<Rightarrow> k x s)"

text \<open>A statement list, left at the first error.\<close>

fun each_op :: "('x \<Rightarrow> ('z, unit) op) \<Rightarrow> 'x list \<Rightarrow> ('z, unit) op" where
  "each_op f [] s = (Inr (), s)"
| "each_op f (x # xs) s = bind_op (f x) (\<lambda>_. each_op f xs) s"

subsection \<open>Accounts\<close>

record Account =
  A_ID :: int
  A_Label :: string
  A_DifmMemberID :: string
  A_SpotifyPlaylistID :: string
  A_SpotifyRefreshToken :: string
  A_WatermarkLikedAt :: gotime

definition toAccount :: "account_row \<Rightarrow> Account" where
  "toAccount row =
     \<lparr>A_ID = ar_id row, A_Label = ar_label row, A_DifmMemberID = ar_member row,
      A_SpotifyPlaylistID = ar_playlist row, A_SpotifyRefreshToken = ar_token row,
      A_WatermarkLikedAt =
        (if ar_watermark row \<noteq> [] then
           (case parse_time (ar_watermark row) of None \<Rightarrow> 0 | Some ts \<Rightarrow> ts)
         else 0)\<rparr>"

definition EnsureAccount :: "'e env_scheme \<Rightarrow> string \<Rightarrow> string \<Rightarrow> string \<Rightarrow> ('z, Account) op" where
  "EnsureAccount E label member playlist s =
     map_res (opErr ''EnsureAccount'') toAccount (query E (\<lambda>now. upsertAccount now label member playlist) s)"

definition GetAccount :: "'e env_scheme \<Rightarrow> string \<Rightarrow> ('z, Account) op" where
  "GetAccount E label s =
     map_res (\<lambda>e. if errors_is e SqlErrNoRows
                  then Wrap (lit ''sqlite.GetAccount('' @ [34] @ lit label @ [34] @ lit ''): '') e []
                  else Wrap (lit ''sqlite.GetAccount: '') e [])
       toAccount (query E (\<lambda>_. getAccountByLabel label) s)"

definition SetSpotifyRefreshToken :: "'e env_scheme \<Rightarrow> int \<Rightarrow> string \<Rightarrow> ('z, unit) op" where
  "SetSpotifyRefreshToken E i token s =
     map_res (opErr ''SetSpotifyRefreshToken'') id (query E (\<lambda>_. setSpotifyRefreshToken token i) s)"

definition ClearSpotifyRefreshTokenIf :: "'e env_scheme \<Rightarrow> int \<Rightarrow> string \<Rightarrow> ('z, bool) op" where
  "ClearSpotifyRefreshTokenIf E i rejected s =
     map_res (opErr ''ClearSpotifyRefreshTokenIf'') (\<lambda>n. n > 0)
       (query E (\<lambda>_. clearSpotifyRefreshTokenIf i rejected) s)"

definition HasSpotifyRefreshToken :: "'e env_scheme \<Rightarrow> int \<Rightarrow> ('z, bool) op" where
  "HasSpotifyRefreshToken E i s =
     map_res (opErr ''HasSpotifyRefreshToken'') (\<lambda>n. n > 0) (query E (\<lambda>_. countSpotifyRefreshToken i) s)"

definition SetWatermark :: "'e env_scheme \<Rightarrow> int \<Rightarrow> gotime \<Rightarrow> ('z, unit) op" where
  "SetWatermark E i t s =
     map_res (opErr ''SetWatermark'') id (query E (\<lambda>_. setWatermark (format_time t) i) s)"

definition ClearWatermark :: "'e env_scheme \<Rightarrow> int \<Rightarrow> ('z, unit) op" where
  "ClearWatermark E i s = map_res (opErr ''ClearWatermark'') id (query E (\<lambda>_. clearWatermark i) s)"

subsection \<open>The ledger\<close>

record SyncedTrack =
  S_AccountID :: int
  S_DifmTrackID :: int
  S_DifmVoteID :: int
  S_SpotifyTrackID :: string
  S_PlaylistID :: string
  S_Artist :: runes
  S_Title :: runes
  S_MatchScore :: score
  S_LikedAt :: gotime

definition synced_params :: "SyncedTrack \<Rightarrow> synced_row" where
  "synced_params t =
     \<lparr>sr_id = 0, sr_account = S_AccountID t, sr_track = S_DifmTrackID t, sr_vote = S_DifmVoteID t,
      sr_spotify = S_SpotifyTrackID t, sr_playlist = S_PlaylistID t, sr_artist = S_Artist t,
      sr_title = S_Title t, sr_score = S_MatchScore t, sr_liked = format_time (S_LikedAt t), sr_added = []\<rparr>"

definition IsSynced :: "'e env_scheme \<Rightarrow> int \<Rightarrow> int \<Rightarrow> string \<Rightarrow> ('z, bool) op" where
  "IsSynced E acct track playlist s =
     map_res (opErr ''IsSynced'') (\<lambda>n. n \<noteq> 0) (query E (\<lambda>_. isTrackSynced acct track playlist) s)"

definition RecordSynced :: "'e env_scheme \<Rightarrow> SyncedTrack \<Rightarrow> ('z, unit) op" where
  "RecordSynced E t s =
     map_res (opErr ''RecordSynced'') id (query E (\<lambda>now. recordSyncedTrack now (synced_params t)) s)"

definition CountSynced :: "'e env_scheme \<Rightarrow> int \<Rightarrow> ('z, int) op" where
  "CountSynced E acct s = map_res (opErr ''CountSynced'') id (query E (\<lambda>_. countSyncedTracks acct) s)"

definition ForgetTrack :: "'e env_scheme \<Rightarrow> int \<Rightarrow> int \<Rightarrow> ('z, bool) op" where
  "ForgetTrack E acct track s =
     map_res (opErr ''ForgetTrack'') (\<lambda>n. n > 0) (query E (\<lambda>_. forgetSyncedTrack acct track) s)"

definition ForgetAllTracks :: "'e env_scheme \<Rightarrow> int \<Rightarrow> ('z, unit) op" where
  "ForgetAllTracks E acct s =
     map_res (opErr ''ForgetAllTracks'') id (query E (\<lambda>_. forgetAllSyncedTracks acct) s)"

text \<open>\<open>None\<close> is \<open>(time.Time{}, false, nil)\<close>: there is no such row.\<close>

definition SyncedTrackLikedAt :: "'e env_scheme \<Rightarrow> int \<Rightarrow> int \<Rightarrow> ('z, gotime option) op" where
  "SyncedTrackLikedAt E acct track s =
     (case query E (\<lambda>_. getSyncedTrackLikedAt acct track) s of
        (Inl e, s) \<Rightarrow>
          (if errors_is e SqlErrNoRows then Inr None else Inl (Wrap (lit ''sqlite.SyncedTrackLikedAt: '') e []), s)
      | (Inr liked, s) \<Rightarrow>
          (case parse_time liked of
             Some ts \<Rightarrow> Inr (Some ts)
           | None \<Rightarrow> Inl (Wrap (lit ''sqlite.SyncedTrackLikedAt: parse '' @ [34] @ lit liked @ [34] @ lit '': '')
                            (Msg (lit ''parsing time'')) []), s))"

subsection \<open>The review queue\<close>

definition ReasonLowConfidence :: string where "ReasonLowConfidence = ''low_confidence''"
definition ReasonNoMatch :: string where "ReasonNoMatch = ''no_match''"
definition ReasonSkipped :: string where "ReasonSkipped = ''skipped''"

record ReviewItem =
  R_AccountID :: int
  R_DifmTrackID :: int
  R_DifmVoteID :: int
  R_Artist :: runes
  R_Title :: runes
  R_DurationSec :: int
  R_DetailsURL :: string
  R_Candidates :: "Scored list"
  R_BestScore :: score
  R_Reason :: string
  R_Status :: string
  R_LikedAt :: gotime

definition toReviewItem :: "review_row \<Rightarrow> ReviewItem" where
  "toReviewItem r =
     \<lparr>R_AccountID = rr_account r, R_DifmTrackID = rr_track r, R_DifmVoteID = rr_vote r,
      R_Artist = rr_artist r, R_Title = rr_title r, R_DurationSec = rr_duration r,
      R_DetailsURL = rr_details r,
      R_Candidates = (case rr_candidates r of None \<Rightarrow> [] | Some cs \<Rightarrow> cs),
      R_BestScore = rr_best r, R_Reason = rr_reason r, R_Status = rr_status r,
      R_LikedAt = (case parse_time (rr_liked r) of None \<Rightarrow> 0 | Some ts \<Rightarrow> ts)\<rparr>"

definition review_params :: "ReviewItem \<Rightarrow> review_row" where
  "review_params item =
     \<lparr>rr_id = 0, rr_account = R_AccountID item, rr_track = R_DifmTrackID item, rr_vote = R_DifmVoteID item,
      rr_artist = R_Artist item, rr_title = R_Title item, rr_duration = R_DurationSec item,
      rr_details = R_DetailsURL item, rr_candidates = Some (R_Candidates item), rr_best = R_BestScore item,
      rr_reason = R_Reason item, rr_status = [], rr_liked = format_time (R_LikedAt item),
      rr_created = [], rr_resolved = None\<rparr>"

definition Enqueue :: "'e env_scheme \<Rightarrow> ReviewItem \<Rightarrow> ('z, unit) op" where
  "Enqueue E item s =
     map_res (opErr ''Enqueue'') id (query E (\<lambda>now. enqueueReview now (review_params item)) s)"

definition ListReview :: "'e env_scheme \<Rightarrow> int \<Rightarrow> string \<Rightarrow> int \<Rightarrow> ('z, ReviewItem list) op" where
  "ListReview E acct status n s =
     map_res (\<lambda>e. Wrap (lit ''sqlite.ListReview: '') e []) (map toReviewItem)
       (query E (\<lambda>_. listReviewQueue acct status n) s)"

definition ResolveReview :: "'e env_scheme \<Rightarrow> int \<Rightarrow> int \<Rightarrow> string \<Rightarrow> ('z, bool) op" where
  "ResolveReview E acct track status s =
     map_res (opErr ''ResolveReview'') (\<lambda>n. n > 0) (query E (\<lambda>now. resolveReview now status acct track) s)"

definition GetReviewItem :: "'e env_scheme \<Rightarrow> int \<Rightarrow> int \<Rightarrow> ('z, ReviewItem) op" where
  "GetReviewItem E acct track s =
     map_res (\<lambda>e. Wrap (lit ''sqlite.GetReviewItem('' @ itoa track @ lit ''): '') e []) toReviewItem
       (query E (\<lambda>_. getReviewItem acct track) s)"

definition CountReview :: "'e env_scheme \<Rightarrow> int \<Rightarrow> string \<Rightarrow> ('z, int) op" where
  "CountReview E acct status s =
     map_res (opErr ''CountReview'') id (query E (\<lambda>_. countReviewQueue acct status) s)"

definition CountActionableReview :: "'e env_scheme \<Rightarrow> int \<Rightarrow> ('z, int) op" where
  "CountActionableReview E acct s =
     map_res (opErr ''CountActionableReview'') id (query E (\<lambda>_. countReviewQueueActionable acct) s)"

subsection \<open>Runs\<close>

type_synonym RunErrorKind = string

definition KindDiFMUnauthorized :: RunErrorKind where "KindDiFMUnauthorized = ''difm_unauthorized''"
definition KindSpotifyGrantRevoked :: RunErrorKind where "KindSpotifyGrantRevoked = ''spotify_grant_revoked''"
definition KindRateLimited :: RunErrorKind where "KindRateLimited = ''rate_limited''"
definition KindIncomplete :: RunErrorKind where "KindIncomplete = ''incomplete''"
definition KindError :: RunErrorKind where "KindError = ''error''"

lemmas kinds = KindDiFMUnauthorized_def KindSpotifyGrantRevoked_def KindRateLimited_def
  KindIncomplete_def KindError_def

definition Known :: "RunErrorKind \<Rightarrow> bool" where
  "Known k \<longleftrightarrow> k \<in> {[], KindDiFMUnauthorized, KindSpotifyGrantRevoked, KindRateLimited, KindIncomplete, KindError}"

record RunStats =
  Fetched :: int
  Added :: int
  Queued :: int
  Skipped :: int
  Err :: "gerr option"
  StKind :: RunErrorKind

definition zero_stats :: RunStats where
  "zero_stats = \<lparr>Fetched = 0, Added = 0, Queued = 0, Skipped = 0, Err = None, StKind = []\<rparr>"

definition StartRun :: "'e env_scheme \<Rightarrow> int \<Rightarrow> bool \<Rightarrow> ('z, int) op" where
  "StartRun E acct dryRun s =
     map_res (opErr ''StartRun'') ru_id
       (query E (\<lambda>now. startSyncRun acct (format_time now) (if dryRun then 1 else 0)) s)"

definition FinishRun :: "'e env_scheme \<Rightarrow> int \<Rightarrow> RunStats \<Rightarrow> ('z, unit) op" where
  "FinishRun E runID st s =
     (let msg = (case Err st of None \<Rightarrow> [] | Some e \<Rightarrow> err_text e);
          kind = (if Known (StKind st) then StKind st else KindError)
      in map_res (opErr ''FinishRun'') id
           (query E (\<lambda>now. finishSyncRun (format_time now) (Fetched st) (Added st) (Queued st) (Skipped st)
                            msg kind runID) s))"

record SyncRun =
  Ru_ID :: int
  Ru_StartedAt :: string
  Ru_FinishedAt :: string
  Ru_DryRun :: bool
  Ru_Fetched :: int
  Ru_Added :: int
  Ru_Queued :: int
  Ru_Skipped :: int
  Ru_Error :: runes
  Ru_ErrorKind :: RunErrorKind

definition toSyncRun :: "run_row \<Rightarrow> SyncRun" where
  "toSyncRun r =
     \<lparr>Ru_ID = ru_id r, Ru_StartedAt = ru_started r,
      Ru_FinishedAt = (case ru_finished r of None \<Rightarrow> [] | Some t \<Rightarrow> t), Ru_DryRun = (ru_dry r \<noteq> 0),
      Ru_Fetched = ru_fetched r, Ru_Added = ru_added r, Ru_Queued = ru_queued r, Ru_Skipped = ru_skipped r,
      Ru_Error = ru_error r, Ru_ErrorKind = ru_kind r\<rparr>"

definition ListRuns :: "'e env_scheme \<Rightarrow> int \<Rightarrow> int \<Rightarrow> ('z, SyncRun list) op" where
  "ListRuns E acct n s =
     map_res (\<lambda>e. Wrap (lit ''sqlite.ListRuns: '') e []) (map toSyncRun) (query E (\<lambda>_. listSyncRuns acct n) s)"

definition PruneRuns :: "'e env_scheme \<Rightarrow> int \<Rightarrow> gotime \<Rightarrow> int \<Rightarrow> ('z, int) op" where
  "PruneRuns E acct before keep s =
     map_res (opErr ''PruneRuns'') id (query E (\<lambda>_. pruneSyncRuns acct (format_time before) keep) s)"

subsection \<open>Transactions\<close>

definition nested_tx :: gerr where
  "nested_tx = Msg (lit ''sqlite.InTx: already in a transaction; nesting would deadlock on SQLite's single writer'')"

text \<open>
  \<open>BeginTx\<close> and \<open>Commit\<close> are steps that may fail. Whatever goes wrong, the deferred
  \<open>Rollback\<close> leaves the tables as \<open>BeginTx\<close> found them.
\<close>

definition InTx :: "'e env_scheme \<Rightarrow> ('z, 'a) op \<Rightarrow> ('z, 'a) op" where
  "InTx E body s =
     (if s_tx s then (Inl nested_tx, s)
      else case query E (\<lambda>_ d. (Inr (), d)) s of
             (Inl e, s1) \<Rightarrow> (Inl (Wrap (lit ''sqlite.InTx: begin: '') e []), s1)
           | (Inr _, s1) \<Rightarrow>
               (case body (s1\<lparr>s_tx := True\<rparr>) of
                  (Inl e, s2) \<Rightarrow> (Inl e, s2\<lparr>s_db := s_db s1, s_tx := False\<rparr>)
                | (Inr x, s2) \<Rightarrow>
                    (case query E (\<lambda>_ d. (Inr (), d)) s2 of
                       (Inl e, s3) \<Rightarrow> (Inl (Wrap (lit ''sqlite.InTx: commit: '') e []),
                                       s3\<lparr>s_db := s_db s1, s_tx := False\<rparr>)
                     | (Inr _, s3) \<Rightarrow> (Inr x, s3\<lparr>s_tx := False\<rparr>))))"

end
