(* ===== verification/Backup.thy ===== *)
theory Backup
  imports Store
begin

text \<open>
  Snapshots: \<open>SnapshotTo\<close> and \<open>verifySnapshot\<close> of \<open>internal/store/sqlite/ops.go\<close>, and the
  daemon's daily schedule with its prune, \<open>internal/syncer/backup.go\<close>.

  A directory is the list of its entries; a regular file that is a snapshot carries the database
  that was copied. What the operating system may refuse is a parameter, \<open>disk\<close>: each system
  call of the code has a field that says whether it fails. The staging directory is private and
  removed on every way out, so it leaves no trace in the model.
\<close>

subsection \<open>The directory\<close>

datatype entry = Dir | Plain | Copy db

type_synonym folder = "(string \<times> entry) list"

record disk =
  k_stat :: "nat \<Rightarrow> gerr option"
  k_mkdir :: "nat \<Rightarrow> gerr option"
  k_stage :: "gerr + string"
  k_vacuum :: "gerr option"
  k_chmod :: "gerr option"
  k_open :: "gerr option"
  k_env :: env
  k_rename :: "gerr option"
  k_readdir :: "gerr option"
  k_remove :: "string \<Rightarrow> gerr option"

definition present :: "string \<Rightarrow> folder \<Rightarrow> bool" where
  "present name fo \<longleftrightarrow> name \<in> fst ` set fo"

definition remove_file :: "string \<Rightarrow> folder \<Rightarrow> folder" where
  "remove_file name fo = filter (\<lambda>(n, f). n \<noteq> name) fo"

subsection \<open>One snapshot\<close>

text \<open>\<open>verifySnapshot\<close> reopens the copy and reads the account out of it.\<close>

definition verifySnapshot :: "disk \<Rightarrow> string \<Rightarrow> string \<Rightarrow> db \<Rightarrow> gerr option" where
  "verifySnapshot k dest label copied =
     (case k_open k of
        Some e \<Rightarrow> Some (Wrap (lit ''the snapshot staged for '' @ lit dest @ lit '' does not open as a database: '') e [])
      | None \<Rightarrow>
          (case fst (GetAccount (k_env k) label \<lparr>s_db = copied, s_tick = 0, s_tx = False\<rparr>) of
             Inl e \<Rightarrow> Some (Wrap (lit ''the snapshot staged for '' @ lit dest @ lit '' has no ''
                                @ [34] @ lit label @ [34] @ lit '' account row: '') e [])
           | Inr account \<Rightarrow> None))"

text \<open>\<open>BackupTo\<close> writes the copy into the staging directory.\<close>

definition BackupTo :: "disk \<Rightarrow> bool \<Rightarrow> string \<Rightarrow> gerr option" where
  "BackupTo k inTx tmp =
     (if inTx then Some (Msg (lit ''sqlite.BackupTo: cannot run inside a transaction''))
      else map_option (\<lambda>e. Wrap (lit ''sqlite.BackupTo('' @ [34] @ lit tmp @ [34] @ lit ''): '') e []) (k_vacuum k))"

text \<open>
  The steps of \<open>SnapshotTo\<close> in their order, each with the way it can fail; the rename is the only
  one that touches the destination.
\<close>

definition staged :: "disk \<Rightarrow> bool \<Rightarrow> db \<Rightarrow> string \<Rightarrow> string \<Rightarrow> gerr option" where
  "staged k inTx d dest label =
     (case k_stage k of
        Inl e \<Rightarrow> Some (Wrap (lit ''creating a staging directory next to '' @ lit dest @ lit '': '') e [])
      | Inr dir \<Rightarrow>
          (case BackupTo k inTx (dir @ ''/difmsync.db'') of
             Some e \<Rightarrow> Some e
           | None \<Rightarrow>
               (case k_chmod k of
                  Some e \<Rightarrow> Some (Wrap (lit ''restricting permissions on the snapshot: '') e [])
                | None \<Rightarrow>
                    map_option
                      (\<lambda>e. Wrap [] e (lit '' '' @ [8212] @ lit '' check that the database this was copied from is the one you meant''))
                      (verifySnapshot k dest label d))))"

definition SnapshotTo :: "disk \<Rightarrow> bool \<Rightarrow> db \<Rightarrow> string \<Rightarrow> string \<Rightarrow> folder \<Rightarrow> gerr option \<times> folder" where
  "SnapshotTo k inTx d dest label fo =
     (case k_stat k 1 of
        Some e \<Rightarrow> (Some (Wrap (lit ''checking the backup destination '' @ lit dest @ lit '': '') e []), fo)
      | None \<Rightarrow>
          if present dest fo then
            (Some (Msg (lit dest @ lit '' already exists '' @ [8212] @ lit '' refusing to overwrite it ''
                   @ lit ''(it may be the only copy of a refresh token); ''
                   @ lit ''pick another --to, or move the existing file away first'')), fo)
          else case k_mkdir k 1 of
            Some e \<Rightarrow> (Some (Wrap (lit ''creating the backup directory: '') e []), fo)
          | None \<Rightarrow>
              (case staged k inTx d dest label of
                 Some e \<Rightarrow> (Some e, fo)
               | None \<Rightarrow>
                   (case k_rename k of
                      Some e \<Rightarrow> (Some (Wrap (lit ''moving the verified snapshot to '' @ lit dest @ lit '': '') e []), fo)
                    | None \<Rightarrow> (None, remove_file dest fo @ [(dest, Copy d)]))))"

subsection \<open>The schedule\<close>

definition snapshotPrefix :: string where "snapshotPrefix = ''difmsync-''"
definition snapshotSuffix :: string where "snapshotSuffix = ''.db''"

definition snapshotDate :: "string \<Rightarrow> gotime option" where
  "snapshotDate name =
     (let n = length snapshotPrefix; m = length snapshotSuffix
      in if take n name \<noteq> snapshotPrefix \<or> drop (length name - m) name \<noteq> snapshotSuffix then None
         else parse_day (take (length name - n - m) (drop n name)))"

record Backups =
  bk_Dir :: string
  bk_Keep :: int
  bk_lastAttempt :: string

text \<open>\<open>os.ReadDir\<close> lists by name; the names \<open>snapshotDate\<close> reads are kept, directories are not.\<close>

definition snapshot_names :: "folder \<Rightarrow> string list" where
  "snapshot_names fo = map fst (filter (\<lambda>(n, f). f \<noteq> Dir \<and> snapshotDate n \<noteq> None) fo)"

fun remove_all :: "disk \<Rightarrow> string list \<Rightarrow> folder \<Rightarrow> gerr option \<times> folder" where
  "remove_all k [] fo = (None, fo)"
| "remove_all k (n # ns) fo =
     (case k_remove k n of Some e \<Rightarrow> (Some e, fo) | None \<Rightarrow> remove_all k ns (remove_file n fo))"

definition prune :: "disk \<Rightarrow> Backups \<Rightarrow> folder \<Rightarrow> gerr option \<times> folder" where
  "prune k b fo =
     (if bk_Keep b \<le> 0 then (None, fo)
      else case k_readdir k of
             Some e \<Rightarrow> (Some e, fo)
           | None \<Rightarrow>
               (let names = snapshot_names fo
                in if int (length names) \<le> bk_Keep b then (None, fo)
                   else remove_all k (drop (nat (bk_Keep b)) (rev (sort names))) fo))"

text \<open>
  \<open>run\<close> returns the path of the snapshot it wrote, if any, and the error, if any. Paths are
  named by the last element, since everything happens in \<open>Dir\<close>.
\<close>

definition run_backup ::
  "disk \<Rightarrow> gotime \<Rightarrow> bool \<Rightarrow> db \<Rightarrow> string \<Rightarrow> Backups \<Rightarrow> folder \<Rightarrow> (string \<times> gerr option) \<times> Backups \<times> folder" where
  "run_backup k now inTx d label b fo =
     (let day = format_day now; dest = snapshotPrefix @ day @ snapshotSuffix
      in if bk_lastAttempt b = day then (([], None), b, fo)
         else if k_stat k 0 = None \<and> present dest fo then (([], None), b, fo)
         else
           (let b = b\<lparr>bk_lastAttempt := day\<rparr>
            in case k_mkdir k 0 of
                 Some e \<Rightarrow> (([], Some (Wrap (lit ''creating the backup directory: '') e [])), b, fo)
               | None \<Rightarrow>
                   (case SnapshotTo k inTx d dest label fo of
                      (Some e, fo) \<Rightarrow> (([], Some e), b, fo)
                    | (None, fo) \<Rightarrow>
                        (case prune k b fo of
                           (Some e, fo) \<Rightarrow> ((dest, Some (Wrap (lit ''pruning old snapshots: '') e [])), b, fo)
                         | (None, fo) \<Rightarrow> ((dest, None), b, fo)))))"

subsection \<open>What they guarantee\<close>


subsection \<open>The prune\<close>

lemma remove_all_result:
  assumes "remove_all k ns fo = (r, fo')"
  shows "\<exists>m. fo' = filter (\<lambda>(n, f). n \<notin> set (take m ns)) fo \<and> (r = None \<longrightarrow> take m ns = ns)"
  using assms
proof (induction ns arbitrary: fo)
  case Nil
  then show ?case by auto
next
  case (Cons n ns)
  show ?case
  proof (cases "k_remove k n")
    case None
    with Cons obtain m where "fo' = filter (\<lambda>(n, f). n \<notin> set (take m ns)) (remove_file n fo)"
      "r = None \<longrightarrow> take m ns = ns" by force
    then show ?thesis by (intro exI [of _ "Suc m"]) (auto simp: remove_file_def intro!: filter_cong)
  next
    case (Some e)
    with Cons.prems have "fo' = fo" "r = Some e" by auto
    then show ?thesis by (intro exI [of _ 0]) auto
  qed
qed

text \<open>The order of the names is the order of their dates.\<close>

lemma snapshotDate_name:
  assumes "snapshotDate name = Some t"
  shows "name = snapshotPrefix @ format_day t @ snapshotSuffix" "printable t" "t mod day_ns = 0"
proof -
  let ?n = "length snapshotPrefix" and ?m = "length snapshotSuffix"
  let ?mid = "take (length name - ?n - ?m) (drop ?n name)"
  have pre: "take ?n name = snapshotPrefix" and suf: "drop (length name - ?m) name = snapshotSuffix"
    and mid: "parse_day ?mid = Some t"
    using assms by (auto simp: snapshotDate_def Let_def split: if_splits)
  note P = parse_day_format [OF mid]
  have "length (format_day t) > 0" by (simp add: format_day_def split: prod.split)
  then have "length ?mid > 0" using P(3) by simp
  then have len: "?n + ?m \<le> length name" by simp
  have "name = take ?n name @ take (length name - ?n - ?m) (drop ?n name) @ drop (length name - ?m) name"
  proof -
    have "drop ?n name = take (length name - ?n - ?m) (drop ?n name) @ drop (length name - ?n - ?m) (drop ?n name)"
      by (rule append_take_drop_id [symmetric])
    moreover have "drop (length name - ?n - ?m) (drop ?n name) = drop (length name - ?m) name" using len by simp
    ultimately show ?thesis by (metis append_take_drop_id)
  qed
  then show "name = snapshotPrefix @ format_day t @ snapshotSuffix" using pre suf P(3) by simp
  show "printable t" "t mod day_ns = 0" by (rule P)+
qed

lemma append_less: "(xs @ ys :: string) < xs @ zs \<longleftrightarrow> ys < zs"
  by (induction xs) auto

lemma snapshot_order:
  assumes "snapshotDate a = Some s" "snapshotDate b = Some t"
  shows "a < b \<longleftrightarrow> s < t"
proof -
  note A = snapshotDate_name [OF assms(1)] and B = snapshotDate_name [OF assms(2)]
  have "a < b \<longleftrightarrow> s div day_ns < t div day_ns"
    unfolding A(1) B(1) append_less using format_day_less [OF A(2) B(2), of snapshotSuffix snapshotSuffix] by simp
  also have "\<dots> \<longleftrightarrow> s div day_ns * day_ns < t div day_ns * day_ns" by (simp add: day_ns_def)
  also have "\<dots> \<longleftrightarrow> s < t"
    using A(3) B(3) div_mult_mod_eq [of s day_ns] div_mult_mod_eq [of t day_ns] by simp
  finally show ?thesis .
qed

text \<open>The snapshots of a directory, newest first.\<close>

definition newest_first_snapshots :: "folder \<Rightarrow> string list" where
  "newest_first_snapshots fo = rev (sort (snapshot_names fo))"

definition newer_snapshot :: "string \<Rightarrow> string \<Rightarrow> bool" where
  "newer_snapshot a b \<longleftrightarrow> the (snapshotDate b) < the (snapshotDate a)"

lemma newest_first_snapshots:
  assumes "distinct (map fst fo)"
  shows "set (newest_first_snapshots fo) = set (snapshot_names fo)" "distinct (newest_first_snapshots fo)"
    "sorted_wrt newer_snapshot (newest_first_snapshots fo)"
proof -
  let ?N = "newest_first_snapshots fo"
  show set: "set ?N = set (snapshot_names fo)" by (simp add: newest_first_snapshots_def)
  have d: "distinct (snapshot_names fo)"
    unfolding snapshot_names_def by (rule distinct_map_filter [OF assms])
  then show "distinct ?N" by (simp add: newest_first_snapshots_def)
  have "sorted_wrt (<) (sort (snapshot_names fo))"
    using d by (simp add: strict_sorted_iff)
  then have "sorted_wrt (\<lambda>a b. b < a) ?N" by (simp add: newest_first_snapshots_def sorted_wrt_rev)
  then show "sorted_wrt newer_snapshot ?N"
  proof (rule sorted_wrt_mono_rel [rotated])
    fix a b
    assume "a \<in> set ?N" "b \<in> set ?N" "b < a"
    then show "newer_snapshot a b"
      using snapshot_order set by (auto simp: newer_snapshot_def snapshot_names_def)
  qed
qed

lemma snapshot_names_remove:
  "snapshot_names (filter (\<lambda>(n, f). n \<notin> D) fo) = filter (\<lambda>n. n \<notin> D) (snapshot_names fo)"
  by (induction fo) (auto simp: snapshot_names_def)

lemma prune_result:
  assumes "prune k b fo = (r, fo')"
  shows "\<exists>m. fo' = filter (\<lambda>(n, f). n \<notin> set (take m (drop (nat (bk_Keep b)) (newest_first_snapshots fo)))) fo \<and>
      (bk_Keep b \<le> 0 \<longrightarrow> m = 0) \<and>
      (r = None \<longrightarrow> 0 < bk_Keep b \<longrightarrow> set (take m (drop (nat (bk_Keep b)) (newest_first_snapshots fo)))
          = set (drop (nat (bk_Keep b)) (newest_first_snapshots fo)))"
proof -
  let ?N = "newest_first_snapshots fo"
  let ?old = "drop (nat (bk_Keep b)) ?N"
  have none: ?thesis if "fo' = fo" "bk_Keep b \<le> 0 \<or> r \<noteq> None \<or> ?old = []"
    using that by (intro exI [of _ 0]) auto
  consider "bk_Keep b \<le> 0" | e where "0 < bk_Keep b" "k_readdir k = Some e"
    | "0 < bk_Keep b" "k_readdir k = None" "int (length (snapshot_names fo)) \<le> bk_Keep b"
    | "0 < bk_Keep b" "k_readdir k = None" "bk_Keep b < int (length (snapshot_names fo))"
    by (cases "k_readdir k") fastforce+
  then show ?thesis
  proof cases
    case 2
    then have "fo' = fo" "r = Some e" using assms by (simp_all add: prune_def)
    then show ?thesis using none by simp
  next
    case 3
    then have "fo' = fo" "?old = []" using assms by (simp_all add: prune_def newest_first_snapshots_def)
    then show ?thesis using none by simp
  next
    case 4
    then have "remove_all k ?old fo = (r, fo')"
      using assms by (simp add: prune_def newest_first_snapshots_def)
    from remove_all_result [OF this] obtain m where
      "fo' = filter (\<lambda>(n, f). n \<notin> set (take m ?old)) fo" "r = None \<longrightarrow> take m ?old = ?old" by blast
    with 4(1) show ?thesis by (intro exI [of _ m]) auto
  qed (rule none; use assms in \<open>auto simp: prune_def newest_first_snapshots_def\<close>)+
qed

text \<open>
  The prune keeps the newest. Entries that are not dated snapshots are never touched, whatever
  their names; the \<open>Keep\<close> newest snapshots stay even when deleting fails half-way, and when nothing
  fails exactly they stay (all of them with \<open>Keep\<close> of 0 or less).
\<close>

theorem prune_keeps_newest_snapshots:
  assumes "distinct (map fst fo)" and "prune k b fo = (r, fo')"
  shows "filter (\<lambda>(n, f). f = Dir \<or> snapshotDate n = None) fo' = filter (\<lambda>(n, f). f = Dir \<or> snapshotDate n = None) fo \<and>
    (\<exists>N. set N = set (snapshot_names fo) \<and> sorted_wrt newer_snapshot N \<and>
       (let keep = (if bk_Keep b \<le> 0 then N else take (nat (bk_Keep b)) N)
        in set keep \<subseteq> set (snapshot_names fo') \<and> (r = None \<longrightarrow> set (snapshot_names fo') = set keep)))"
proof -
  let ?N = "newest_first_snapshots fo"
  let ?keep = "take (nat (bk_Keep b)) ?N"
  note N = newest_first_snapshots [OF assms(1)]
  from prune_result [OF assms(2)] obtain m where
    fo': "fo' = filter (\<lambda>(n, f). n \<notin> set (take m (drop (nat (bk_Keep b)) ?N))) fo" and
    zero: "bk_Keep b \<le> 0 \<longrightarrow> m = 0" and
    all: "r = None \<longrightarrow> 0 < bk_Keep b \<longrightarrow> set (take m (drop (nat (bk_Keep b)) ?N)) = set (drop (nat (bk_Keep b)) ?N)"
    by blast
  let ?D = "set (take m (drop (nat (bk_Keep b)) ?N))"
  have sub: "?D \<subseteq> set (drop (nat (bk_Keep b)) ?N)" by (rule set_take_subset)
  have disj: "set ?keep \<inter> set (drop (nat (bk_Keep b)) ?N) = {}" by (rule set_take_disj_set_drop_if_distinct [OF N(2)]) simp
  have cover: "set ?N = set ?keep \<union> set (drop (nat (bk_Keep b)) ?N)" by (metis append_take_drop_id set_append)
  have names: "set (snapshot_names fo') = set ?N - ?D" using N(1) by (auto simp: fo' snapshot_names_remove)
  have dates: "\<forall>n\<in>?D. \<forall>f. (n, f) \<in> set fo \<longrightarrow> f \<noteq> Dir \<and> snapshotDate n \<noteq> None"
  proof (intro ballI allI impI)
    fix n f
    assume "n \<in> ?D" "(n, f) \<in> set fo"
    moreover from this have "n \<in> set (snapshot_names fo)" using sub cover N(1) by blast
    ultimately show "f \<noteq> Dir \<and> snapshotDate n \<noteq> None"
      using assms(1) by (auto simp: snapshot_names_def dest: eq_key_imp_eq_value)
  qed
  have "filter (\<lambda>(n, f). f = Dir \<or> snapshotDate n = None) fo' = filter (\<lambda>(n, f). f = Dir \<or> snapshotDate n = None) fo"
    unfolding fo' filter_filter using dates by (intro filter_cong) auto
  moreover have "let keep = (if bk_Keep b \<le> 0 then ?N else ?keep)
      in set keep \<subseteq> set (snapshot_names fo') \<and> (r = None \<longrightarrow> set (snapshot_names fo') = set keep)"
  proof (cases "bk_Keep b \<le> 0")
    case True
    then have "set (snapshot_names fo') = set ?N" using names zero by simp
    with True show ?thesis by simp
  next
    case False
    have "set ?keep \<subseteq> set (snapshot_names fo')" using names sub disj cover by blast
    moreover have "set (snapshot_names fo') = set ?keep" if "r = None"
      using names all that False disj cover by auto
    ultimately show ?thesis using False by simp
  qed
  ultimately show ?thesis using N(1,3) by blast
qed

subsection \<open>Once a day\<close>

text \<open>
  At most one attempt a day. After \<open>run\<close> has made an attempt, successful or not, another call on
  the same UTC day does nothing at all: no snapshot, no prune, no error. It writes only under the
  day's own name, and an attempt that fails without a snapshot leaves the directory as it was.
\<close>

theorem one_attempt_a_day:
  "case run_backup k now inTx d label b fo of ((dest, err), b', fo') \<Rightarrow>
     (dest = [] \<longrightarrow> fo' = fo) \<and>
     (dest = [] \<or> dest = snapshotPrefix @ format_day now @ snapshotSuffix) \<and>
     (err \<noteq> None \<or> dest \<noteq> [] \<longrightarrow>
        now' div day_ns = now div day_ns \<longrightarrow> run_backup k' now' inTx' d' label' b' fo'' = (([], None), b', fo''))"
proof -
  obtain dest err b' fo' where r: "run_backup k now inTx d label b fo = ((dest, err), b', fo')" by (metis prod_cases4 surj_pair)
  have day: "now' div day_ns = now div day_ns \<Longrightarrow> format_day now' = format_day now" by (simp add: format_day_def)
  have snap: "fo1 = fo" if "SnapshotTo k inTx d p label fo = (Some e, fo1)" for p e fo1
    using that by (auto simp: SnapshotTo_def simp del: lit_simps split: option.splits if_splits)
  have "dest = [] \<longrightarrow> fo' = fo"
    using r by (auto simp: run_backup_def Let_def snapshotPrefix_def simp del: lit_simps dest: snap
        split: if_splits option.splits prod.splits)
  moreover have "dest = [] \<or> dest = snapshotPrefix @ format_day now @ snapshotSuffix"
    using r by (auto simp: run_backup_def Let_def simp del: lit_simps split: if_splits option.splits prod.splits)
  moreover have "err \<noteq> None \<or> dest \<noteq> [] \<Longrightarrow> bk_lastAttempt b' = format_day now"
    using r by (auto simp: run_backup_def Let_def simp del: lit_simps split: if_splits option.splits prod.splits)
  ultimately show ?thesis using r day by (auto simp: run_backup_def [of k'] Let_def)
qed

subsection \<open>Examples\<close>

definition good_disk :: disk where
  "good_disk =
     \<lparr>k_stat = \<lambda>_. None, k_mkdir = \<lambda>_. None, k_stage = Inr ''/b/.difmsync-backup-1'', k_vacuum = None, k_chmod = None,
      k_open = None, k_env = \<lparr>e_fault = \<lambda>_. None, e_now = \<lambda>_. 0\<rparr>, k_rename = None, k_readdir = None, k_remove = \<lambda>_. None\<rparr>"

definition shelf_of_backups :: folder where
  "shelf_of_backups =
     [(''difmsync-2024-01-01.db'', Copy empty_db), (''difmsync-2024-01-02.db'', Copy empty_db), (''difmsync-zzz.db'', Plain)]"

theorem prune_keeps_newest_snapshots_witness:
  "filter (\<lambda>(n, f). f = Dir \<or> snapshotDate n = None)
     (snd (prune good_disk \<lparr>bk_Dir = ''/b'', bk_Keep = 1, bk_lastAttempt = []\<rparr> shelf_of_backups))
   = [(''difmsync-zzz.db'', Plain)]"
proof -
  obtain r fo' where p: "prune good_disk \<lparr>bk_Dir = ''/b'', bk_Keep = 1, bk_lastAttempt = []\<rparr> shelf_of_backups = (r, fo')"
    by fastforce
  have d: "distinct (map fst shelf_of_backups)" by (simp add: shelf_of_backups_def)
  have "snapshotDate ''difmsync-2024-01-01.db'' \<noteq> None" "snapshotDate ''difmsync-2024-01-02.db'' \<noteq> None"
    "snapshotDate ''difmsync-zzz.db'' = None" by code_simp+
  then have "filter (\<lambda>(n, f). f = Dir \<or> snapshotDate n = None) shelf_of_backups = [(''difmsync-zzz.db'', Plain)]"
    by (simp add: shelf_of_backups_def)
  with prune_keeps_newest_snapshots [OF d p] p show ?thesis by simp
qed

theorem one_attempt_a_day_witness:
  "let bad = good_disk\<lparr>k_mkdir := \<lambda>_. Some (Msg (lit ''no space left''))\<rparr>;
       (r, b', fo') = run_backup bad 5 False empty_db ''default'' \<lparr>bk_Dir = ''/b'', bk_Keep = 1, bk_lastAttempt = []\<rparr> []
   in run_backup good_disk 7 False empty_db ''default'' b' fo' = (([], None), b', fo')"
proof -
  let ?bad = "good_disk\<lparr>k_mkdir := \<lambda>_. Some (Msg (lit ''no space left''))\<rparr>"
  obtain dest err b' fo' where r: "run_backup ?bad 5 False empty_db ''default''
      \<lparr>bk_Dir = ''/b'', bk_Keep = 1, bk_lastAttempt = []\<rparr> [] = ((dest, err), b', fo')" by (metis prod_cases4 surj_pair)
  then have "err \<noteq> None"
    by (auto simp: run_backup_def Let_def present_def format_day_def good_disk_def simp del: lit_simps split: prod.splits if_splits)
  moreover have "7 div day_ns = 5 div day_ns" by (simp add: day_ns_def)
  ultimately have "run_backup good_disk 7 False empty_db ''default'' b' fo' = (([], None), b', fo')"
    using one_attempt_a_day [where k = ?bad and now = 5 and inTx = False and d = empty_db and label = "''default''"
        and b = "\<lparr>bk_Dir = ''/b'', bk_Keep = 1, bk_lastAttempt = []\<rparr>" and fo = "[]"
        and now' = 7 and k' = good_disk and inTx' = False and d' = empty_db and label' = "''default''" and fo'' = fo'] r by simp
  then show ?thesis by (simp add: r del: lit_simps)
qed

end
