(* ===== verification/StoreLaws.thy ===== *)
theory StoreLaws
  imports Store
begin

text \<open>
  What the store promises. \<open>db_ok\<close> is the schema's contract (keys, foreign keys, checks), kept
  by every generated query (\<open>db_step\<close>). The rest are the contracts its callers rely on: a
  locale \<open>ledger\<close> for the idempotency ledger, interpreted on \<open>recordSyncedTrack\<close>; decisions
  in the review queue outlive a re-queue; pruning runs never touches the newest ones; a
  transaction happens entirely or not at all; a watermark reads back as written, cut to
  milliseconds.
\<close>

subsection \<open>The schema\<close>

definition db_ok :: "db \<Rightarrow> bool" where
  "db_ok d \<longleftrightarrow>
     distinct (map ar_id (accounts d)) \<and> distinct (map ar_label (accounts d)) \<and>
     (\<forall>a\<in>set (accounts d). ar_id a < next_account d) \<and>
     distinct (map sr_id (synced_tracks d)) \<and> (\<forall>r\<in>set (synced_tracks d). sr_id r < next_synced d) \<and>
     distinct (map (\<lambda>r. (sr_account r, sr_track r, sr_playlist r)) (synced_tracks d)) \<and>
     distinct (map rr_id (review_queue d)) \<and> (\<forall>r\<in>set (review_queue d). rr_id r < next_review d) \<and>
     distinct (map (\<lambda>r. (rr_account r, rr_track r)) (review_queue d)) \<and>
     (\<forall>r\<in>set (review_queue d). rr_reason r \<in> set reasons \<and> rr_status r \<in> set statuses) \<and>
     distinct (map ru_id (sync_runs d)) \<and> (\<forall>r\<in>set (sync_runs d). ru_id r < next_run d) \<and>
     (\<forall>r\<in>set (synced_tracks d). account_exists (sr_account r) d) \<and>
     (\<forall>r\<in>set (review_queue d). account_exists (rr_account r) d) \<and>
     (\<forall>r\<in>set (sync_runs d). account_exists (ru_account r) d)"

inductive db_step :: "db \<Rightarrow> db \<Rightarrow> bool" where
  step_upsert: "db_step d (snd (upsertAccount now l m p d))"
| step_token: "db_step d (snd (setSpotifyRefreshToken t i d))"
| step_clear_token: "db_step d (snd (clearSpotifyRefreshTokenIf i t d))"
| step_watermark: "db_step d (snd (setWatermark w i d))"
| step_clear_watermark: "db_step d (snd (clearWatermark i d))"
| step_record: "db_step d (snd (recordSyncedTrack now p d))"
| step_forget: "db_step d (snd (forgetSyncedTrack i t d))"
| step_forget_all: "db_step d (snd (forgetAllSyncedTracks i d))"
| step_enqueue: "db_step d (snd (enqueueReview now q d))"
| step_resolve: "db_step d (snd (resolveReview now st i t d))"
| step_start: "db_step d (snd (startSyncRun i at0 dry d))"
| step_finish: "db_step d (snd (finishSyncRun f a b c e err k i d))"
| step_prune: "db_step d (snd (pruneSyncRuns i before keep d))"

lemma account_exists_update:
  "(\<And>a. p a \<Longrightarrow> ar_id (f a) = ar_id a) \<Longrightarrow>
   account_exists i (d\<lparr>accounts := update_where p f (accounts d)\<rparr>) \<longleftrightarrow> account_exists i d"
  by (auto simp: account_exists_def set_update_where split: if_splits)

lemma account_exists_frame [simp]:
  "account_exists i (d\<lparr>synced_tracks := x\<rparr>) = account_exists i d"
  "account_exists i (d\<lparr>review_queue := y\<rparr>) = account_exists i d"
  "account_exists i (d\<lparr>sync_runs := z\<rparr>) = account_exists i d"
  "account_exists i (d\<lparr>next_synced := n\<rparr>) = account_exists i d"
  "account_exists i (d\<lparr>next_review := n\<rparr>) = account_exists i d"
  "account_exists i (d\<lparr>next_run := n\<rparr>) = account_exists i d"
  "account_exists i (d\<lparr>next_account := n\<rparr>) = account_exists i d"
  by (simp_all add: account_exists_def)

lemma account_exists_append:
  "account_exists i (d\<lparr>accounts := accounts d @ [a]\<rparr>) \<longleftrightarrow> account_exists i d \<or> ar_id a = i"
  by (auto simp: account_exists_def)

lemma db_ok_update_accounts:
  assumes "db_ok d" and "\<And>a. p a \<Longrightarrow> ar_id (f a) = ar_id a \<and> ar_label (f a) = ar_label a"
  shows "db_ok (d\<lparr>accounts := update_where p f (accounts d)\<rparr>)"
proof -
  have "map ar_id (update_where p f (accounts d)) = map ar_id (accounts d)"
    "map ar_label (update_where p f (accounts d)) = map ar_label (accounts d)"
    using assms(2) by (auto intro: map_update_where)
  moreover have "\<forall>a\<in>set (update_where p f (accounts d)). ar_id a < next_account d"
    using assms by (auto simp: set_update_where db_ok_def)
  ultimately show ?thesis
    using assms account_exists_update [of p f _ d] by (simp add: db_ok_def)
qed

lemma find_None_label:
  "List.find (\<lambda>a. ar_label a = l) xs = None \<Longrightarrow> l \<notin> ar_label ` set xs"
  by (auto simp: find_None_iff)

lemma db_ok_upsert: "db_ok d \<Longrightarrow> db_ok (snd (upsertAccount now l m p d))"
proof (cases "List.find (\<lambda>a. ar_label a = l) (accounts d)")
  case (Some a)
  assume "db_ok d"
  with Some show ?thesis by (auto simp: upsertAccount_def Let_def intro!: db_ok_update_accounts)
next
  case None
  assume ok: "db_ok d"
  let ?a = "\<lparr>ar_id = next_account d, ar_label = l, ar_member = m, ar_playlist = p, ar_token = [],
             ar_watermark = [], ar_created = format_time now\<rparr>"
  have "db_ok (d\<lparr>accounts := accounts d @ [?a], next_account := next_account d + 1\<rparr>)"
    using ok find_None_label [OF None] unfolding db_ok_def by (auto simp: account_exists_def)
  with None show ?thesis by (simp add: upsertAccount_def Let_def)
qed

lemma db_ok_record: "db_ok d \<Longrightarrow> db_ok (snd (recordSyncedTrack now p d))"
  unfolding recordSyncedTrack_def db_ok_def same_synced_def by (auto simp: less_Suc_eq)

lemma db_ok_delete_synced: "db_ok d \<Longrightarrow> db_ok (d\<lparr>synced_tracks := delete_where p (synced_tracks d)\<rparr>)"
  by (simp add: db_ok_def distinct_map_delete_where)

lemma db_ok_update_reviews:
  assumes "db_ok d"
    and "\<And>r. p r \<Longrightarrow> rr_id (f r) = rr_id r \<and> rr_account (f r) = rr_account r \<and> rr_track (f r) = rr_track r"
    and "\<And>r. r \<in> set (review_queue d) \<Longrightarrow> p r \<Longrightarrow> rr_reason (f r) \<in> set reasons \<and> rr_status (f r) \<in> set statuses"
  shows "db_ok (d\<lparr>review_queue := update_where p f (review_queue d)\<rparr>)"
proof -
  have "map rr_id (update_where p f (review_queue d)) = map rr_id (review_queue d)"
    "map (\<lambda>r. (rr_account r, rr_track r)) (update_where p f (review_queue d))
      = map (\<lambda>r. (rr_account r, rr_track r)) (review_queue d)"
    using assms(2) by (auto intro: map_update_where)
  moreover have "\<forall>r\<in>set (update_where p f (review_queue d)).
      rr_id r < next_review d \<and> rr_reason r \<in> set reasons \<and> rr_status r \<in> set statuses \<and> account_exists (rr_account r) d"
    using assms by (auto simp: set_update_where db_ok_def)
  ultimately show ?thesis using assms(1) by (simp add: db_ok_def)
qed

lemma db_ok_enqueue: "db_ok d \<Longrightarrow> db_ok (snd (enqueueReview now q d))"
proof -
  assume ok: "db_ok d"
  consider "rr_reason q \<notin> set reasons"
    | "rr_reason q \<in> set reasons" "\<exists>r\<in>set (review_queue d). same_review (rr_account q) (rr_track q) r"
    | "rr_reason q \<in> set reasons" "\<not> (\<exists>r\<in>set (review_queue d). same_review (rr_account q) (rr_track q) r)" by blast
  then show ?thesis
  proof cases
    case 1
    with ok show ?thesis by (simp add: enqueueReview_def)
  next
    case 2
    have "db_ok (d\<lparr>review_queue :=
        update_where (same_review (rr_account q) (rr_track q)) (refresh_review q) (review_queue d)\<rparr>)"
      using ok 2(1) by (intro db_ok_update_reviews) (auto simp: refresh_review_def db_ok_def)
    with 2 show ?thesis by (simp add: enqueueReview_def)
  next
    case 3
    then have "(rr_account q, rr_track q) \<notin> (\<lambda>r. (rr_account r, rr_track r)) ` set (review_queue d)"
      by (auto simp: same_review_def)
    with ok 3 show ?thesis
      by (auto simp: enqueueReview_def db_ok_def statuses_def)
  qed
qed

lemma db_ok_resolve: "db_ok d \<Longrightarrow> db_ok (snd (resolveReview now st i t d))"
proof (cases "\<exists>r\<in>set (review_queue d). same_review i t r")
  case True
  assume ok: "db_ok d"
  have "db_ok (d\<lparr>review_queue := update_where (same_review i t)
      (\<lambda>r. r\<lparr>rr_status := st, rr_resolved := Some (format_time now)\<rparr>) (review_queue d)\<rparr>)" if "st \<in> set statuses"
    using ok that by (intro db_ok_update_reviews) (auto simp: db_ok_def)
  with ok True show ?thesis by (simp add: resolveReview_def Let_def count_where_pos)
next
  case False
  assume "db_ok d"
  with False show ?thesis
    by (auto simp: resolveReview_def Let_def count_where_pos intro!: db_ok_update_reviews)
qed

lemma db_ok_runs:
  "db_ok d \<Longrightarrow> db_ok (snd (startSyncRun i st dry d))"
  "db_ok d \<Longrightarrow> db_ok (snd (finishSyncRun f a b c e err k i d))"
  "db_ok d \<Longrightarrow> db_ok (snd (pruneSyncRuns i before keep d))"
proof -
  assume ok: "db_ok d"
  show "db_ok (snd (startSyncRun i st dry d))"
    using ok by (auto simp: startSyncRun_def db_ok_def Let_def)
  show "db_ok (snd (pruneSyncRuns i before keep d))"
    using ok by (simp add: pruneSyncRuns_def db_ok_def distinct_map_delete_where)
  have "map ru_id (update_where (\<lambda>r. ru_id r = i) (\<lambda>r. r\<lparr>ru_finished := Some f, ru_fetched := a,
      ru_added := b, ru_queued := c, ru_skipped := e, ru_error := err, ru_kind := k\<rparr>) (sync_runs d)) = map ru_id (sync_runs d)"
    by (rule map_update_where) simp
  with ok show "db_ok (snd (finishSyncRun f a b c e err k i d))"
    by (auto simp: finishSyncRun_def db_ok_def set_update_where)
qed

lemma db_step_ok: "db_step d d' \<Longrightarrow> db_ok d \<Longrightarrow> db_ok d'"
proof (induction rule: db_step.induct)
  case (step_token d t i)
  then show ?case by (auto simp: setSpotifyRefreshToken_def intro!: db_ok_update_accounts)
next
  case (step_clear_token d i t)
  then show ?case by (auto simp: clearSpotifyRefreshTokenIf_def Let_def intro!: db_ok_update_accounts)
next
  case (step_watermark d w i)
  then show ?case by (auto simp: setWatermark_def intro!: db_ok_update_accounts)
next
  case (step_clear_watermark d i)
  then show ?case by (auto simp: clearWatermark_def intro!: db_ok_update_accounts)
next
  case (step_forget d i t)
  then show ?case by (simp add: forgetSyncedTrack_def Let_def db_ok_delete_synced)
next
  case (step_forget_all d i)
  then show ?case by (simp add: forgetAllSyncedTracks_def db_ok_delete_synced)
qed (simp_all only: db_ok_upsert db_ok_record db_ok_enqueue db_ok_resolve db_ok_runs)

lemma db_ok_empty: "db_ok empty_db"
  by (simp add: db_ok_def empty_db_def)

text \<open>
  C26: the schema's contract holds in every database the program can produce. Whatever queries
  run in whatever order, row ids and the \<open>UNIQUE\<close> keys stay unique (one ledger row per
  account, track and playlist; one queue row per account and track), reasons and statuses stay
  within their \<open>CHECK\<close> lists, and no row refers to a missing account.
\<close>

theorem db_reachable_ok: "db_step\<^sup>*\<^sup>* empty_db d \<Longrightarrow> db_ok d"
  by (induction rule: rtranclp_induct) (simp_all add: db_ok_empty db_step_ok)

theorem db_reachable_ok_witness:
  "db_ok (snd (upsertAccount 0 ''default'' ''7'' ''pl'' empty_db))"
  by (rule db_reachable_ok) (rule r_into_rtranclp, rule step_upsert)

subsection \<open>The ledger as an interface\<close>

text \<open>
  What the sync pass needs of a ledger: recording an entry makes its key present, for good and
  without disturbing other keys; recording a key twice changes nothing.
\<close>

locale ledger =
  fixes holds :: "'d \<Rightarrow> 'k \<Rightarrow> bool"
    and put :: "'e \<Rightarrow> 'd \<Rightarrow> 'd"
    and key :: "'e \<Rightarrow> 'k"
    and ok :: "'e \<Rightarrow> 'd \<Rightarrow> bool"
  assumes holds_put: "ok e d \<Longrightarrow> holds (put e d) k \<longleftrightarrow> k = key e \<or> holds d k"
    and put_again: "holds d (key e) \<Longrightarrow> put e d = d"
    and ok_put: "ok e d \<Longrightarrow> ok e' d \<Longrightarrow> ok e' (put e d)"
begin

lemma ok_fold: "\<forall>e\<in>set es. ok e d \<Longrightarrow> ok e' d \<Longrightarrow> ok e' (fold put es d)"
  by (induction es arbitrary: d) (auto simp: ok_put)

lemma holds_fold: "\<forall>e\<in>set es. ok e d \<Longrightarrow> holds (fold put es d) k \<longleftrightarrow> k \<in> key ` set es \<or> holds d k"
proof (induction es arbitrary: d)
  case (Cons e es)
  then have "holds (fold put es (put e d)) k \<longleftrightarrow> k \<in> key ` set es \<or> holds (put e d) k"
    by (simp add: ok_put)
  with Cons.prems show ?case by (auto simp: holds_put)
qed simp

lemma fold_present: "\<forall>e\<in>set es. holds d (key e) \<Longrightarrow> fold put es d = d"
  by (induction es) (simp_all add: put_again)

lemma fold_twice:
  assumes "\<forall>e\<in>set es. ok e d"
  shows "fold put es (fold put es d) = fold put es d"
  by (rule fold_present) (use holds_fold [OF assms] in auto)

end

definition ledger_key :: "synced_row \<Rightarrow> int \<times> int \<times> string" where
  "ledger_key r = (sr_account r, sr_track r, sr_playlist r)"

definition synced :: "db \<Rightarrow> int \<times> int \<times> string \<Rightarrow> bool" where
  "synced d k \<longleftrightarrow> k \<in> ledger_key ` set (synced_tracks d)"

text \<open>An entry is what is recorded and the time on the database's clock.\<close>

fun record_row :: "gotime \<times> synced_row \<Rightarrow> db \<Rightarrow> db" where
  "record_row (now, p) d = snd (recordSyncedTrack now p d)"

definition entry_key :: "gotime \<times> synced_row \<Rightarrow> int \<times> int \<times> string" where
  "entry_key e = ledger_key (snd e)"

definition entry_ok :: "gotime \<times> synced_row \<Rightarrow> db \<Rightarrow> bool" where
  "entry_ok e d \<longleftrightarrow> account_exists (sr_account (snd e)) d"

lemma synced_same: "synced d (a, t, p) \<longleftrightarrow> (\<exists>r\<in>set (synced_tracks d). same_synced a t p r)"
  by (auto simp: synced_def ledger_key_def same_synced_def image_iff)

interpretation synced_ledger: ledger synced record_row entry_key entry_ok
proof
  fix e d k
  assume "entry_ok e d"
  then show "synced (record_row e d) k \<longleftrightarrow> k = entry_key e \<or> synced d k"
    by (cases k; cases e)
      (auto simp: recordSyncedTrack_def synced_same same_synced_def ledger_key_def entry_ok_def entry_key_def)
next
  fix d e
  assume "synced d (entry_key e)"
  then show "record_row e d = d"
    by (cases e) (simp add: recordSyncedTrack_def entry_key_def ledger_key_def synced_same)
next
  fix e e' d
  assume "entry_ok e d" "entry_ok e' d"
  then show "entry_ok e' (record_row e d)"
    by (cases e) (simp add: recordSyncedTrack_def entry_ok_def)
qed

text \<open>
  The ledger is idempotent. Recording a batch of adds makes exactly those
  (account, track, playlist) keys present besides what was there, and recording the same batch
  again changes nothing at all, whatever the batch contains and however it repeats itself.
\<close>

theorem record_batch:
  assumes "\<forall>e\<in>set es. entry_ok e d"
  shows "(synced (fold record_row es d) k \<longleftrightarrow> k \<in> entry_key ` set es \<or> synced d k) \<and>
         fold record_row es (fold record_row es d) = fold record_row es d"
  using synced_ledger.holds_fold [OF assms] synced_ledger.fold_twice [OF assms] by blast

subsection \<open>Reviews\<close>

definition queued :: "db \<Rightarrow> int \<Rightarrow> int \<Rightarrow> bool" where
  "queued d acct track \<longleftrightarrow> (\<exists>r\<in>set (review_queue d). same_review acct track r)"

definition decision :: "db \<Rightarrow> int \<Rightarrow> int \<Rightarrow> (string \<times> string option) option" where
  "decision d acct track = map_option (\<lambda>r. (rr_status r, rr_resolved r)) (List.find (same_review acct track) (review_queue d))"

lemma find_update_where:
  "(\<And>r. q (f r) = q r) \<Longrightarrow>
   List.find q (update_where p f xs) = map_option (\<lambda>r. if p r then f r else r) (List.find q xs)"
  by (induction xs) (auto simp: update_where_def)

lemma same_review_refresh [simp]: "same_review a t (refresh_review q r) = same_review a t r"
  by (simp add: same_review_def refresh_review_def)

lemma find_append: "List.find p (xs @ ys) = (case List.find p xs of None \<Rightarrow> List.find p ys | Some x \<Rightarrow> Some x)"
  by (induction xs) auto

lemma queued_update:
  "(\<And>r. same_review a t (f r) = same_review a t r) \<Longrightarrow>
   queued (d\<lparr>review_queue := update_where p f (review_queue d)\<rparr>) a t \<longleftrightarrow> queued d a t"
  by (auto simp: queued_def update_where_def)

lemma not_queued_decision: "decision d a t = None \<longleftrightarrow> \<not> queued d a t"
  by (auto simp: decision_def queued_def find_None_iff)

lemma enqueue_decisions:
  "case enqueueReview now q d of
     (Inl e, d') \<Rightarrow> d' = d
   | (Inr _, d') \<Rightarrow>
       queued d' (rr_account q) (rr_track q) \<and>
       decision d' acct track =
         (if queued d acct track then decision d acct track
          else if acct = rr_account q \<and> track = rr_track q then Some (''pending'', None) else None)"
proof (cases "rr_reason q \<in> set reasons")
  case False
  then show ?thesis by (simp add: enqueueReview_def)
next
  case reason: True
  let ?a = "rr_account q" and ?t = "rr_track q"
  show ?thesis
  proof (cases "queued d ?a ?t")
    case True
    then have r: "enqueueReview now q d = (Inr (), d\<lparr>review_queue :=
        update_where (same_review ?a ?t) (refresh_review q) (review_queue d)\<rparr>)"
      using reason by (simp add: enqueueReview_def queued_def)
    have "queued (d\<lparr>review_queue := update_where (same_review ?a ?t) (refresh_review q) (review_queue d)\<rparr>) ?a ?t"
      using True by (simp add: queued_update)
    moreover have "decision (d\<lparr>review_queue := update_where (same_review ?a ?t) (refresh_review q) (review_queue d)\<rparr>) acct track
        = decision d acct track"
      by (cases "List.find (same_review acct track) (review_queue d)")
        (simp_all add: decision_def find_update_where [of "same_review acct track", OF same_review_refresh]
          refresh_review_def)
    ultimately show ?thesis using True by (auto simp: r not_queued_decision)
  next
    case False
    show ?thesis
    proof (cases "account_exists ?a d")
      case True
      let ?r = "q\<lparr>rr_id := next_review d, rr_status := ''pending'', rr_created := format_time now, rr_resolved := None\<rparr>"
      have r: "enqueueReview now q d = (Inr (), d\<lparr>review_queue := review_queue d @ [?r], next_review := next_review d + 1\<rparr>)"
        using reason False True by (simp add: enqueueReview_def queued_def)
      have "decision (d\<lparr>review_queue := review_queue d @ [?r], next_review := next_review d + 1\<rparr>) acct track =
          (if queued d acct track then decision d acct track
           else if acct = ?a \<and> track = ?t then Some (''pending'', None) else None)"
        using not_queued_decision [of d acct track]
        by (cases "List.find (same_review acct track) (review_queue d)")
          (auto simp: decision_def find_append same_review_def)
      then show ?thesis by (auto simp: r queued_def same_review_def)
    next
      case False
      with \<open>\<not> queued d ?a ?t\<close> reason show ?thesis by (simp add: enqueueReview_def queued_def)
    qed
  qed
qed

text \<open>
  A re-queued like never undoes a human's decision. Enqueueing keeps the status and the
  time of resolution of every row already in the queue; only a track that was not queued gets a
  row, pending and unresolved; and after a successful enqueue the track is in the queue.
\<close>

theorem enqueue_keeps_decisions:
  "case enqueueReview now q d of
     (Inl e, d') \<Rightarrow> d' = d
   | (Inr _, d') \<Rightarrow>
       queued d' (rr_account q) (rr_track q) \<and>
       decision d' acct track =
         (if queued d acct track then decision d acct track
          else if acct = rr_account q \<and> track = rr_track q then Some (''pending'', None) else None)"
  by (rule enqueue_decisions)

subsection \<open>Pruning runs\<close>

lemma take_filter_prefix:
  "\<forall>x\<in>set (take n xs). P x \<Longrightarrow> take n (filter P xs) = take n xs"
proof -
  assume "\<forall>x\<in>set (take n xs). P x"
  then have "filter P xs = take n xs @ filter P (drop n xs)"
    by (metis append_take_drop_id filter_append filter_id_conv)
  then show ?thesis by (cases "n \<le> length xs") simp_all
qed

lemma newest_runs_prune:
  "newest_runs acct (snd (pruneSyncRuns acct before keep d)) =
   filter (\<lambda>r. \<not> prunable acct before keep d r) (newest_runs acct d)"
  by (simp add: newest_runs_def pruneSyncRuns_def delete_where_def filter_sort conj_commute)

text \<open>
  Pruning never touches what the health rule reads. The newest \<open>keep\<close> runs of the account
  are the same before and after; a run that is still open, that started at or after the cutoff,
  or that belongs to another account survives; and the count returned is the number of rows
  that went.
\<close>

theorem prune_keeps_newest:
  "listSyncRuns acct keep (snd (pruneSyncRuns acct before keep d)) =
     (fst (listSyncRuns acct keep d), snd (pruneSyncRuns acct before keep d)) \<and>
   set (sync_runs (snd (pruneSyncRuns acct before keep d))) =
     {r \<in> set (sync_runs d).
        \<not> (ru_account r = acct \<and> ru_finished r \<noteq> None \<and> ru_started r < before \<and>
           ru_id r \<notin> ru_id ` set (limit keep (newest_runs acct d)))} \<and>
   fst (pruneSyncRuns acct before keep d) =
     Inr (int (length (sync_runs d)) - int (length (sync_runs (snd (pruneSyncRuns acct before keep d)))))"
proof (intro conjI)
  let ?p = "prunable acct before keep d"
  have "limit keep (filter (\<lambda>r. \<not> ?p r) (newest_runs acct d)) = limit keep (newest_runs acct d)"
  proof (cases "keep < 0")
    case True
    then have "\<forall>r\<in>set (newest_runs acct d). \<not> ?p r" by (auto simp: prunable_def limit_def)
    then show ?thesis by (simp add: limit_def True filter_id_conv)
  next
    case False
    then have "\<forall>r\<in>set (take (nat keep) (newest_runs acct d)). \<not> ?p r" by (auto simp: prunable_def limit_def)
    then show ?thesis using False by (simp add: limit_def take_filter_prefix)
  qed
  then show "listSyncRuns acct keep (snd (pruneSyncRuns acct before keep d)) =
      (fst (listSyncRuns acct keep d), snd (pruneSyncRuns acct before keep d))"
    by (simp add: listSyncRuns_def newest_runs_prune)
  show "fst (pruneSyncRuns acct before keep d) =
      Inr (int (length (sync_runs d)) - int (length (sync_runs (snd (pruneSyncRuns acct before keep d)))))"
    using sum_length_filter_compl [of ?p "sync_runs d"]
    by (simp add: pruneSyncRuns_def count_where_def delete_where_def)
qed (auto simp: pruneSyncRuns_def prunable_def)

subsection \<open>Tokens\<close>

lemma filter_eq_single: "distinct xs \<Longrightarrow> a \<in> set xs \<Longrightarrow> filter (\<lambda>b. b = a) xs = [a]"
  by (induction xs) (auto simp: filter_empty_conv)

text \<open>
  Clearing a rejected token is a compare-and-clear. If the stored token is the rejected one
  it is cleared and that is reported; if another process has stored a different one, the tables
  are left exactly as they were.
\<close>

theorem clear_token_if:
  assumes "db_ok d" and "a \<in> set (accounts d)"
  shows "clearSpotifyRefreshTokenIf (ar_id a) rejected d =
    (if ar_token a = rejected
     then (Inr 1, snd (setSpotifyRefreshToken [] (ar_id a) d)) else (Inr 0, d))"
proof -
  have uniq: "b \<in> set (accounts d) \<Longrightarrow> ar_id b = ar_id a \<longleftrightarrow> b = a" for b
    using assms by (auto simp: db_ok_def distinct_map inj_on_def)
  have f: "filter (\<lambda>b. ar_id b = ar_id a) (accounts d) = [a]"
  proof -
    have "filter (\<lambda>b. ar_id b = ar_id a) (accounts d) = filter (\<lambda>b. b = a) (accounts d)"
      using uniq by (intro filter_cong) auto
    also have "\<dots> = [a]" using assms by (intro filter_eq_single) (auto simp: db_ok_def distinct_map)
    finally show ?thesis .
  qed
  then have "filter (\<lambda>b. ar_id b = ar_id a \<and> ar_token b = rejected) (accounts d) =
      (if ar_token a = rejected then [a] else [])"
    using f filter_filter [of "\<lambda>b. ar_token b = rejected" "\<lambda>b. ar_id b = ar_id a" "accounts d"]
    by (cases "ar_token a = rejected") simp_all
  moreover have "update_where (\<lambda>b. ar_id b = ar_id a \<and> ar_token b = rejected) f (accounts d) =
      (if ar_token a = rejected then update_where (\<lambda>b. ar_id b = ar_id a) f (accounts d) else accounts d)" for f
    using uniq by (auto simp: update_where_def intro!: map_idI)
  ultimately show ?thesis
    by (auto simp: clearSpotifyRefreshTokenIf_def setSpotifyRefreshToken_def Let_def count_where_def)
qed

subsection \<open>Transactions\<close>

lemma query_noop:
  "query E (\<lambda>_ d. (Inr (), d)) s =
     (case e_fault E (s_tick s) of Some e \<Rightarrow> Inl e | None \<Rightarrow> Inr (), s\<lparr>s_tick := s_tick s + 1\<rparr>)"
  by (cases "e_fault E (s_tick s)") (simp_all add: query_def)

text \<open>
  A transaction happens entirely or not at all. When \<open>InTx\<close> fails, because the begin, the
  body or the commit failed, the tables are what they were before; when it succeeds they are what
  the body made of them, and the result is the body's. Inside a transaction it refuses at once
  and does not run the body.
\<close>

theorem InTx_atomic:
  "(case InTx E body s of
      (Inl e, s') \<Rightarrow> s_db s' = s_db s
    | (Inr x, s') \<Rightarrow> (let (r, t) = body (s\<lparr>s_tick := s_tick s + 1, s_tx := True\<rparr>)
                     in r = Inr x \<and> s_db s' = s_db t)) \<and>
   InTx E body (s\<lparr>s_tx := True\<rparr>) = (Inl nested_tx, s\<lparr>s_tx := True\<rparr>)"
  by (auto simp: InTx_def query_noop split: option.split sum.split prod.split)

subsection \<open>The watermark\<close>

lemma find_label:
  "db_ok d \<Longrightarrow> a \<in> set (accounts d) \<Longrightarrow> List.find (\<lambda>b. ar_label b = ar_label a) (accounts d) = Some a"
proof -
  assume "db_ok d" and a: "a \<in> set (accounts d)"
  then have "distinct (map ar_label (accounts d))" by (simp add: db_ok_def)
  with a show ?thesis
  proof (induction "accounts d" arbitrary: d)
    case (Cons b bs)
    then show ?case
    proof (cases "a = b")
      case True
      then show ?thesis using Cons.hyps(2) [symmetric] by simp
    next
      case False
      then have "a \<in> set bs" using Cons.prems(1) Cons.hyps(2) [symmetric] by simp
      moreover from this have "ar_label b \<noteq> ar_label a"
        using Cons.prems(2) Cons.hyps(2) [symmetric] by (auto simp: image_iff)
      ultimately show ?thesis
        using Cons.hyps(1) [of "d\<lparr>accounts := bs\<rparr>"] Cons.prems(2) Cons.hyps(2) [symmetric] by simp
    qed
  qed simp
qed

text \<open>
  C27: a watermark survives the trip through its text column. Written and read back it is the same
  instant cut to milliseconds, so it never moves forward and moves back by less than one
  millisecond; and the text order of two timestamps, which SQL compares, is their order in time.
\<close>

theorem watermark_roundtrip:
  assumes "db_ok (s_db s)" and "a \<in> set (accounts (s_db s))" and "printable t" and "printable u"
    and "e_fault E (s_tick s) = None" and "e_fault E (Suc (s_tick s)) = None"
  shows "(case SetWatermark E (ar_id a) t s of (r, s1) \<Rightarrow>
            r = Inr () \<and>
            fst (GetAccount E (ar_label a) s1) = Inr ((toAccount a)\<lparr>A_WatermarkLikedAt := cut t\<rparr>)) \<and>
         cut t \<le> t \<and> t < cut t + 10 ^ 6 \<and>
         (format_time t < format_time u \<longleftrightarrow> cut t < cut u)"
proof -
  let ?d = "snd (setWatermark (format_time t) (ar_id a) (s_db s))"
  let ?a = "a\<lparr>ar_watermark := format_time t\<rparr>"
  have "db_ok ?d" by (rule db_step_ok [OF step_watermark assms(1)])
  moreover have "?a \<in> set (accounts ?d)"
    using assms(2) by (auto simp: setWatermark_def set_update_where image_iff)
  ultimately have "List.find (\<lambda>b. ar_label b = ar_label a) (accounts ?d) = Some ?a"
    using find_label [of ?d ?a] by simp
  moreover have "toAccount ?a = (toAccount a)\<lparr>A_WatermarkLikedAt := cut t\<rparr>"
    using parse_format_cut [OF assms(3)] by (simp add: toAccount_def)
  ultimately show ?thesis
    using assms(5,6) cut_le [of t] cut_near [of t] format_time_less [OF assms(3,4)]
    by (simp add: SetWatermark_def GetAccount_def query_def getAccountByLabel_def setWatermark_def)
qed

subsection \<open>Witnesses\<close>

definition one_account :: db where
  "one_account = snd (upsertAccount 63845000000000000000 ''default'' ''7'' ''PL'' empty_db)"

definition default_row :: account_row where
  "default_row =
     \<lparr>ar_id = 1, ar_label = ''default'', ar_member = ''7'', ar_playlist = ''PL'', ar_token = [],
      ar_watermark = [], ar_created = format_time 63845000000000000000\<rparr>"

lemma one_account: "accounts one_account = [default_row]" "db_ok one_account"
proof -
  show "accounts one_account = [default_row]"
    by (simp add: one_account_def default_row_def upsertAccount_def empty_db_def Let_def)
  show "db_ok one_account" unfolding one_account_def by (rule db_ok_upsert [OF db_ok_empty])
qed

definition calm :: env where
  "calm = \<lparr>e_fault = \<lambda>_. None, e_now = \<lambda>n. 63845000000000000000 + int n * 1000000000\<rparr>"

definition like_row :: "int \<Rightarrow> synced_row" where
  "like_row t = \<lparr>sr_id = 0, sr_account = 1, sr_track = t, sr_vote = 0, sr_spotify = ''x'', sr_playlist = ''PL'',
                 sr_artist = [], sr_title = [], sr_score = 1, sr_liked = [], sr_added = []\<rparr>"

theorem record_batch_witness:
  "synced (fold record_row [(0, like_row 5), (1, like_row 6), (2, like_row 5)] one_account) (1, 6, ''PL'')"
proof -
  let ?es = "[(0, like_row 5), (1, like_row 6), (2, like_row 5)]"
  have "\<forall>e\<in>set ?es. entry_ok e one_account"
    by (simp add: entry_ok_def account_exists_def one_account like_row_def default_row_def)
  from record_batch [OF this] have "synced (fold record_row ?es one_account) (1, 6, ''PL'')
      \<longleftrightarrow> (1, 6, ''PL'') \<in> entry_key ` set ?es \<or> synced one_account (1, 6, ''PL'')"
    by blast
  then show ?thesis by (simp add: entry_key_def ledger_key_def like_row_def)
qed

theorem clear_token_if_witness:
  "clearSpotifyRefreshTokenIf 1 ''stale'' one_account = (Inr 0, one_account)"
  using clear_token_if [of one_account default_row "''stale''"] by (simp add: one_account default_row_def)

theorem watermark_roundtrip_witness:
  "fst (GetAccount calm ''default''
     (snd (SetWatermark calm 1 63845000000123456789 \<lparr>s_db = one_account, s_tick = 0, s_tx = False\<rparr>)))
   = Inr ((toAccount default_row)\<lparr>A_WatermarkLikedAt := 63845000000123000000\<rparr>)"
proof -
  have "printable 63845000000123456789" "printable 0" by code_simp+
  from watermark_roundtrip [of "\<lparr>s_db = one_account, s_tick = 0, s_tx = False\<rparr>" default_row, OF _ _ this, of calm]
  have "case SetWatermark calm (ar_id default_row) 63845000000123456789 \<lparr>s_db = one_account, s_tick = 0, s_tx = False\<rparr> of
      (r, s1) \<Rightarrow> r = Inr () \<and> fst (GetAccount calm (ar_label default_row) s1)
        = Inr ((toAccount default_row)\<lparr>A_WatermarkLikedAt := cut 63845000000123456789\<rparr>)"
    by (simp add: one_account calm_def)
  then show ?thesis by (simp add: default_row_def cut_def split: prod.splits)
qed

end
