(* ===== verification/StoreOps.thy ===== *)
theory StoreOps
  imports StoreLaws
begin

text \<open>
  What the store's operations do, one operation at a time, in the form their callers use: which
  table may have changed and how, on success and on failure. Every operation leaves alone what
  is not the database (\<open>store.more\<close>: the network side of a larger world).
\<close>

subsection \<open>Frames\<close>

definition same_rest :: "'z store_scheme \<Rightarrow> 'z store_scheme \<Rightarrow> bool" where
  "same_rest w w' \<longleftrightarrow> store.more w' = store.more w \<and> s_tx w' = s_tx w \<and> s_tick w \<le> s_tick w'"

lemma same_rest_refl [simp]: "same_rest w w"
  by (simp add: same_rest_def)

lemma same_rest_trans: "same_rest w1 w2 \<Longrightarrow> same_rest w2 w3 \<Longrightarrow> same_rest w1 w3"
  by (simp add: same_rest_def)

lemma query_result:
  assumes "query E q w = (r, w')"
  shows "same_rest w w'" "s_tick w' = Suc (s_tick w)"
    "(\<exists>e. e_fault E (s_tick w) = Some e \<and> r = Inl e \<and> s_db w' = s_db w) \<or>
     e_fault E (s_tick w) = None \<and> q (e_now E (s_tick w)) (s_db w) = (r, s_db w')"
  using assms by (auto simp: query_def same_rest_def split: option.splits prod.splits)

lemma map_res_result:
  "map_res f g p = (r, w') \<Longrightarrow> \<exists>r0. p = (r0, w') \<and> r = map_sum f g r0"
  by (cases "(f, g, p)" rule: map_res.cases) auto

text \<open>A method whose query cannot change the tables, and one whose query changes nothing when it fails.\<close>

lemma read_op:
  assumes "map_res f g (query E q w) = (r, w')" and "\<And>now d. snd (q now d) = d"
  shows "same_rest w w'" "s_db w' = s_db w" "s_tick w' = Suc (s_tick w)"
    "\<And>x. r = Inr x \<Longrightarrow> \<exists>now y. fst (q now (s_db w)) = Inr y \<and> x = g y"
proof -
  obtain r0 where q: "query E q w = (r0, w')" and r: "r = map_sum f g r0"
    using map_res_result [OF assms(1)] by blast
  note Q = query_result [OF q]
  show "same_rest w w'" "s_tick w' = Suc (s_tick w)" by (rule Q)+
  show "s_db w' = s_db w" using Q(3) assms(2) by (metis snd_conv)
  show "\<exists>now y. fst (q now (s_db w)) = Inr y \<and> x = g y" if "r = Inr x" for x
    using Q(3) r that by (cases r0) (auto, metis fst_conv)
qed

definition fails_clean :: "(gotime \<Rightarrow> 'a sql) \<Rightarrow> bool" where
  "fails_clean q \<longleftrightarrow> (\<forall>now d e d'. q now d = (Inl e, d') \<longrightarrow> d' = d)"

lemma write_op:
  assumes "map_res f g (query E q w) = (r, w')" and clean: "fails_clean q"
  shows "same_rest w w'" "s_tick w' = Suc (s_tick w)"
    "\<And>e. r = Inl e \<Longrightarrow> s_db w' = s_db w"
    "\<And>x. r = Inr x \<Longrightarrow> \<exists>now y. q now (s_db w) = (Inr y, s_db w') \<and> x = g y \<and> now = e_now E (s_tick w)"
    "e_fault E (s_tick w) = None \<Longrightarrow> \<forall>now d. \<not> isl (fst (q now d)) \<Longrightarrow> \<exists>x. r = Inr x"
    "s_db w' = s_db w \<or> (\<exists>now y. q now (s_db w) = (Inr y, s_db w'))"
proof -
  obtain r0 where q: "query E q w = (r0, w')" and r: "r = map_sum f g r0"
    using map_res_result [OF assms(1)] by blast
  note Q = query_result [OF q]
  show "same_rest w w'" "s_tick w' = Suc (s_tick w)" by (rule Q)+
  show "s_db w' = s_db w" if "r = Inl e" for e
    using Q(3) r that clean by (cases r0) (auto simp: fails_clean_def)
  show "\<exists>now y. q now (s_db w) = (Inr y, s_db w') \<and> x = g y \<and> now = e_now E (s_tick w)" if "r = Inr x" for x
    using Q(3) r that by (cases r0) auto
  show "s_db w' = s_db w \<or> (\<exists>now y. q now (s_db w) = (Inr y, s_db w'))"
    using Q(3) clean by (cases r0) (auto simp: fails_clean_def)
  show "\<exists>x. r = Inr x" if "e_fault E (s_tick w) = None" "\<forall>now d. \<not> isl (fst (q now d))"
  proof -
    have "q (e_now E (s_tick w)) (s_db w) = (r0, s_db w')" using Q(3) that(1) by simp
    then have "\<not> isl r0" using that(2) by (metis fst_conv)
    then show ?thesis using r by (cases r0) auto
  qed
qed

subsection \<open>Frames of compound operations\<close>

lemma snd_map_res [simp]: "snd (map_res f g p) = snd p"
  by (cases "(f, g, p)" rule: map_res.cases) auto

text \<open>An operation stays within a relation that composes when each of its steps does.\<close>

definition confined :: "('z store_scheme \<Rightarrow> 'z store_scheme \<Rightarrow> bool) \<Rightarrow> ('z, 'a) op \<Rightarrow> bool" where
  "confined R f \<longleftrightarrow> (\<forall>w. R w (snd (f w)))"

lemma confined_apply: "confined R f \<Longrightarrow> f w = (r, w') \<Longrightarrow> R w w'"
  unfolding confined_def by (metis snd_conv)

locale op_frame =
  fixes R :: "'z store_scheme \<Rightarrow> 'z store_scheme \<Rightarrow> bool"
  assumes stays: "R w w"
    and composes: "R w1 w2 \<Longrightarrow> R w2 w3 \<Longrightarrow> R w1 w3"
begin

lemma const: "confined R (\<lambda>w. (r, w))"
  by (simp add: confined_def stays)

lemma bind: "confined R m \<Longrightarrow> (\<And>x. confined R (k x)) \<Longrightarrow> confined R (bind_op m k)"
  unfolding confined_def bind_op_def by (auto split: prod.split sum.split) (metis composes snd_conv)+

lemma cond: "confined R f \<Longrightarrow> confined R g \<Longrightarrow> confined R (if b then f else g)"
  by simp

end

subsection \<open>Reads\<close>

lemma GetAccount_result:
  assumes "GetAccount E label w = (r, w')"
  shows "same_rest w w'" "s_db w' = s_db w"
    "\<And>a. r = Inr a \<Longrightarrow> \<exists>row\<in>set (accounts (s_db w)). ar_label row = label \<and> a = toAccount row"
proof -
  note R = read_op [OF assms [unfolded GetAccount_def]]
  have s: "snd (getAccountByLabel label d) = d" for d by (simp add: getAccountByLabel_def split: option.split)
  show "same_rest w w'" "s_db w' = s_db w" using R(1,2) s by simp_all
  show "\<exists>row\<in>set (accounts (s_db w)). ar_label row = label \<and> a = toAccount row" if "r = Inr a" for a
    using R(4) [OF s that]
    by (auto simp: getAccountByLabel_def find_Some_iff split: option.splits intro: nth_mem)
qed

lemma IsSynced_result:
  assumes "IsSynced E acct track pl w = (r, w')"
  shows "same_rest w w'" "s_db w' = s_db w"
    "\<And>b. r = Inr b \<Longrightarrow> b = synced (s_db w) (acct, track, pl)"
proof -
  note R = read_op [OF assms [unfolded IsSynced_def]]
  have s: "snd (isTrackSynced acct track pl d) = d" for d by (simp add: isTrackSynced_def)
  show "same_rest w w'" "s_db w' = s_db w" using R(1,2) s by simp_all
  show "b = synced (s_db w) (acct, track, pl)" if "r = Inr b" for b
    using R(4) [OF s that] by (auto simp: isTrackSynced_def synced_same split: if_splits)
qed

subsection \<open>Writes\<close>

definition reviews_grow :: "db \<Rightarrow> db \<Rightarrow> bool" where
  "reviews_grow d d' \<longleftrightarrow>
     (\<exists>rq n. d' = d\<lparr>review_queue := rq, next_review := n\<rparr>) \<and>
     (\<forall>a t. queued d a t \<longrightarrow> decision d' a t = decision d a t)"

lemma reviews_grow_refl [simp]: "reviews_grow d d"
  unfolding reviews_grow_def by (auto intro!: exI [of _ "review_queue d"] exI [of _ "next_review d"])

lemma reviews_grow_queued: "reviews_grow d d' \<Longrightarrow> queued d a t \<Longrightarrow> queued d' a t"
  unfolding reviews_grow_def by (metis not_queued_decision)

lemma reviews_grow_trans: "reviews_grow d1 d2 \<Longrightarrow> reviews_grow d2 d3 \<Longrightarrow> reviews_grow d1 d3"
proof -
  assume g: "reviews_grow d1 d2" "reviews_grow d2 d3"
  then have "\<forall>a t. queued d1 a t \<longrightarrow> decision d3 a t = decision d1 a t"
    using reviews_grow_queued [OF g(1)] by (simp add: reviews_grow_def)
  moreover obtain rq n rq' n' where "d2 = d1\<lparr>review_queue := rq, next_review := n\<rparr>"
      "d3 = d2\<lparr>review_queue := rq', next_review := n'\<rparr>" using g unfolding reviews_grow_def by blast
  then have "d3 = d1\<lparr>review_queue := rq', next_review := n'\<rparr>" by simp
  ultimately show ?thesis unfolding reviews_grow_def by blast
qed

lemma reviews_grow_frame:
  assumes "reviews_grow d d'"
  shows "accounts d' = accounts d" "synced_tracks d' = synced_tracks d" "sync_runs d' = sync_runs d"
    "synced d' k = synced d k" "account_exists i d' = account_exists i d"
  using assms by (auto simp: reviews_grow_def synced_def account_exists_def)

lemma Enqueue_result:
  assumes "Enqueue E item w = (r, w')"
  shows "same_rest w w'" "reviews_grow (s_db w) (s_db w')"
    "\<And>x. r = Inr x \<Longrightarrow> queued (s_db w') (R_AccountID item) (R_DifmTrackID item)"
    "\<And>e. r = Inl e \<Longrightarrow> s_db w' = s_db w"
proof -
  let ?q = "\<lambda>now. enqueueReview now (review_params item)"
  note W = write_op [OF assms [unfolded Enqueue_def]]
  have err: "fails_clean ?q" by (auto simp: fails_clean_def enqueueReview_def split: if_splits)
  show "same_rest w w'" and "\<And>e. r = Inl e \<Longrightarrow> s_db w' = s_db w" using W(1,3) [OF err] by blast+
  have ok: "reviews_grow d d' \<and> queued d' (R_AccountID item) (R_DifmTrackID item)"
    if q: "?q now d = (Inr y, d')" for now d d' y
  proof -
    have "queued d' (R_AccountID item) (R_DifmTrackID item)"
      using enqueue_decisions [where now = now and q = "review_params item" and d = d] q by (simp add: review_params_def)
    moreover have "\<forall>a t. queued d a t \<longrightarrow> decision d' a t = decision d a t"
      using enqueue_decisions [where now = now and q = "review_params item" and d = d] q by simp
    moreover have "\<exists>rq n. d' = d\<lparr>review_queue := rq, next_review := n\<rparr>"
    proof -
      have "d' = d\<lparr>review_queue := review_queue d', next_review := next_review d'\<rparr>"
        using q by (auto simp: enqueueReview_def split: if_splits)
      then show ?thesis by blast
    qed
    ultimately show ?thesis unfolding reviews_grow_def by blast
  qed
  show "queued (s_db w') (R_AccountID item) (R_DifmTrackID item)" if "r = Inr x" for x
    using W(4) [OF err that] ok by blast
  show "reviews_grow (s_db w) (s_db w')"
    using W(6) [OF err] ok by auto
qed

definition runs_only :: "db \<Rightarrow> db \<Rightarrow> bool" where
  "runs_only d d' \<longleftrightarrow> (\<exists>rs n. d' = d\<lparr>sync_runs := rs, next_run := n\<rparr>)"

lemma runs_only_refl [simp]: "runs_only d d"
  unfolding runs_only_def by (auto intro!: exI [of _ "sync_runs d"] exI [of _ "next_run d"])

lemma runs_only_frame:
  assumes "runs_only d d'"
  shows "accounts d' = accounts d" "synced_tracks d' = synced_tracks d" "review_queue d' = review_queue d"
    "synced d' k = synced d k" "queued d' a t = queued d a t" "account_exists i d' = account_exists i d"
    "decision d' a t = decision d a t"
  using assms by (auto simp: runs_only_def synced_def queued_def account_exists_def decision_def)

subsection \<open>What is on record\<close>

text \<open>No track leaves the review queue, and only those of \<open>F\<close>, given by account and track, the ledger.\<close>

definition forgets_only :: "(int \<times> int) set \<Rightarrow> db \<Rightarrow> db \<Rightarrow> bool" where
  "forgets_only F d d' \<longleftrightarrow>
     (\<forall>a t. queued d a t \<longrightarrow> queued d' a t) \<and>
     (\<forall>a t pl. synced d (a, t, pl) \<longrightarrow> synced d' (a, t, pl) \<or> (a, t) \<in> F)"

abbreviation remembers :: "db \<Rightarrow> db \<Rightarrow> bool" where
  "remembers \<equiv> forgets_only {}"

lemma forgets_only_refl [simp]: "forgets_only F d d"
  by (simp add: forgets_only_def)

lemma forgets_only_trans: "forgets_only F d1 d2 \<Longrightarrow> forgets_only G d2 d3 \<Longrightarrow> forgets_only (F \<union> G) d1 d3"
  unfolding forgets_only_def by blast

lemma forgets_only_mono: "forgets_only F d d' \<Longrightarrow> F \<subseteq> G \<Longrightarrow> forgets_only G d d'"
  unfolding forgets_only_def by blast

lemma remembers_trans: "remembers d1 d2 \<Longrightarrow> remembers d2 d3 \<Longrightarrow> remembers d1 d3"
  using forgets_only_trans [of "{}" d1 d2 "{}" d3] by simp

lemma remembers_same:
  "synced_tracks d' = synced_tracks d \<Longrightarrow> review_queue d' = review_queue d \<Longrightarrow> forgets_only F d d'"
  by (simp add: forgets_only_def synced_def queued_def)

lemma remembers_grow: "reviews_grow d d' \<Longrightarrow> forgets_only F d d'"
  unfolding forgets_only_def using reviews_grow_queued reviews_grow_frame(4) by blast

lemma remembers_runs: "runs_only d d' \<Longrightarrow> forgets_only F d d'"
  using runs_only_frame(2,3) by (intro remembers_same) blast+

lemma remembers_record: "forgets_only F d (record_row (now, p) d)"
  by (auto simp: forgets_only_def recordSyncedTrack_def synced_def queued_def)

subsection \<open>Runs\<close>

lemma StartRun_result:
  assumes "StartRun E acct dry w = (r, w')"
  shows "same_rest w w'" "runs_only (s_db w) (s_db w')"
    "\<And>i. r = Inr i \<Longrightarrow> i = next_run (s_db w) \<and> account_exists acct (s_db w) \<and>
       (\<exists>row. sync_runs (s_db w') = sync_runs (s_db w) @ [row] \<and> ru_id row = i \<and> ru_account row = acct \<and>
              ru_finished row = None)"
    "\<And>e. r = Inl e \<Longrightarrow> s_db w' = s_db w"
proof -
  let ?q = "\<lambda>now. startSyncRun acct (format_time now) (if dry then 1 else 0)"
  note W = write_op [OF assms [unfolded StartRun_def]]
  have err: "fails_clean ?q" by (auto simp: fails_clean_def startSyncRun_def Let_def split: if_splits)
  show "same_rest w w'" by (rule W(1) [OF err])
  show "\<And>e. r = Inl e \<Longrightarrow> s_db w' = s_db w" by (rule W(3) [OF err])
  have ro: "runs_only d d'" if "?q now d = (Inr y, d')" for now d d' y
  proof -
    have "d' = d\<lparr>sync_runs := sync_runs d', next_run := next_run d'\<rparr>"
      using that by (auto simp: startSyncRun_def Let_def split: if_splits)
    then show ?thesis unfolding runs_only_def by blast
  qed
  show "runs_only (s_db w) (s_db w')"
    using W(6) [OF err] ro by auto
  show "i = next_run (s_db w) \<and> account_exists acct (s_db w) \<and>
       (\<exists>row. sync_runs (s_db w') = sync_runs (s_db w) @ [row] \<and> ru_id row = i \<and> ru_account row = acct \<and>
              ru_finished row = None)" if "r = Inr i" for i
  proof -
    from W(4) [OF err that] obtain now y where q: "?q now (s_db w) = (Inr y, s_db w')" "i = ru_id y" by blast
    then show ?thesis
      by (auto simp: startSyncRun_def Let_def split: if_splits dest!: sym [of _ "s_db w'"])
  qed
qed

lemma FinishRun_result:
  assumes "FinishRun E i st w = (r, w')"
  shows "same_rest w w'" "runs_only (s_db w) (s_db w')" "s_tick w' = Suc (s_tick w)"
    "length (sync_runs (s_db w')) = length (sync_runs (s_db w))"
    "e_fault E (s_tick w) = None \<Longrightarrow>
       sync_runs (s_db w') = update_where (\<lambda>r. ru_id r = i)
         (\<lambda>r. r\<lparr>ru_finished := Some (format_time (e_now E (s_tick w))), ru_fetched := Fetched st, ru_added := Added st,
                ru_queued := Queued st, ru_skipped := Skipped st,
                ru_error := (case Err st of None \<Rightarrow> [] | Some e \<Rightarrow> err_text e),
                ru_kind := (if Known (StKind st) then StKind st else KindError)\<rparr>) (sync_runs (s_db w))"
proof -
  let ?q = "\<lambda>now. finishSyncRun (format_time now) (Fetched st) (Added st) (Queued st) (Skipped st)
      (case Err st of None \<Rightarrow> [] | Some e \<Rightarrow> err_text e) (if Known (StKind st) then StKind st else KindError) i"
  have eq: "map_res (opErr ''FinishRun'') id (query E ?q w) = (r, w')"
    using assms by (simp add: FinishRun_def Let_def)
  note W = write_op [OF eq]
  have err: "fails_clean ?q" by (auto simp: fails_clean_def finishSyncRun_def split: if_splits)
  show "same_rest w w'" "s_tick w' = Suc (s_tick w)" by (rule W(1,2) [OF err])+
  have ro: "runs_only d d'" if "?q now d = (Inr y, d')" for now d d' y
  proof -
    have "d' = d\<lparr>sync_runs := sync_runs d', next_run := next_run d'\<rparr>"
      using that by (auto simp: finishSyncRun_def)
    then show ?thesis unfolding runs_only_def by blast
  qed
  show "runs_only (s_db w) (s_db w')" using W(6) [OF err] ro by auto
  show "length (sync_runs (s_db w')) = length (sync_runs (s_db w))"
    using W(6) [OF err] by (auto simp: finishSyncRun_def update_where_def dest!: sym [of _ "s_db w'"])
  show "sync_runs (s_db w') = update_where (\<lambda>r. ru_id r = i)
         (\<lambda>r. r\<lparr>ru_finished := Some (format_time (e_now E (s_tick w))), ru_fetched := Fetched st, ru_added := Added st,
                ru_queued := Queued st, ru_skipped := Skipped st,
                ru_error := (case Err st of None \<Rightarrow> [] | Some e \<Rightarrow> err_text e),
                ru_kind := (if Known (StKind st) then StKind st else KindError)\<rparr>) (sync_runs (s_db w))"
    if no_fault: "e_fault E (s_tick w) = None"
  proof -
    obtain x where "r = Inr x" using W(5) [OF err no_fault] by (auto simp: finishSyncRun_def)
    from W(4) [OF err this] show ?thesis by (auto simp: finishSyncRun_def dest!: sym [of _ "s_db w'"])
  qed
qed

subsection \<open>The transaction of a pass\<close>

definition ledger_only :: "db \<Rightarrow> db \<Rightarrow> bool" where
  "ledger_only d d' \<longleftrightarrow> (\<exists>st n. d' = d\<lparr>synced_tracks := st, next_synced := n\<rparr>)"

lemma ledger_only_refl [simp]: "ledger_only d d"
  unfolding ledger_only_def by (auto intro!: exI [of _ "synced_tracks d"] exI [of _ "next_synced d"])

lemma ledger_only_trans: "ledger_only d1 d2 \<Longrightarrow> ledger_only d2 d3 \<Longrightarrow> ledger_only d1 d3"
proof -
  assume "ledger_only d1 d2" "ledger_only d2 d3"
  then obtain a m b n where "d2 = d1\<lparr>synced_tracks := a, next_synced := m\<rparr>"
    "d3 = d2\<lparr>synced_tracks := b, next_synced := n\<rparr>" unfolding ledger_only_def by blast
  then have "d3 = d1\<lparr>synced_tracks := b, next_synced := n\<rparr>" by simp
  then show ?thesis unfolding ledger_only_def by blast
qed

lemma ledger_only_frame:
  assumes "ledger_only d d'"
  shows "accounts d' = accounts d" "review_queue d' = review_queue d" "sync_runs d' = sync_runs d"
    "queued d' a t = queued d a t" "account_exists i d' = account_exists i d"
  using assms by (auto simp: ledger_only_def queued_def account_exists_def)

lemma RecordSynced_result:
  assumes "RecordSynced E t w = (Inr x, w')"
  shows "same_rest w w' \<and> ledger_only (s_db w) (s_db w') \<and>
         (\<exists>now. s_db w' = record_row (now, synced_params t) (s_db w)) \<and>
         set (synced_tracks (s_db w')) \<subseteq> set (synced_tracks (s_db w)) \<union>
           {r. sr_spotify r = S_SpotifyTrackID t \<and> sr_playlist r = S_PlaylistID t}"
proof -
  let ?q = "\<lambda>now. recordSyncedTrack now (synced_params t)"
  note W = write_op [OF assms [unfolded RecordSynced_def]]
  have err: "fails_clean ?q" by (auto simp: fails_clean_def recordSyncedTrack_def split: if_splits)
  obtain now y where q: "?q now (s_db w) = (Inr y, s_db w')" using W(4) [OF err refl] by blast
  then have eq: "s_db w' = record_row (now, synced_params t) (s_db w)" by simp
  have "s_db w' = (s_db w)\<lparr>synced_tracks := synced_tracks (s_db w'), next_synced := next_synced (s_db w')\<rparr>"
    unfolding eq by (simp add: recordSyncedTrack_def)
  then have "ledger_only (s_db w) (s_db w')" unfolding ledger_only_def by blast
  moreover have "set (synced_tracks (s_db w')) \<subseteq> set (synced_tracks (s_db w)) \<union>
      {r. sr_spotify r = S_SpotifyTrackID t \<and> sr_playlist r = S_PlaylistID t}"
    unfolding eq by (auto simp: recordSyncedTrack_def synced_params_def)
  ultimately show ?thesis using W(1) [OF err] eq by blast
qed

lemma record_all:
  assumes "each_op (RecordSynced E) entries w = (Inr (), w')"
  shows "same_rest w w' \<and> ledger_only (s_db w) (s_db w') \<and>
         (\<exists>es. map snd es = map synced_params entries \<and> s_db w' = fold record_row es (s_db w)) \<and>
         set (synced_tracks (s_db w')) \<subseteq> set (synced_tracks (s_db w)) \<union>
           {r. \<exists>t\<in>set entries. sr_spotify r = S_SpotifyTrackID t \<and> sr_playlist r = S_PlaylistID t}"
  using assms
proof (induction entries arbitrary: w)
  case Nil
  then show ?case by simp
next
  case (Cons t entries)
  from Cons.prems obtain x w1 where t: "RecordSynced E t w = (Inr x, w1)"
    and rest: "each_op (RecordSynced E) entries w1 = (Inr (), w')"
    by (auto simp: bind_op_def split: prod.splits sum.splits)
  from RecordSynced_result [OF t] obtain now where R: "same_rest w w1" "ledger_only (s_db w) (s_db w1)"
    "s_db w1 = record_row (now, synced_params t) (s_db w)"
    "set (synced_tracks (s_db w1)) \<subseteq> set (synced_tracks (s_db w)) \<union>
       {r. sr_spotify r = S_SpotifyTrackID t \<and> sr_playlist r = S_PlaylistID t}" by blast
  from Cons.IH [OF rest] obtain es where I: "same_rest w1 w'" "ledger_only (s_db w1) (s_db w')"
    "map snd es = map synced_params entries" "s_db w' = fold record_row es (s_db w1)"
    "set (synced_tracks (s_db w')) \<subseteq> set (synced_tracks (s_db w1)) \<union>
       {r. \<exists>t\<in>set entries. sr_spotify r = S_SpotifyTrackID t \<and> sr_playlist r = S_PlaylistID t}" by blast
  have "map snd ((now, synced_params t) # es) = map synced_params (t # entries) \<and>
      s_db w' = fold record_row ((now, synced_params t) # es) (s_db w)"
    using I(3,4) R(3) by simp
  then show ?case
    using same_rest_trans [OF R(1) I(1)] ledger_only_trans [OF R(2) I(2)] R(4) I(5) by fastforce
qed

lemma SetWatermark_result:
  assumes "SetWatermark E i t w = (Inr x, w')"
  shows "same_rest w w'"
    "s_db w' = (s_db w)\<lparr>accounts := update_where (\<lambda>a. ar_id a = i) (\<lambda>a. a\<lparr>ar_watermark := format_time t\<rparr>) (accounts (s_db w))\<rparr>"
proof -
  note W = write_op [OF assms [unfolded SetWatermark_def]]
  have err: "fails_clean (\<lambda>_. setWatermark (format_time t) i)" by (simp add: fails_clean_def setWatermark_def)
  show "same_rest w w'" by (rule W(1) [OF err])
  show "s_db w' = (s_db w)\<lparr>accounts := update_where (\<lambda>a. ar_id a = i) (\<lambda>a. a\<lparr>ar_watermark := format_time t\<rparr>) (accounts (s_db w))\<rparr>"
    using W(4) [OF err refl] by (simp add: setWatermark_def)
qed

definition stays_local :: "('z, 'a) op \<Rightarrow> bool" where
  "stays_local body \<longleftrightarrow>
     (\<forall>w r w'. body w = (r, w') \<longrightarrow> store.more w' = store.more w \<and> s_tick w \<le> s_tick w')"

lemma InTx_result:
  assumes "InTx E body w = (r, w')"
    and local: "stays_local body"
  shows "store.more w' = store.more w \<and> s_tick w \<le> s_tick w'"
    and "\<And>e. r = Inl e \<Longrightarrow> s_db w' = s_db w"
    and "\<And>x. r = Inr x \<Longrightarrow> \<exists>w1 w2. body w1 = (Inr x, w2) \<and> s_db w1 = s_db w \<and> s_db w' = s_db w2"
proof -
  have "(store.more w' = store.more w \<and> s_tick w \<le> s_tick w') \<and> (\<forall>e. r = Inl e \<longrightarrow> s_db w' = s_db w) \<and>
      (\<forall>x. r = Inr x \<longrightarrow> (\<exists>w1 w2. body w1 = (Inr x, w2) \<and> s_db w1 = s_db w \<and> s_db w' = s_db w2))"
  proof (cases "s_tx w \<or> e_fault E (s_tick w) \<noteq> None")
    case True
    then show ?thesis using assms(1)
      by (auto simp: InTx_def query_noop split: option.splits if_splits)
  next
    case False
    let ?w1 = "w\<lparr>s_tick := s_tick w + 1, s_tx := True\<rparr>"
    obtain r1 w2 where b: "body ?w1 = (r1, w2)" by fastforce
    have *: "store.more w2 = store.more w" "s_tick w \<le> s_tick w2" using local b unfolding stays_local_def by fastforce+
    show ?thesis
    proof (cases r1)
      case (Inl e)
      then show ?thesis using assms(1) False b * by (auto simp: InTx_def query_noop)
    next
      case (Inr x)
      show ?thesis
      proof (cases "e_fault E (s_tick w2)")
        case None
        then have "r = Inr x" "w' = w2\<lparr>s_tick := s_tick w2 + 1, s_tx := False\<rparr>"
          using assms(1) False b Inr by (auto simp: InTx_def query_noop)
        moreover from this have "\<exists>w1 w2. body w1 = (Inr x, w2) \<and> s_db w1 = s_db w \<and> s_db w' = s_db w2"
          by (intro exI [of _ ?w1] exI [of _ w2]) (use b Inr in simp)
        ultimately show ?thesis using * by auto
      next
        case (Some e)
        then show ?thesis using assms(1) False b * Inr by (auto simp: InTx_def query_noop)
      qed
    qed
  qed
  then show "store.more w' = store.more w \<and> s_tick w \<le> s_tick w'" "\<And>e. r = Inl e \<Longrightarrow> s_db w' = s_db w"
    "\<And>x. r = Inr x \<Longrightarrow> \<exists>w1 w2. body w1 = (Inr x, w2) \<and> s_db w1 = s_db w \<and> s_db w' = s_db w2" by blast+
qed

end
