(* ===== verification/Normalize.thy ===== *)
theory Normalize
  imports GoText Score
begin

text \<open>
  Parsing radio metadata, \<open>pkg/match/normalize.go\<close>: the eight regular expressions as syntax
  trees, \<open>Normalize\<close>, the classification of version descriptors and \<open>Parse\<close>; then
  \<open>ScoreCandidate\<close> of \<open>score.go\<close>, which needs \<open>Parse\<close>.
\<close>

subsection \<open>The regular expressions\<close>

definition ws :: "rune \<Rightarrow> bool" where
  "ws r \<longleftrightarrow> r = 9 \<or> r = 10 \<or> r = 12 \<or> r = 13 \<or> r = 32"

fun seq :: "re list \<Rightarrow> re" where
  "seq [] = Eps"
| "seq [r] = r"
| "seq (r # s # rs) = Cat r (seq (s # rs))"

fun alts :: "re list \<Rightarrow> re" where
  "alts [] = Eps"
| "alts [r] = r"
| "alts (r # s # rs) = Alt r (alts (s # rs))"

definition star :: "re \<Rightarrow> re" where "star r = Star True r"
definition plus1 :: "re \<Rightarrow> re" where "plus1 r = Cat r (Star True r)"
definition opt :: "re \<Rightarrow> re" where "opt r = Alt r Eps"

text \<open>A literal under \<open>(?i)\<close>: simple case folding, which for s and k goes beyond ASCII.\<close>

definition ci_char :: "rune \<Rightarrow> re" where
  "ci_char c = Cls (\<lambda>r. r = c \<or> (ascii_lower c \<and> r + 32 = c)
                        \<or> (c = 115 \<and> r = 0x17F) \<or> (c = 107 \<and> r = 0x212A))"

definition ci :: "string \<Rightarrow> re" where
  "ci w = seq (map ci_char (lit w))"

definition chr1 :: "rune \<Rightarrow> re" where "chr1 c = Cls (\<lambda>r. r = c)"

definition parenGroupRe :: re where
  "parenGroupRe =
     seq [star (Cls ws), Cls (\<lambda>r. r = 40 \<or> r = 91), Grp (star (Cls (\<lambda>r. r \<noteq> 41 \<and> r \<noteq> 93))),
          Cls (\<lambda>r. r = 41 \<or> r = 93), star (Cls ws)]"

definition dashSuffixRe :: re where
  "dashSuffixRe =
     seq [plus1 (Cls ws), chr1 45, plus1 (Cls ws),
          Grp (Cat (Star False (Cls (\<lambda>r. r \<noteq> 45)))
                   (alts [ci ''mix'', ci ''edit'', ci ''remix'', ci ''version'', ci ''dub'', ci ''vip'',
                          ci ''bootleg'', ci ''instrumental'', ci ''live'', ci ''acoustic''])),
          star (Cls ws), EndT]"

definition featRe :: re where
  "featRe =
     seq [star (Cls ws), WordB,
          alts [Cat (ci ''feat'') (opt (chr1 46)), Cat (ci ''ft'') (opt (chr1 46)), ci ''featuring''],
          plus1 (Cls ws), Grp (plus1 (Cls (\<lambda>r. r \<noteq> 10))), EndT]"

definition artistSplit :: re where
  "artistSplit =
     alts [seq [star (Cls ws), chr1 44, star (Cls ws), opt (Cat (ci ''and'') (plus1 (Cls ws)))],
           seq [star (Cls ws), Cls (\<lambda>r. r = 38 \<or> r = 43), star (Cls ws)],
           seq [plus1 (Cls ws), alts [ci ''x'', Cat (ci ''vs'') (opt (chr1 46)), ci ''and'', ci ''with''],
                plus1 (Cls ws)]]"

definition alnum_ws :: "ucd \<Rightarrow> rune \<Rightarrow> bool" where
  "alnum_ws u r \<longleftrightarrow> u_letter u r \<or> u_number u r \<or> ws r"

definition nonAlnumRe :: "ucd \<Rightarrow> re" where
  "nonAlnumRe u = plus1 (Cls (\<lambda>r. \<not> alnum_ws u r))"

definition spaceRe :: re where "spaceRe = plus1 (Cls ws)"

definition apostropheRe :: re where "apostropheRe = Cls (\<lambda>r. r = 39 \<or> r = 0x60)"

subsection \<open>Normalize\<close>

definition fold_table :: "(rune list \<times> string) list" where
  "fold_table =
     [([0xE1, 0xE0, 0xE2, 0xE4, 0xE3, 0xE5, 0x101], ''a''), ([0xE9, 0xE8, 0xEA, 0xEB, 0x113], ''e''),
      ([0xED, 0xEC, 0xEE, 0xEF, 0x12B], ''i''), ([0xF3, 0xF2, 0xF4, 0xF6, 0xF5, 0xF8, 0x14D], ''o''),
      ([0xFA, 0xF9, 0xFB, 0xFC, 0x16B], ''u''), ([0xE7], ''c''), ([0xF1], ''n''), ([0xDF], ''ss''),
      ([0xE6], ''ae''), ([0x153], ''oe''), ([0xF0], ''d''), ([0xFE], ''th''), ([0x142], ''l''),
      ([0xFD, 0xFF], ''y''), ([0x161], ''s''), ([0x17E], ''z''), ([0x10D], ''c''), ([0x159], ''r''),
      ([0x2019, 0x2018], [CHR 0x27]), ([0x201C, 0x201D], [CHR 0x22]), ([0x2013, 0x2014], ''-'')]"

definition diacriticFold :: "rune \<Rightarrow> runes option" where
  "diacriticFold r = map_option (\<lambda>p. lit (snd p)) (List.find (\<lambda>p. r \<in> set (fst p)) fold_table)"

definition strip_rune :: "ucd \<Rightarrow> rune \<Rightarrow> runes" where
  "strip_rune u r =
     (case diacriticFold r of Some folded \<Rightarrow> folded | None \<Rightarrow> if u_mn u r then [] else [r])"

definition stripDiacritics :: "ucd \<Rightarrow> runes \<Rightarrow> runes" where
  "stripDiacritics u s = concat (map (strip_rune u) s)"

definition Normalize :: "ucd \<Rightarrow> runes \<Rightarrow> runes" where
  "Normalize u s =
     (let s = to_lower u (trim_space s);
          s = stripDiacritics u s;
          s = replace_all apostropheRe s [];
          s = replace_all (nonAlnumRe u) s [32];
          s = replace_all spaceRe s [32]
      in trim_space s)"

subsection \<open>Version descriptors\<close>

definition remixMarkers :: "runes list" where
  "remixMarkers = map lit [''remix'', ''rmx'', ''bootleg'', ''vip'']"

definition isRemixMarker :: "runes \<Rightarrow> bool" where
  "isRemixMarker tok \<longleftrightarrow>
     list_ex (\<lambda>marker. has_prefix tok marker \<and> byte_len tok - byte_len marker \<le> 2) remixMarkers"

definition versionModifiers :: "runes list" where
  "versionModifiers = map lit
     [''extended'', ''radio'', ''edit'', ''instrumental'', ''live'', ''acoustic'', ''club'', ''original'',
      ''vocal'', ''dub'', ''mix'', ''version'', ''short'', ''long'', ''full'', ''re'', ''the'']"

definition is_modifier :: "runes \<Rightarrow> bool" where
  "is_modifier tok \<longleftrightarrow> tok \<in> set versionModifiers \<or> isRemixMarker tok"

definition remixerName :: "runes list \<Rightarrow> runes" where
  "remixerName prefix = join [32] (rev (dropWhile is_modifier (rev prefix)))"

text \<open>\<open>for i := len(toks)-1; i >= 0; i--\<close>: the tokens before the last marker, if any.\<close>

fun before_last_marker :: "runes list \<Rightarrow> runes list option" where
  "before_last_marker [] = None"
| "before_last_marker (t # rtoks) = (if isRemixMarker t then Some (rev rtoks) else before_last_marker rtoks)"

definition keyword_kind :: "runes \<Rightarrow> VersionKind" where
  "keyword_kind n =
     (if contains n (lit ''original'') then VersionOriginal
      else if contains n (lit ''extended'') \<or> contains n (lit ''club mix'') \<or> contains n (lit ''12 inch'')
      then VersionExtended
      else if contains n (lit ''radio'') \<or> contains n (lit ''short edit'') then VersionRadio
      else if contains n (lit ''instrumental'') then VersionInstrumental
      else if contains n (lit ''acoustic'') then VersionAcoustic
      else if contains n (lit ''live'') then VersionLive
      else if contains n (lit ''mix'') \<or> contains n (lit ''edit'') \<or> contains n (lit ''version'')
      then VersionOriginal
      else VersionUnknown)"

definition classifyVersion :: "ucd \<Rightarrow> runes \<Rightarrow> Version" where
  "classifyVersion u raw =
     (let n = Normalize u raw
      in if n = [] then zero_version
         else let v = zero_version\<lparr>Raw := trim_space raw\<rparr>; toks = string_fields n
              in case before_last_marker (rev toks) of
                   Some prefix \<Rightarrow> v\<lparr>Kind := VersionRemix, Remixer := remixerName prefix\<rparr>
                 | None \<Rightarrow> v\<lparr>Kind := keyword_kind n\<rparr>)"

subsection \<open>Parse\<close>

definition splitArtists :: "ucd \<Rightarrow> runes \<Rightarrow> runes list" where
  "splitArtists u s = filter (\<lambda>n. n \<noteq> []) (map (Normalize u) (regex_split artistSplit s))"

text \<open>\<open>if m := featRe.FindStringSubmatch(raw)\<close>: the featured artists and the rest.\<close>

definition take_feat :: "ucd \<Rightarrow> runes \<Rightarrow> runes list \<times> runes" where
  "take_feat u raw =
     (case find_submatch featRe raw of
        None \<Rightarrow> ([], raw)
      | Some m \<Rightarrow> (splitArtists u m, replace_all featRe raw []))"

fun paren_step :: "ucd \<Rightarrow> rmatch \<Rightarrow> runes list \<times> runes list \<Rightarrow> runes list \<times> runes list" where
  "paren_step u m (featuring, descriptors) =
     (let inner = (case m_cap m of None \<Rightarrow> [] | Some i \<Rightarrow> i)
      in case find_submatch featRe (32 # inner) of
           Some fm \<Rightarrow> (featuring @ splitArtists u fm, descriptors)
         | None \<Rightarrow> (featuring, descriptors @ [inner]))"

fun pick_version :: "ucd \<Rightarrow> runes \<Rightarrow> Version \<Rightarrow> Version" where
  "pick_version u d cur =
     (let v = classifyVersion u d
      in if Kind v = VersionUnknown then cur
         else if Kind cur = VersionUnknown \<or> Kind v = VersionRemix then v else cur)"

definition Parse :: "ucd \<Rightarrow> runes \<Rightarrow> runes \<Rightarrow> Track" where
  "Parse u artist title =
     (let (feat1, rawArtist) = take_feat u artist;
          artists = splitArtists u rawArtist;
          (feat2, rawTitle) = take_feat u title;
          (descs, rawTitle) =
            (case find_submatch dashSuffixRe rawTitle of
               None \<Rightarrow> ([], rawTitle)
             | Some m \<Rightarrow> ([m], replace_all dashSuffixRe rawTitle []));
          (featuring, descriptors) =
            fold (paren_step u) (find_all parenGroupRe rawTitle) (feat1 @ feat2, descs);
          rawTitle = replace_all parenGroupRe rawTitle [32]
      in \<lparr>Artists = artists, Title = Normalize u rawTitle, Featuring = featuring,
          TVersion = fold (pick_version u) descriptors zero_version\<rparr>)"

definition ScoreCandidate :: "ucd \<Rightarrow> Track \<Rightarrow> int \<Rightarrow> Candidate \<Rightarrow> Scored" where
  "ScoreCandidate u want wantDur cand =
     (Score want wantDur (Parse u (C_Artist cand) (C_Title cand)) (C_DurationSec cand))\<lparr>Cand := cand\<rparr>"

subsection \<open>Normalize as a function on words\<close>

text \<open>The reference: the maximal runs of letters and numbers, joined by single spaces.\<close>

definition alnum :: "ucd \<Rightarrow> rune \<Rightarrow> bool" where
  "alnum u r \<longleftrightarrow> u_letter u r \<or> u_number u r"

function runs :: "(rune \<Rightarrow> bool) \<Rightarrow> runes \<Rightarrow> runes list" where
  "runs p s =
     (let s' = dropWhile (\<lambda>r. \<not> p r) s
      in if s' = [] then [] else takeWhile p s' # runs p (dropWhile p s'))"
  by pat_completeness auto
termination
proof (relation "measure (\<lambda>(p, s). length s)")
  fix p :: "rune \<Rightarrow> bool" and s s' :: runes
  assume s': "s' = dropWhile (\<lambda>r. \<not> p r) s" "s' \<noteq> []"
  then have "p (hd s')" using hd_dropWhile by metis
  with s'(2) have "length (dropWhile p s') < length s'"
    by (cases s') (auto simp: le_imp_less_Suc length_dropWhile_le)
  also have "\<dots> \<le> length s" by (simp add: s'(1) length_dropWhile_le)
  finally show "((p, dropWhile p s'), (p, s)) \<in> measure (\<lambda>(p, s). length s)" by simp
qed simp

declare runs.simps [simp del]

definition prepared :: "ucd \<Rightarrow> runes \<Rightarrow> runes" where
  "prepared u s = filter (\<lambda>r. r \<noteq> 39 \<and> r \<noteq> 0x60) (stripDiacritics u (to_lower u (trim_space s)))"

lemma ws_is_space: "ws r \<Longrightarrow> is_space r"
  by (auto simp: ws_def is_space_def)

lemma ucd_alnum_not_space: "ucd_ok u \<Longrightarrow> alnum u r \<Longrightarrow> \<not> is_space r \<and> \<not> ws r"
  using ws_is_space by (auto simp: ucd_ok_def alnum_def)

text \<open>Two squeezes are one: the second sees the spaces the first left, and the spaces that
  were there.\<close>

lemma dropWhile_notin_dropWhile:
  "(\<And>r. an r \<Longrightarrow> \<not> q r) \<Longrightarrow> dropWhile (\<lambda>r. \<not> an r) (dropWhile q xs) = dropWhile (\<lambda>r. \<not> an r) xs"
  by (induction xs) auto

definition classes :: "(rune \<Rightarrow> bool) \<Rightarrow> (rune \<Rightarrow> bool) \<Rightarrow> (rune \<Rightarrow> bool) \<Rightarrow> bool" where
  "classes an q w \<longleftrightarrow> (\<forall>r. an r \<longrightarrow> \<not> q r \<and> \<not> w r) \<and> (\<forall>r. an r \<or> q r \<or> w r) \<and> w 32"

lemma dropWhile_squeeze:
  "classes an q w \<Longrightarrow> dropWhile w (squeeze q [32] s) = squeeze q [32] (dropWhile (\<lambda>r. \<not> an r) s)"
proof (induction "length s" arbitrary: s rule: less_induct)
  case less
  then have cl: "\<And>r. an r \<Longrightarrow> \<not> q r" "\<And>r. an r \<Longrightarrow> \<not> w r" "\<And>r. an r \<or> q r \<or> w r" "w 32"
    by (auto simp: classes_def)
  show ?case
  proof (cases s)
    case (Cons x xs)
    have "length (dropWhile q xs) < length s"
      using Cons length_dropWhile_le [of q xs] by (simp add: le_imp_less_Suc)
    from less(1) [OF this] less(1) [of xs] less(2) cl(2) [of x] cl(3) [of x] cl(4) Cons
      dropWhile_notin_dropWhile [of an q xs, OF cl(1)]
    show ?thesis by (cases "q x") (auto dest: cl(1))
  qed simp
qed

lemma squeeze_squeeze:
  "classes an q w \<Longrightarrow> squeeze w [32] (squeeze q [32] s) = squeeze (\<lambda>r. \<not> an r) [32] s"
proof (induction "length s" arbitrary: s rule: less_induct)
  case less
  then have cl: "\<And>r. an r \<Longrightarrow> \<not> q r" "\<And>r. an r \<Longrightarrow> \<not> w r" "\<And>r. an r \<or> q r \<or> w r" "w 32"
    by (auto simp: classes_def)
  show ?case
  proof (cases s)
    case (Cons x xs)
    let ?d = "dropWhile (\<lambda>r. \<not> an r) xs"
    have "length ?d < length s"
      using Cons length_dropWhile_le [of "\<lambda>r. \<not> an r" xs] by (simp add: le_imp_less_Suc)
    from less(1) [OF this] less(1) [of xs] less(2) cl(2) [of x] cl(3) [of x] cl(4) Cons
      dropWhile_notin_dropWhile [of an q xs, OF cl(1)] dropWhile_squeeze [OF less(2)]
    show ?thesis by (cases "q x") (auto dest: cl(1))
  qed simp
qed

lemma runs_dropWhile: "runs an (dropWhile (\<lambda>r. \<not> an r) s) = runs an s"
  by (subst (1 2) runs.simps) (simp add: Let_def)

lemma runs_start:
  "an x \<Longrightarrow> runs an (x # xs) = takeWhile an (x # xs) # runs an (dropWhile an xs)"
  by (subst runs.simps) (simp add: Let_def)

lemma squeeze_runs:
  "s \<noteq> [] \<Longrightarrow> an (hd s) \<Longrightarrow>
   squeeze (\<lambda>r. \<not> an r) [32] s = join [32] (runs an s) @ (if an (last s) then [] else [32])"
proof (induction "length s" arbitrary: s rule: less_induct)
  case less
  obtain x xs where s: "s = x # xs" "an x" using less(2,3) by (cases s) auto
  let ?a = "takeWhile an s" and ?d = "dropWhile an s"
  have sq: "squeeze (\<lambda>r. \<not> an r) [32] s = ?a @ squeeze (\<lambda>r. \<not> an r) [32] ?d"
    using squeeze_skip [of "\<lambda>r. \<not> an r" "[32]" s] by simp
  have rn: "runs an s = ?a # runs an ?d" using runs_start [of an x xs] s by simp
  show ?case
  proof (cases ?d)
    case Nil
    then have "\<forall>r\<in>set s. an r" by (simp add: dropWhile_eq_Nil_conv)
    then have "an (last s)" using less(2) by simp
    with Nil sq rn show ?thesis by (simp add: runs.simps [of an "[]"] del: dropWhile_eq_Nil_conv)
  next
    case (Cons y ys)
    then have y: "\<not> an y" using hd_dropWhile [of an s] by auto
    let ?e = "dropWhile (\<lambda>r. \<not> an r) ys"
    have sq2: "squeeze (\<lambda>r. \<not> an r) [32] ?d = 32 # squeeze (\<lambda>r. \<not> an r) [32] ?e" using Cons y by simp
    have rn2: "runs an ?d = runs an ?e" using Cons y runs_dropWhile [of an ?d] runs_dropWhile [of an ys] by simp
    have lasts: "last s = last (y # ys)"
      using Cons by (metis last_appendR list.distinct(1) takeWhile_dropWhile_id)
    show ?thesis
    proof (cases ?e)
      case Nil
      then have "\<forall>r\<in>set (y # ys). \<not> an r" using y by (simp add: dropWhile_eq_Nil_conv)
      then have "\<not> an (last s)" using lasts by (metis last_in_set list.distinct(1))
      with Nil sq rn sq2 rn2 show ?thesis
        by (simp add: runs.simps [of an "[]"] del: dropWhile_eq_Nil_conv)
    next
      case (Cons z zs)
      then have z: "an z" using hd_dropWhile [of "\<lambda>r. \<not> an r" ys] by auto
      have "length ?e < length s"
      proof -
        have "length ?e \<le> length ys" by (rule length_dropWhile_le)
        also have "\<dots> < length ?d" using \<open>?d = y # ys\<close> by simp
        also have "\<dots> \<le> length s" by (rule length_dropWhile_le)
        finally show ?thesis .
      qed
      from less(1) [OF this] Cons z have ih: "squeeze (\<lambda>r. \<not> an r) [32] ?e
          = join [32] (runs an ?e) @ (if an (last ?e) then [] else [32])" by simp
      have "last ys = last ?e" using Cons
        by (metis last_appendR list.distinct(1) takeWhile_dropWhile_id)
      moreover have "ys \<noteq> []" using Cons by auto
      ultimately have "last ?e = last s" using lasts by simp
      moreover obtain v vs where "runs an ?e = v # vs" using Cons z runs_start by simp
      ultimately show ?thesis using ih sq rn sq2 rn2 by simp
    qed
  qed
qed

lemma runs_sound: "w \<in> set (runs an s) \<Longrightarrow> w \<noteq> [] \<and> (\<forall>r\<in>set w. an r \<and> r \<in> set s)"
proof (induction an s arbitrary: w rule: runs.induct)
  case (1 an s)
  let ?s = "dropWhile (\<lambda>r. \<not> an r) s"
  have sub: "set ?s \<subseteq> set s" "set (dropWhile an ?s) \<subseteq> set s"
    by (auto dest: set_dropWhileD)
  show ?case
  proof (cases "?s = []")
    case True
    with 1 show ?thesis by (simp add: runs.simps [of an s] del: dropWhile_eq_Nil_conv)
  next
    case False
    then have "an (hd ?s)" using hd_dropWhile by metis
    with False have "takeWhile an ?s \<noteq> []" by (cases ?s) (auto simp del: dropWhile_eq_Nil_conv)
    moreover have "\<forall>r\<in>set (takeWhile an ?s). an r \<and> r \<in> set s"
      using sub(1) by (auto dest: set_takeWhileD)
    moreover have "w = takeWhile an ?s \<or> w \<in> set (runs an (dropWhile an ?s))"
      using "1.prems" False by (subst (asm) runs.simps) (simp add: Let_def del: dropWhile_eq_Nil_conv)
    moreover have "w \<in> set (runs an (dropWhile an ?s)) \<Longrightarrow> ?thesis"
      using "1.IH" [OF refl False, of w] sub(2) by (meson subsetD)
    ultimately show ?thesis by metis
  qed
qed

lemma runs_Nil [simp]: "runs an [] = []"
  by (subst runs.simps) simp

lemma join_eq_Nil: "(\<And>w. w \<in> set vs \<Longrightarrow> w \<noteq> []) \<Longrightarrow> join sep vs = [] \<longleftrightarrow> vs = []"
  by (induction sep vs rule: join.induct) auto

lemma set_join: "set (join sep vs) \<subseteq> set sep \<union> (\<Union>w\<in>set vs. set w)"
  by (induction sep vs rule: join.induct) auto

lemma hd_last_join:
  "vs \<noteq> [] \<Longrightarrow> (\<And>w. w \<in> set vs \<Longrightarrow> w \<noteq> []) \<Longrightarrow>
   hd (join sep vs) = hd (hd vs) \<and> last (join sep vs) = last (last vs)"
proof (induction sep vs rule: join.induct)
  case (3 sep x y ys)
  moreover have "join sep (y # ys) \<noteq> []" using 3 join_eq_Nil [of "y # ys" sep] by simp
  ultimately show ?case by simp
qed auto

text \<open>Words without a separator, joined by it, fall apart into the same words.\<close>

lemma runs_join:
  "(\<And>w. w \<in> set vs \<Longrightarrow> w \<noteq> [] \<and> (\<forall>r\<in>set w. an r)) \<Longrightarrow> \<not> an 32 \<Longrightarrow> runs an (join [32] vs) = vs"
proof (induction vs)
  case (Cons x vs)
  from Cons.prems have ih: "runs an (join [32] vs) = vs" by (intro Cons.IH) auto
  obtain r x' where x: "x = r # x'" "an r" "\<forall>r\<in>set x'. an r" using Cons.prems(1) [of x] by (cases x) auto
  show ?case
  proof (cases vs)
    case Nil
    have "dropWhile an x' = []" "takeWhile an x' = x'" using x(3) by auto
    with x Nil show ?thesis by (simp add: runs_start del: dropWhile_eq_Nil_conv)
  next
    case (Cons y ys)
    have "takeWhile an (x' @ 32 # z) = x'" "dropWhile an (x' @ 32 # z) = 32 # z" for z
      using x(3) \<open>\<not> an 32\<close> by (induction x') auto
    moreover have "runs an (32 # z) = runs an z" for z
      using runs_dropWhile [of an "32 # z"] runs_dropWhile [of an z] \<open>\<not> an 32\<close> by simp
    ultimately show ?thesis using x ih Cons by (simp add: runs_start)
  qed
qed simp

lemma dropWhile_all_append: "\<forall>r\<in>set a. p r \<Longrightarrow> dropWhile p (a @ s) = dropWhile p s"
  by (induction a) auto

lemma trim_space_id: "s = [] \<or> \<not> is_space (hd s) \<and> \<not> is_space (last s) \<Longrightarrow> trim_space s = s"
proof -
  assume s: "s = [] \<or> \<not> is_space (hd s) \<and> \<not> is_space (last s)"
  then have "dropWhile is_space s = s" by (cases s) auto
  moreover from s have "dropWhile is_space (rev s) = rev s" by (cases s rule: rev_cases) auto
  ultimately show ?thesis by (simp add: trim_space_def)
qed

lemma trim_space_pad:
  assumes "s \<noteq> []" "\<not> is_space (hd s)" "\<not> is_space (last s)" "\<forall>r\<in>set a. is_space r" "\<forall>r\<in>set b. is_space r"
  shows "trim_space (a @ s @ b) = s"
proof -
  have "dropWhile is_space (a @ s @ b) = s @ b"
    using assms by (cases s) (auto simp: dropWhile_all_append)
  moreover have "dropWhile is_space (rev b @ rev s) = rev s"
    using assms by (cases s rule: rev_cases) (auto simp: dropWhile_all_append [of "rev b"])
  ultimately show ?thesis by (simp add: trim_space_def)
qed

lemma trim_squeeze_runs:
  assumes an: "\<And>r. an r \<Longrightarrow> \<not> is_space r"
  shows "trim_space (squeeze (\<lambda>r. \<not> an r) [32] s) = join [32] (runs an s)"
proof -
  let ?s = "dropWhile (\<lambda>r. \<not> an r) s" and ?R = "runs an s"
  have sp: "is_space 32" by (simp add: is_space_def)
  have lead: "\<exists>a. a \<in> {[], [32]} \<and> squeeze (\<lambda>r. \<not> an r) [32] s = a @ squeeze (\<lambda>r. \<not> an r) [32] ?s"
    by (cases s) auto
  show ?thesis
  proof (cases "?s = []")
    case True
    then have "?R = []" by (subst runs.simps) (simp add: Let_def del: dropWhile_eq_Nil_conv)
    moreover have "trim_space [] = []" "trim_space [32] = []" by (simp_all add: trim_space_def sp)
    ultimately show ?thesis using lead True by (auto simp del: dropWhile_eq_Nil_conv)
  next
    case False
    then have "an (hd ?s)" using hd_dropWhile by metis
    from squeeze_runs [of ?s an, OF False this] runs_dropWhile [of an s] lead
    obtain a b where ab: "a \<in> {[], [32]}" "b \<in> {[], [32]}"
      "squeeze (\<lambda>r. \<not> an r) [32] s = a @ join [32] ?R @ b"
      by (cases "an (last ?s)") fastforce+
    have words: "w \<in> set ?R \<Longrightarrow> w \<noteq> [] \<and> (\<forall>r\<in>set w. an r)" for w using runs_sound by blast
    have ne: "?R \<noteq> []" using False by (subst runs.simps) (simp add: Let_def del: dropWhile_eq_Nil_conv)
    then have "join [32] ?R \<noteq> []" using words join_eq_Nil by metis
    moreover have "\<not> is_space (hd (join [32] ?R))" "\<not> is_space (last (join [32] ?R))"
    proof -
      have "hd (hd ?R) \<in> set (hd ?R)" "last (last ?R) \<in> set (last ?R)"
        using words ne by (auto intro: hd_in_set last_in_set)
      then have "an (hd (hd ?R))" "an (last (last ?R))"
        using words [OF hd_in_set [OF ne]] words [OF last_in_set [OF ne]] by blast+
      then show "\<not> is_space (hd (join [32] ?R))" "\<not> is_space (last (join [32] ?R))"
        using hd_last_join [OF ne, of "[32]"] words an by auto
    qed
    ultimately show ?thesis using trim_space_pad [of "join [32] ?R" a b] ab sp by auto
  qed
qed

lemma Normalize_eq_runs: "ucd_ok u \<Longrightarrow> Normalize u s = join [32] (runs (alnum u) (prepared u s))"
proof -
  assume u: "ucd_ok u"
  have cl: "classes (alnum u) (\<lambda>r. \<not> alnum_ws u r) ws"
    using ucd_alnum_not_space [OF u] by (auto simp: classes_def alnum_ws_def alnum_def ws_def)
  have "Normalize u s = trim_space (squeeze ws [32] (squeeze (\<lambda>r. \<not> alnum_ws u r) [32] (prepared u s)))"
    by (simp add: Normalize_def nonAlnumRe_def spaceRe_def apostropheRe_def plus1_def
        replace_all_class_plus replace_all_class prepared_def conj_commute)
  also have "\<dots> = trim_space (squeeze (\<lambda>r. \<not> alnum u r) [32] (prepared u s))"
    by (simp add: squeeze_squeeze [OF cl])
  also have "\<dots> = join [32] (runs (alnum u) (prepared u s))"
    using ucd_alnum_not_space [OF u] by (intro trim_squeeze_runs) blast
  finally show ?thesis .
qed

text \<open>
  C25: under the documented facts on Unicode, the regular-expression pipeline of \<open>Normalize\<close>
  computes the maximal runs of letters and digits of the folded, lower-cased text, joined by
  single spaces: nothing else survives, and there is no leading, trailing or double space.
\<close>

theorem Normalize_words:
  assumes "ucd_ok u"
  shows "Normalize u s = join [32] (runs (alnum u) (prepared u s)) \<and>
         (\<forall>w\<in>set (runs (alnum u) (prepared u s)). w \<noteq> [] \<and> (\<forall>r\<in>set w. alnum u r))"
  using Normalize_eq_runs [OF assms] runs_sound by blast

theorem Normalize_words_witness:
  "Normalize ascii_ucd (lit ''  The (New) Sound-'') = join [32] [lit ''the'', lit ''new'', lit ''sound'']"
proof -
  have "runs (alnum ascii_ucd) (prepared ascii_ucd (lit ''  The (New) Sound-''))
      = [lit ''the'', lit ''new'', lit ''sound'']" by code_simp
  with Normalize_words [OF ascii_ucd_ok, of "lit ''  The (New) Sound-''"] show ?thesis by metis
qed

lemma diacriticFold_Some:
  assumes "diacriticFold r = Some f"
  shows "0xDF \<le> r \<and> (\<forall>c\<in>set f. 97 \<le> c \<and> c \<le> 122 \<or> c \<in> {34, 39, 45})"
proof -
  from assms obtain p where p: "List.find (\<lambda>p. r \<in> set (fst p)) fold_table = Some p" "f = lit (snd p)"
    unfolding diacriticFold_def by blast
  then have "p \<in> set fold_table" "r \<in> set (fst p)"
    unfolding find_Some_iff by (metis nth_mem)+
  moreover have "\<forall>p\<in>set fold_table. (\<forall>k\<in>set (fst p). 0xDF \<le> k) \<and>
      (\<forall>c\<in>set (lit (snd p)). 97 \<le> c \<and> c \<le> 122 \<or> c \<in> {34, 39, 45})" by code_simp
  ultimately show ?thesis using p(2) by blast
qed

lemma ucd_ascii:
  assumes "ucd_ok u" "0 \<le> r" "r < 128"
  shows "\<not> (65 \<le> r \<and> r \<le> 90) \<Longrightarrow> u_lower u r = r" "\<not> u_mn u r"
    "alnum u r \<longleftrightarrow> 65 \<le> r \<and> r \<le> 90 \<or> 97 \<le> r \<and> r \<le> 122 \<or> 48 \<le> r \<and> r \<le> 57"
  using assms unfolding ucd_ok_def alnum_def by blast+

lemma prepared_fixed:
  assumes u: "ucd_ok u" and r: "r \<in> set (prepared u s)" "alnum u r"
  shows "u_lower u r = r" and "strip_rune u r = [r]"
proof -
  obtain x where x: "r \<in> set (strip_rune u (u_lower u x))"
    using r by (auto simp: prepared_def stripDiacritics_def to_lower_def)
  have "u_lower u r = r \<and> strip_rune u r = [r]"
  proof (cases "diacriticFold (u_lower u x)")
    case None
    with x have "r = u_lower u x" "\<not> u_mn u r" by (auto simp: strip_rune_def split: if_splits)
    with None u show ?thesis by (auto simp: strip_rune_def ucd_ok_def)
  next
    case (Some f)
    with x have "97 \<le> r \<and> r \<le> 122 \<or> r \<in> {34, 39, 45}"
      using diacriticFold_Some [OF Some] by (auto simp: strip_rune_def)
    with r(2) have "97 \<le> r \<and> r \<le> 122" using ucd_ascii(3) [OF u, of r] by auto
    moreover from this have "u_lower u r = r" "\<not> u_mn u r" using ucd_ascii(1,2) [OF u, of r] by simp_all
    moreover have "diacriticFold r = None"
      using diacriticFold_Some [of r] calculation(1) by (cases "diacriticFold r") auto
    ultimately show ?thesis by (simp add: strip_rune_def)
  qed
  then show "u_lower u r = r" and "strip_rune u r = [r]" by auto
qed

lemma ucd_ok_space: "ucd_ok u \<Longrightarrow> u_lower u 32 = 32 \<and> strip_rune u 32 = [32] \<and> \<not> alnum u 32"
proof -
  assume u: "ucd_ok u"
  have "diacriticFold 32 = None" using diacriticFold_Some [of 32] by (cases "diacriticFold 32") auto
  then show ?thesis using ucd_ascii [OF u, of 32] by (simp add: strip_rune_def)
qed

lemma Normalize_fixpoint:
  assumes u: "ucd_ok u"
  shows "Normalize u (Normalize u s) = Normalize u s"
proof -
  let ?R = "runs (alnum u) (prepared u s)" and ?n = "Normalize u s"
  have n: "?n = join [32] ?R" and words: "\<And>w. w \<in> set ?R \<Longrightarrow> w \<noteq> [] \<and> (\<forall>r\<in>set w. alnum u r)"
    using Normalize_eq_runs [OF u] runs_sound by blast+
  have fixed: "u_lower u r = r \<and> strip_rune u r = [r] \<and> r \<noteq> 39 \<and> r \<noteq> 0x60" if "r \<in> set ?n" for r
  proof -
    from that set_join [of "[32]" ?R] n have "r = 32 \<or> (\<exists>w\<in>set ?R. r \<in> set w)" by auto
    then have "r = 32 \<or> alnum u r \<and> r \<in> set (prepared u s)" using runs_sound by blast
    then show ?thesis using prepared_fixed [OF u] ucd_ok_space [OF u] u
      by (auto simp: ucd_ok_def alnum_def)
  qed
  have "trim_space ?n = ?n"
  proof (cases "?R = []")
    case True
    then show ?thesis by (simp add: n trim_space_id)
  next
    case False
    then have "hd (hd ?R) \<in> set (hd ?R)" "last (last ?R) \<in> set (last ?R)"
      using words by (auto intro: hd_in_set last_in_set)
    then have "alnum u (hd (hd ?R))" "alnum u (last (last ?R))"
      using words [OF hd_in_set [OF False]] words [OF last_in_set [OF False]] by blast+
    then show ?thesis
      using hd_last_join [OF False, of "[32]"] words ucd_alnum_not_space [OF u]
      by (intro trim_space_id) (auto simp: n)
  qed
  moreover have "to_lower u ?n = ?n" unfolding to_lower_def by (rule map_idI) (use fixed in auto)
  moreover have "stripDiacritics u ?n = ?n"
  proof -
    have "concat (map (strip_rune u) ?n) = concat (map (\<lambda>r. [r]) ?n)"
      by (rule arg_cong [where f = concat], rule map_cong) (use fixed in auto)
    then show ?thesis by (simp add: stripDiacritics_def)
  qed
  moreover have "filter (\<lambda>r. r \<noteq> 39 \<and> r \<noteq> 0x60) ?n = ?n" using fixed by (simp add: filter_id_conv)
  ultimately have "prepared u ?n = ?n" by (simp add: prepared_def)
  then have "Normalize u ?n = join [32] (runs (alnum u) (join [32] ?R))"
    using Normalize_eq_runs [OF u, of ?n] n by simp
  also have "\<dots> = ?n" using runs_join [of ?R "alnum u"] words ucd_ok_space [OF u] n by simp
  finally show ?thesis .
qed

text \<open>
  \<open>Normalize\<close> is idempotent: normalizing what was already normalized changes nothing, so
  it does not matter how often a title or an artist passes through it.
\<close>

theorem Normalize_idempotent:
  "ucd_ok u \<Longrightarrow> Normalize u (Normalize u s) = Normalize u s"
  by (rule Normalize_fixpoint)

theorem Normalize_idempotent_witness:
  "Normalize ascii_ucd (Normalize ascii_ucd (lit ''D'' @ [0x2019] @ lit ''Void -- Live!''))
     = Normalize ascii_ucd (lit ''D'' @ [0x2019] @ lit ''Void -- Live!'')"
  by (rule Normalize_idempotent [OF ascii_ucd_ok])

subsection \<open>Which descriptors are remixes\<close>

lemma before_last_marker_None: "before_last_marker rtoks = None \<longleftrightarrow> (\<forall>t\<in>set rtoks. \<not> isRemixMarker t)"
  by (induction rtoks) auto

lemma before_last_marker_append:
  "\<forall>t\<in>set xs. \<not> isRemixMarker t \<Longrightarrow> isRemixMarker m \<Longrightarrow>
   before_last_marker (xs @ m # ys) = Some (rev ys)"
  by (induction xs) auto

lemma before_last_marker_split:
  "isRemixMarker m \<Longrightarrow> \<forall>t\<in>set post. \<not> isRemixMarker t \<Longrightarrow>
   before_last_marker (rev (pre @ m # post)) = Some pre"
  using before_last_marker_append [of "rev post" m "rev pre"] by simp

lemma keyword_kind_not_remix: "keyword_kind n \<noteq> VersionRemix"
  by (simp add: keyword_kind_def)

lemma remixerName_split:
  "\<forall>t\<in>set mods. is_modifier t \<Longrightarrow> kept = [] \<or> \<not> is_modifier (last kept) \<Longrightarrow>
   remixerName (kept @ mods) = join [32] kept"
proof -
  assume m: "\<forall>t\<in>set mods. is_modifier t" and k: "kept = [] \<or> \<not> is_modifier (last kept)"
  have "dropWhile is_modifier (rev mods @ rev kept) = dropWhile is_modifier (rev kept)"
    using m by (induction mods rule: rev_induct) auto
  also have "\<dots> = rev kept" using k by (cases kept rule: rev_cases) auto
  finally show ?thesis by (simp add: remixerName_def)
qed

lemma string_fields_Nil: "string_fields [] = []"
  by (subst string_fields.simps) simp

text \<open>
  A descriptor is a remix exactly when one of its tokens is a remix marker, whatever other
  keywords it carries, and the remixer is what stands before the last marker with the modifiers
  next to the marker dropped: "Joe Silva Extended Remix" is by Joe Silva, "Radio Slave Remix" by
  Radio Slave, and "Extended Remix" names nobody.
\<close>

theorem classifyVersion_remix:
  "(Kind (classifyVersion u raw) = VersionRemix \<longleftrightarrow>
      (\<exists>t\<in>set (string_fields (Normalize u raw)). isRemixMarker t)) \<and>
   (string_fields (Normalize u raw) = kept @ mods @ m # post \<longrightarrow> isRemixMarker m \<longrightarrow>
    (\<forall>t\<in>set post. \<not> isRemixMarker t) \<longrightarrow> (\<forall>t\<in>set mods. is_modifier t) \<longrightarrow>
    (kept = [] \<or> \<not> is_modifier (last kept)) \<longrightarrow>
    Remixer (classifyVersion u raw) = join [32] kept)"
proof (intro conjI impI)
  let ?n = "Normalize u raw" and ?toks = "string_fields (Normalize u raw)"
  show "Kind (classifyVersion u raw) = VersionRemix \<longleftrightarrow> (\<exists>t\<in>set ?toks. isRemixMarker t)"
    using before_last_marker_None [of "rev ?toks"] keyword_kind_not_remix [of ?n]
    by (cases "before_last_marker (rev ?toks)")
      (auto simp: classifyVersion_def Let_def zero_version_def string_fields_Nil)
  assume toks: "?toks = kept @ mods @ m # post" and m: "isRemixMarker m"
    and post: "\<forall>t\<in>set post. \<not> isRemixMarker t" and mods: "\<forall>t\<in>set mods. is_modifier t"
    and kept: "kept = [] \<or> \<not> is_modifier (last kept)"
  have "before_last_marker (rev ?toks) = Some (kept @ mods)"
    using before_last_marker_split [OF m post, of "kept @ mods"] toks by simp
  moreover have "?n \<noteq> []" using toks by (auto simp: string_fields_Nil)
  ultimately show "Remixer (classifyVersion u raw) = join [32] kept"
    using remixerName_split [OF mods kept] by (simp add: classifyVersion_def Let_def)
qed

theorem classifyVersion_remix_witness:
  "Kind (classifyVersion ascii_ucd (lit ''Radio Slave Club Remix'')) = VersionRemix \<and>
   Remixer (classifyVersion ascii_ucd (lit ''Radio Slave Club Remix'')) = lit ''radio slave''"
proof -
  have toks: "string_fields (Normalize ascii_ucd (lit ''Radio Slave Club Remix''))
      = [lit ''radio'', lit ''slave''] @ [lit ''club''] @ lit ''remix'' # []"
    and m: "isRemixMarker (lit ''remix'')" "is_modifier (lit ''club'')" "\<not> is_modifier (lit ''slave'')"
    by code_simp+
  note c = classifyVersion_remix [of ascii_ucd "lit ''Radio Slave Club Remix''"
      "[lit ''radio'', lit ''slave'']" "[lit ''club'']" "lit ''remix''" "[]"]
  have "Kind (classifyVersion ascii_ucd (lit ''Radio Slave Club Remix'')) = VersionRemix"
    unfolding c [THEN conjunct1] toks using m(1) by simp
  moreover have "Remixer (classifyVersion ascii_ucd (lit ''Radio Slave Club Remix''))
      = join [32] [lit ''radio'', lit ''slave'']"
    by (rule c [THEN conjunct2, rule_format]) (use toks m in auto)
  ultimately show ?thesis by simp
qed

text \<open>
  Of several descriptors the most specific one wins: if any is a remix, the last remix is
  the track's version; otherwise it is the first descriptor of a known kind, and with none the
  version is unknown.
\<close>

theorem pick_version_spec:
  "fold (pick_version u) ds zero_version =
     (let vs = map (classifyVersion u) ds; remixes = filter (\<lambda>v. Kind v = VersionRemix) vs;
          known = filter (\<lambda>v. Kind v \<noteq> VersionUnknown) vs
      in if remixes \<noteq> [] then last remixes else if known \<noteq> [] then hd known else zero_version)"
proof (induction ds rule: rev_induct)
  case Nil
  then show ?case by simp
next
  case (snoc d ds)
  have "Kind v \<noteq> VersionUnknown" if "v \<in> set (filter (\<lambda>v. Kind v \<noteq> VersionUnknown) vs)" for v vs
    using that by simp
  from this [OF hd_in_set] have hd_known:
    "filter (\<lambda>v. Kind v \<noteq> VersionUnknown) vs \<noteq> [] \<Longrightarrow> Kind (hd (filter (\<lambda>v. Kind v \<noteq> VersionUnknown) vs)) \<noteq> VersionUnknown"
    for vs by blast
  have "v \<in> set (filter (\<lambda>v. Kind v = VersionRemix) vs) \<Longrightarrow> Kind v = VersionRemix" for v vs by simp
  from this [OF last_in_set] have last_remix:
    "filter (\<lambda>v. Kind v = VersionRemix) vs \<noteq> [] \<Longrightarrow> Kind (last (filter (\<lambda>v. Kind v = VersionRemix) vs)) = VersionRemix"
    for vs by blast
  show ?case
    using snoc hd_known [of "map (classifyVersion u) ds"] last_remix [of "map (classifyVersion u) ds"]
    by (cases "Kind (classifyVersion u d)") (auto simp: Let_def zero_version_def)
qed

definition normal_name :: "ucd \<Rightarrow> runes \<Rightarrow> bool" where
  "normal_name u a \<longleftrightarrow> a \<noteq> [] \<and> Normalize u a = a"

lemma splitArtists_normal: "ucd_ok u \<Longrightarrow> \<forall>a\<in>set (splitArtists u s). normal_name u a"
  unfolding splitArtists_def normal_name_def using Normalize_fixpoint by auto

lemma take_feat_normal: "ucd_ok u \<Longrightarrow> \<forall>a\<in>set (fst (take_feat u s)). normal_name u a"
  using splitArtists_normal by (simp add: take_feat_def split: option.splits)

lemma paren_step_normal:
  assumes "ucd_ok u" and "\<forall>a\<in>set (fst fd). normal_name u a"
  shows "\<forall>a\<in>set (fst (paren_step u m fd)). normal_name u a"
proof (cases fd)
  case (Pair feats ds)
  with assms splitArtists_normal [OF assms(1)] show ?thesis
    by (simp add: Let_def ball_Un split: option.split)
qed

lemma paren_fold_normal:
  "ucd_ok u \<Longrightarrow> \<forall>a\<in>set (fst fd). normal_name u a \<Longrightarrow>
   \<forall>a\<in>set (fst (fold (paren_step u) ms fd)). normal_name u a"
  using fold_invariant [where P = "\<lambda>fd. \<forall>a\<in>set (fst fd). normal_name u a" and f = "paren_step u"]
    paren_step_normal by blast

text \<open>
  Whatever the metadata, every artist and featured artist \<open>Parse\<close> returns is a non-empty
  name in normal form, and so is the title (which may be empty): comparing two parsed tracks
  compares normal forms.
\<close>

theorem Parse_normal:
  assumes u: "ucd_ok u"
  shows "(\<forall>a\<in>set (Artists (Parse u artist title)) \<union> set (Featuring (Parse u artist title)).
            a \<noteq> [] \<and> Normalize u a = a) \<and>
         Normalize u (Title (Parse u artist title)) = Title (Parse u artist title)"
proof -
  obtain feat1 rawArtist where f1: "take_feat u artist = (feat1, rawArtist)" by fastforce
  obtain feat2 rawTitle where f2: "take_feat u title = (feat2, rawTitle)" by fastforce
  obtain descs raw' where dash: "(case find_submatch dashSuffixRe rawTitle of
      None \<Rightarrow> ([], rawTitle) | Some m \<Rightarrow> ([m], replace_all dashSuffixRe rawTitle [])) = (descs, raw')"
    by fastforce
  obtain featuring descriptors where parens:
    "fold (paren_step u) (find_all parenGroupRe raw') (feat1 @ feat2, descs) = (featuring, descriptors)"
    by fastforce
  have P: "Parse u artist title =
      \<lparr>Artists = splitArtists u rawArtist, Title = Normalize u (replace_all parenGroupRe raw' [32]),
       Featuring = featuring, TVersion = fold (pick_version u) descriptors zero_version\<rparr>"
    by (simp only: Parse_def f1 f2 dash parens Let_def prod.case)
  have "\<forall>a\<in>set (feat1 @ feat2). normal_name u a"
    using take_feat_normal [OF u, of artist] take_feat_normal [OF u, of title] f1 f2 by auto
  then have "\<forall>a\<in>set featuring. normal_name u a"
    using paren_fold_normal [OF u, of "(feat1 @ feat2, descs)" "find_all parenGroupRe raw'"] parens by simp
  with splitArtists_normal [OF u, of rawArtist] Normalize_fixpoint [OF u] show ?thesis
    by (auto simp: P normal_name_def)
qed

theorem Parse_normal_witness:
  "Normalize ascii_ucd (Title (Parse ascii_ucd (lit ''A & B'') (lit ''One (feat. C) [X Remix]'')))
     = Title (Parse ascii_ucd (lit ''A & B'') (lit ''One (feat. C) [X Remix]''))"
  using Parse_normal [OF ascii_ucd_ok] by blast

end
