(* ===== verification/Spotify.thy ===== *)
theory Spotify
  imports Normalize Store
begin

text \<open>
  The Spotify client, \<open>pkg/spotify/spotify.go\<close>, and the server it talks to.

  The client is translated: \<open>do\<close> (\<open>do_req\<close>) with its verdict on a reply, the search with its
  ISRC short cut and its two queries, adding to a playlist in batches, and reading a playlist
  page by page. The server is a parameter in the shape of an environment \<open>net_env\<close>: at the n-th
  step it answers from the catalog and from the playlists, after whatever tracks others have
  added to them by then (\<open>n_arrive\<close>), or the request fails: there is no response, the status is
  some other one, or the body does not decode. A request that fails may have been carried out
  all the same (\<open>n_acted\<close>), as when the response is lost. Nobody removes tracks.

  A world is a store with the playlists next to it, so that database and network share one
  sequence of steps.
\<close>

subsection \<open>Requests and the server\<close>

record trackObject =
  to_id :: string
  to_name :: runes
  to_duration_ms :: int
  to_artists :: "runes list"
  to_isrc :: runes

datatype request =
    SearchReq runes
  | ItemsReq string nat
  | AddReq string "string list"
  | NameReq string

datatype body =
    SearchBody "trackObject list"
  | ItemsBody int "string list"
  | NameBody runes
  | NoBody

datatype failure = Transport gerr | Status int runes runes | Undecodable gerr

record net_env = env +
  n_fail :: "nat \<Rightarrow> failure option"
  n_acted :: "nat \<Rightarrow> bool"
  n_arrive :: "nat \<Rightarrow> string \<Rightarrow> string list"
  n_catalog :: "nat \<Rightarrow> runes \<Rightarrow> trackObject list"
  n_name :: "string \<Rightarrow> runes"
  n_http_date :: "runes \<Rightarrow> gotime option"
  n_ucd :: ucd

record world = store +
  playlists :: "string \<Rightarrow> string list"

type_synonym ('z, 'a) wop = "'z world_scheme \<Rightarrow> (gerr + 'a) \<times> 'z world_scheme"

definition pageSize :: nat where "pageSize = 100"
definition uri_prefix :: string where "uri_prefix = ''spotify:track:''"

definition answer :: "'e net_env_scheme \<Rightarrow> nat \<Rightarrow> (string \<Rightarrow> string list) \<Rightarrow> request \<Rightarrow> body" where
  "answer E n pls req =
     (case req of
        SearchReq q \<Rightarrow> SearchBody (n_catalog E n q)
      | ItemsReq pl off \<Rightarrow> ItemsBody (int (length (pls pl))) (take pageSize (drop off (pls pl)))
      | AddReq pl uris \<Rightarrow> NoBody
      | NameReq pl \<Rightarrow> NameBody (n_name E pl))"

fun act :: "request \<Rightarrow> (string \<Rightarrow> string list) \<Rightarrow> string \<Rightarrow> string list" where
  "act (AddReq pl uris) pls = pls(pl := pls pl @ map (drop (length uri_prefix)) uris)"
| "act req pls = pls"

definition is_2xx :: "int \<Rightarrow> bool" where
  "is_2xx status \<longleftrightarrow> 200 \<le> status \<and> status \<le> 299"

definition serve :: "'e net_env_scheme \<Rightarrow> request \<Rightarrow> 'z world_scheme \<Rightarrow> body reply \<times> 'z world_scheme" where
  "serve E req w =
     (let n = s_tick w;
          pls = (\<lambda>pl. playlists w pl @ n_arrive E n pl);
          b = answer E n pls req;
          (r, ok) = (case n_fail E n of
                       None \<Rightarrow> (Reply 200 [] [] (Inr b), True)
                     | Some (Transport e) \<Rightarrow> (NoReply e, False)
                     | Some (Status st retry txt) \<Rightarrow> (Reply st retry txt (Inr b), is_2xx st)
                     | Some (Undecodable e) \<Rightarrow> (Reply 200 [] [] (Inl e), True))
      in (r, w\<lparr>s_tick := n + 1, playlists := (if ok \<or> n_acted E n then act req pls else pls)\<rparr>))"

subsection \<open>One request\<close>

text \<open>\<open>do\<close>: only a request whose body is wanted (\<open>out\<close>) can fail to decode.\<close>

definition do_req :: "'e net_env_scheme \<Rightarrow> bool \<Rightarrow> request \<Rightarrow> ('z, body) wop" where
  "do_req E out req w =
     (let (r, w') = serve E req w
      in (case r of
            BadRequest e \<Rightarrow> Inl (Wrap (lit ''build request: '') e [])
          | NoReply e \<Rightarrow> Inl (Wrap (lit ''do request: '') e [])
          | Reply status retry txt decoded \<Rightarrow>
              if status = 429 then
                Inl (SpRateLimit (parseRetryAfter (e_now E (s_tick w)) (n_http_date E) retry) status)
              else if status = 401 \<or> status = 403 then
                Inl (Wrap [] (Sentinel SpErrUnauthorized)
                       (lit '': status '' @ itoa status @ lit '': '' @ trim_space txt))
              else if status < 200 \<or> status > 299 then
                Inl (Msg (lit ''status '' @ itoa status @ lit '': '' @ trim_space txt))
              else if \<not> out then Inr NoBody
              else (case decoded of
                      Inl e \<Rightarrow> Inl (Wrap (lit ''decode response: '') e [])
                    | Inr b \<Rightarrow> Inr b),
          w'))"

subsection \<open>Search\<close>

definition ms_to_s :: "int \<Rightarrow> int" where
  "ms_to_s d = (if d < 0 then - ((- d) div 1000) else d div 1000)"

definition toCandidate :: "trackObject \<Rightarrow> Candidate" where
  "toCandidate t =
     \<lparr>C_ID = to_id t, C_Artist = join (lit '' & '') (to_artists t), C_Title = to_name t,
      C_DurationSec = ms_to_s (to_duration_ms t), C_ISRC = to_isrc t\<rparr>"

definition bareTitle :: "runes \<Rightarrow> runes" where
  "bareTitle title =
     (let front = takeWhile (\<lambda>r. r \<noteq> 40 \<and> r \<noteq> 91) title
      in if front \<noteq> [] \<and> front \<noteq> title then trim_space front else title)"

definition stripQuotes :: "runes \<Rightarrow> runes" where
  "stripQuotes s = filter (\<lambda>r. r \<noteq> 34) s"

definition searchQuery :: "'e net_env_scheme \<Rightarrow> runes \<Rightarrow> ('z, trackObject list) wop" where
  "searchQuery E q w =
     (case do_req E True (SearchReq q) w of
        (Inl e, w') \<Rightarrow> (Inl e, w')
      | (Inr (SearchBody items), w') \<Rightarrow> (Inr items, w')
      | (Inr _, w') \<Rightarrow> (Inr [], w'))"

definition stops :: "gerr \<Rightarrow> bool" where
  "stops e \<longleftrightarrow> errors_is e SpErrRateLimited \<or> errors_is e SpErrUnauthorized"

definition isrc_hit :: "ucd \<Rightarrow> runes \<Rightarrow> trackObject \<Rightarrow> bool" where
  "isrc_hit u isrc t \<longleftrightarrow> equal_fold u (trim_space (to_isrc t)) isrc"

definition searchByISRC :: "'e net_env_scheme \<Rightarrow> runes \<Rightarrow> ('z, Scored option) wop" where
  "searchByISRC E isrc w =
     (let isrc = trim_space isrc
      in if isrc = [] then (Inr None, w)
         else case searchQuery E (lit ''isrc:'' @ isrc) w of
                (Inl e, w') \<Rightarrow>
                  (if stops e then Inl (Wrap (lit ''spotify: isrc lookup '' @ quote (n_ucd E) isrc @ lit '': '') e [])
                   else Inr None, w')
              | (Inr items, w') \<Rightarrow>
                  (Inr (map_option (\<lambda>t. \<lparr>Cand = toCandidate t, SScore = 1, Why = lit ''isrc exact match''\<rparr>)
                          (List.find (isrc_hit (n_ucd E) isrc) items)), w'))"

definition search_error :: "ucd \<Rightarrow> runes \<Rightarrow> gerr \<Rightarrow> gerr" where
  "search_error u q e = Wrap (lit ''spotify: search '' @ quote u q @ lit '': '') e []"

text \<open>The queries in turn, until one finds something; \<open>lastErr\<close> is the last failure.\<close>

fun try_queries :: "'e net_env_scheme \<Rightarrow> runes list \<Rightarrow> gerr option \<Rightarrow> ('z, trackObject list) wop" where
  "try_queries E [] lastErr w = (case lastErr of Some e \<Rightarrow> (Inl e, w) | None \<Rightarrow> (Inr [], w))"
| "try_queries E (q # qs) lastErr w =
     (case searchQuery E q w of
        (Inl e, w') \<Rightarrow>
          if stops e then (Inl (search_error (n_ucd E) q e), w')
          else try_queries E qs (Some (search_error (n_ucd E) q e)) w'
      | (Inr items, w') \<Rightarrow>
          if items \<noteq> [] then (Inr items, w') else try_queries E qs lastErr w')"

definition rank :: "Scored list \<Rightarrow> Scored list" where
  "rank cs = sort_key (\<lambda>s. Desc (SScore s)) cs"

definition search_queries :: "ucd \<Rightarrow> runes \<Rightarrow> runes \<Rightarrow> runes list" where
  "search_queries u artist title =
     [lit ''artist:'' @ quote u (stripQuotes artist) @ lit '' track:'' @ quote u (stripQuotes (bareTitle title)),
      trim_space (artist @ [32] @ title)]"

definition Search :: "'e net_env_scheme \<Rightarrow> runes \<Rightarrow> runes \<Rightarrow> int \<Rightarrow> runes \<Rightarrow> ('z, Scored list) wop" where
  "Search E artist title durationSec isrc w =
     (let u = n_ucd E; want = Parse u artist title
      in case searchByISRC E isrc w of
           (Inl e, w') \<Rightarrow> (Inl e, w')
         | (Inr (Some exact), w') \<Rightarrow> (Inr [exact], w')
         | (Inr None, w') \<Rightarrow>
             (case try_queries E (search_queries u artist title) None w' of
                (Inl e, w'') \<Rightarrow> (Inl e, w'')
              | (Inr found, w'') \<Rightarrow>
                  (Inr (rank (map (\<lambda>t. ScoreCandidate u want durationSec (toCandidate t)) found)), w'')))"

subsection \<open>Playlists\<close>

definition addBatchSize :: nat where "addBatchSize = 100"

function add_batches :: "'e net_env_scheme \<Rightarrow> string \<Rightarrow> string list \<Rightarrow> ('z, unit) wop" where
  "add_batches E pl ids w =
     (if ids = [] then (Inr (), w)
      else
        (let uris = map (\<lambda>i. uri_prefix @ i) (take addBatchSize ids)
         in case do_req E False (AddReq pl uris) w of
              (Inl e, w') \<Rightarrow>
                (Inl (Wrap (lit ''spotify: add '' @ itoa (int (length uris)) @ lit '' track(s) to playlist ''
                            @ lit pl @ lit '': '') e []), w')
            | (Inr _, w') \<Rightarrow> add_batches E pl (drop addBatchSize ids) w'))"
  by pat_completeness auto
termination
  by (relation "measure (\<lambda>(E, pl, ids, w). length ids)") (auto simp: addBatchSize_def)

declare add_batches.simps [simp del]

definition AddToPlaylist :: "'e net_env_scheme \<Rightarrow> string \<Rightarrow> string list \<Rightarrow> ('z, unit) wop" where
  "AddToPlaylist E pl trackIDs w = (if trackIDs = [] then (Inr (), w) else add_batches E pl trackIDs w)"

definition maxOffset :: nat where "maxOffset = 100000"

fun list_pages :: "'e net_env_scheme \<Rightarrow> string \<Rightarrow> nat list \<Rightarrow> string set \<Rightarrow> ('z, string set) wop" where
  "list_pages E pl [] ids w =
     (Inl (Msg (lit ''spotify: list playlist '' @ lit pl @ lit '' items: no end after '' @ itoa (int maxOffset)
                @ lit '' items'')), w)"
| "list_pages E pl (offset # offsets) ids w =
     (case do_req E True (ItemsReq pl offset) w of
        (Inl e, w') \<Rightarrow> (Inl (Wrap (lit ''spotify: list playlist '' @ lit pl @ lit '' items: '') e []), w')
      | (Inr b, w') \<Rightarrow>
          (let (tot, items) = (case b of ItemsBody tot items \<Rightarrow> (tot, items) | _ \<Rightarrow> (0, []));
               ids = ids \<union> set (filter (\<lambda>i. i \<noteq> []) items)
           in if items = [] \<or> length items < pageSize then (Inr ids, w')
              else if tot > 0 \<and> int (offset + length items) \<ge> tot then (Inr ids, w')
              else list_pages E pl offsets ids w'))"

definition PlaylistTrackIDs :: "'e net_env_scheme \<Rightarrow> string \<Rightarrow> ('z, string set) wop" where
  "PlaylistTrackIDs E pl w =
     list_pages E pl (map (\<lambda>i. pageSize * i) [0..<Suc (maxOffset div pageSize)]) {} w"

definition PlaylistName :: "'e net_env_scheme \<Rightarrow> string \<Rightarrow> ('z, runes) wop" where
  "PlaylistName E pl w =
     (case do_req E True (NameReq pl) w of
        (Inl e, w') \<Rightarrow> (Inl (Wrap (lit ''spotify: get playlist '' @ lit pl @ lit '': '') e []), w')
      | (Inr (NameBody nm), w') \<Rightarrow> (Inr nm, w')
      | (Inr _, w') \<Rightarrow> (Inr [], w'))"

subsection \<open>Token renewal\<close>

definition classifyTokenError :: "gotime \<Rightarrow> (runes \<Rightarrow> gotime option) \<Rightarrow> gerr \<Rightarrow> gerr" where
  "classifyTokenError now http_date e =
     (case as_token_error e of
        None \<Rightarrow> e
      | Some (resp, code) \<Rightarrow>
          case resp of
               Some (st, retry) \<Rightarrow>
                 if st = 429 then
                   Wrap (lit ''spotify: token endpoint: '') (SpRateLimit (parseRetryAfter now http_date retry) st) []
                 else if code = lit ''invalid_grant'' then
                   Wrap2 [] (Sentinel SpErrGrantRevoked) (lit '' ('' @ code @ lit ''): '') (Sentinel SpErrUnauthorized) []
                 else if code = lit ''invalid_client'' \<or> st = 401 \<or> st = 400 \<or> st = 403 then
                   Wrap (lit ''spotify: token endpoint refused ('' @ code @ lit ''): '') (Sentinel SpErrUnauthorized) []
                 else e
             | None \<Rightarrow>
                 if code = lit ''invalid_grant'' then
                   Wrap2 [] (Sentinel SpErrGrantRevoked) (lit '' ('' @ code @ lit ''): '') (Sentinel SpErrUnauthorized) []
                 else if code = lit ''invalid_client'' then
                   Wrap (lit ''spotify: token endpoint refused ('' @ code @ lit ''): '') (Sentinel SpErrUnauthorized) []
                 else e)"

text \<open>
  \<open>rotatingTokenSource\<close>: the last refresh token it has seen. \<open>Token()\<close> is given what the
  oauth2 source returns, the refresh token of the renewed token or an error; \<open>onRefresh\<close> is
  absent, or stores a token and may fail. Its effect on the durable token is explicit: \<open>stored\<close>.
\<close>

record rotation =
  ro_last :: string
  ro_stored :: string

definition Token ::
  "gotime \<Rightarrow> (runes \<Rightarrow> gotime option) \<Rightarrow> bool \<Rightarrow> gerr option \<Rightarrow> gerr + string \<Rightarrow> rotation \<Rightarrow> (gerr + string) \<times> rotation" where
  "Token now http_date has_onRefresh persist_fails src r =
     (case src of
        Inl e \<Rightarrow> (Inl (classifyTokenError now http_date e), r)
      | Inr tok \<Rightarrow>
          if tok = [] \<or> \<not> has_onRefresh then (Inr tok, r)
          else if tok = ro_last r then (Inr tok, r)
          else case persist_fails of
                 Some e \<Rightarrow> (Inl (Wrap (lit ''spotify: persist rotated refresh token: '') e []), r)
               | None \<Rightarrow> (Inr tok, r\<lparr>ro_stored := tok, ro_last := tok\<rparr>))"

end
