(* ===== verification/SpotifyLaws.thy ===== *)
theory SpotifyLaws
  imports Spotify
begin

text \<open>
  What the Spotify client promises. \<open>PlaylistTrackIDs\<close> reads the whole playlist as it is when
  the last page is read; \<open>AddToPlaylist\<close> appends exactly the tracks it was given, and a prefix of
  them when it fails; an empty \<open>Search\<close> result is a verdict and never a failure in disguise; an
  error the sync pass must stop for is recognisable; a rotated refresh token is stored before it
  is used.
\<close>

subsection \<open>One request\<close>

lemma serve_frame:
  assumes "serve E req w = (r, w')"
  shows "s_tick w' = Suc (s_tick w)" "s_db w' = s_db w" "s_tx w' = s_tx w"
  using assms by (auto simp: serve_def Let_def split: prod.splits)

lemma do_req_world: "snd (do_req E out req w) = snd (serve E req w)"
  by (simp add: do_req_def Let_def split: prod.split)

lemma do_req_frame [db_frame]:
  assumes "do_req E out req w = (r, w')"
  shows "s_tick w' = Suc (s_tick w)" "s_db w' = s_db w" "s_tx w' = s_tx w"
  using serve_frame [of E req w "fst (serve E req w)" w'] do_req_world [of E out req w] assms by auto

lemma serve_reads:
  assumes "serve E req w = (r, w')" and "\<And>pls. act req pls = pls"
  shows "playlists w' = (\<lambda>pl. playlists w pl @ n_arrive E (s_tick w) pl)"
  using assms by (auto simp: serve_def Let_def split: prod.splits)

lemma do_req_answer:
  assumes "do_req E True req w = (Inr b, w')" 
  shows "b = answer E (s_tick w) (\<lambda>pl. playlists w pl @ n_arrive E (s_tick w) pl) req"
  using assms by (auto simp: do_req_def serve_def Let_def split: option.splits failure.splits if_splits sum.splits)

lemma do_req_reads:
  assumes "do_req E out req w = (r, w')" and "\<And>pls. act req pls = pls"
  shows "playlists w' = (\<lambda>pl. playlists w pl @ n_arrive E (s_tick w) pl)"
  using serve_reads [of E req w "fst (serve E req w)" w'] do_req_world [of E out req w] assms by auto

text \<open>
  Every reply of the API has its verdict. A 429 is \<open>ErrRateLimited\<close> with the header's hint, a
  401 or 403 is \<open>ErrUnauthorized\<close>, any other status outside 200 to 299 is an error that is
  neither; a successful request is one the server carried out.
\<close>

theorem do_req_verdict:
  "case n_fail E (s_tick w) of
     None \<Rightarrow> \<not> isl (fst (do_req E out req w))
   | Some (Status st retry txt) \<Rightarrow>
       (case fst (do_req E out req w) of
          Inr b \<Rightarrow> 200 \<le> st \<and> st \<le> 299
        | Inl e \<Rightarrow> (st < 200 \<or> 299 < st) \<and>
            (errors_is e SpErrRateLimited = (st = 429)) \<and>
            (errors_is e SpErrUnauthorized = (st = 401 \<or> st = 403)) \<and>
            \<not> errors_is e SpErrGrantRevoked \<and>
            as_spotify_rate_limit e =
              (if st = 429 then Some (parseRetryAfter (e_now E (s_tick w)) (n_http_date E) retry) else None))
   | Some (Transport cause) \<Rightarrow> (\<exists>e. fst (do_req E out req w) = Inl e \<and> (\<forall>s. errors_is e s = errors_is cause s))
   | Some (Undecodable cause) \<Rightarrow> isl (fst (do_req E out req w)) = out"
  by (auto simp: do_req_def serve_def Let_def is_2xx_def split: option.split failure.split)

subsection \<open>Requests that only read\<close>

text \<open>With \<open>quiet\<close>, nobody but the program adds tracks.\<close>

definition quiet :: "'e net_env_scheme \<Rightarrow> bool" where
  "quiet E \<longleftrightarrow> (\<forall>n pl. n_arrive E n pl = [])"

definition reads :: "'e net_env_scheme \<Rightarrow> 'z world_scheme \<Rightarrow> 'z world_scheme \<Rightarrow> bool" where
  "reads E w w' \<longleftrightarrow>
     s_db w' = s_db w \<and> s_tx w' = s_tx w \<and> s_tick w \<le> s_tick w' \<and>
     (\<forall>pl. \<exists>more. playlists w' pl = playlists w pl @ more) \<and>
     (quiet E \<longrightarrow> playlists w' = playlists w)"

lemma reads_refl [simp]: "reads E w w"
  by (simp add: reads_def)

lemma reads_trans: "reads E w1 w2 \<Longrightarrow> reads E w2 w3 \<Longrightarrow> reads E w1 w3"
  unfolding reads_def by (metis append_assoc le_trans)

lemma reads_do_req:
  assumes "do_req E out req w = (r, w')" and "\<And>pls. act req pls = pls"
  shows "reads E w w'"
  using do_req_frame [OF assms(1)] do_req_reads [OF assms] by (auto simp: reads_def quiet_def)

lemma reads_searchQuery: "searchQuery E q w = (r, w') \<Longrightarrow> reads E w w'"
  using reads_do_req [of E True "SearchReq q" w "fst (do_req E True (SearchReq q) w)" w']
  by (auto simp: searchQuery_def split: prod.splits sum.splits body.splits)

lemma reads_searchByISRC: "searchByISRC E isrc w = (r, w') \<Longrightarrow> reads E w w'"
  by (auto simp: searchByISRC_def Let_def split: if_splits prod.splits sum.splits dest: reads_searchQuery)

lemma reads_try_queries: "try_queries E qs lastErr w = (r, w') \<Longrightarrow> reads E w w'"
proof (induction qs arbitrary: lastErr w)
  case Nil
  then show ?case by (auto split: option.splits)
next
  case (Cons q qs)
  obtain a w1 where q: "searchQuery E q w = (a, w1)" by fastforce
  have "w' = w1 \<or> (\<exists>l. try_queries E qs l w1 = (r, w'))"
    using Cons.prems q by (auto split: sum.splits if_splits simp del: lit_simps)
  then show ?case using Cons.IH reads_searchQuery [OF q] reads_trans by blast
qed

lemma reads_Search:
  assumes "Search E artist title dur isrc w = (r, w')"
  shows "reads E w w'"
proof -
  obtain a w1 where i: "searchByISRC E isrc w = (a, w1)" by fastforce
  obtain b w2 where q: "try_queries E (search_queries (n_ucd E) artist title) None w1 = (b, w2)" by fastforce
  have "w' = w1 \<or> w' = w2"
    using assms i q by (auto simp: Search_def Let_def split: sum.splits option.splits)
  then show ?thesis using reads_searchByISRC [OF i] reads_try_queries [OF q] reads_trans by blast
qed

subsection \<open>Reading a playlist\<close>

definition real_ids :: "string list \<Rightarrow> string set" where
  "real_ids xs = set (filter (\<lambda>i. i \<noteq> []) xs)"

lemma real_ids_append: "real_ids (xs @ ys) = real_ids xs \<union> real_ids ys"
  by (simp add: real_ids_def)

lemma list_pages_result:
  assumes "list_pages E pl (map (\<lambda>i. pageSize * i) [k..<M]) ids w = (r, w')"
    and "ids = real_ids (take (pageSize * k) (playlists w pl))"
    and "pageSize * k \<le> length (playlists w pl)"
  shows "reads E w w' \<and> (\<forall>S. r = Inr S \<longrightarrow> S = real_ids (playlists w' pl))"
  using assms
proof (induction "M - k" arbitrary: k ids w)
  case 0
  then show ?case by (auto simp del: lit_simps)
next
  case (Suc l)
  then have upt: "map (\<lambda>i. pageSize * i) [k..<M] = (pageSize * k) # map (\<lambda>i. pageSize * i) [Suc k..<M]"
    by (simp add: upt_conv_Cons)
  obtain q w1 where req: "do_req E True (ItemsReq pl (pageSize * k)) w = (q, w1)" by fastforce
  have frame: "reads E w w1" using reads_do_req [OF req] by simp
  let ?L = "playlists w1 pl"
  have L: "?L = playlists w pl @ n_arrive E (s_tick w) pl" using do_req_reads [OF req] by simp
  have pre: "take (pageSize * k) ?L = take (pageSize * k) (playlists w pl)" using Suc.prems(3) L by simp
  show ?case
  proof (cases q)
    case (Inl e)
    with Suc.prems(1) upt req frame L show ?thesis by auto
  next
    case (Inr b)
    have b: "b = ItemsBody (int (length ?L)) (take pageSize (drop (pageSize * k) ?L))"
      using do_req_answer req Inr L by (fastforce simp: answer_def)
    let ?items = "take pageSize (drop (pageSize * k) ?L)"
    let ?ids = "ids \<union> set (filter (\<lambda>i. i \<noteq> []) ?items)"
    have ids: "?ids = real_ids (take (pageSize * Suc k) ?L)"
      using Suc.prems(2) pre take_add [of "pageSize * k" pageSize ?L]
      by (simp add: real_ids_def add.commute)
    show ?thesis
    proof (cases "?items = [] \<or> length ?items < pageSize \<or> int (length ?L) > 0 \<and> int (pageSize * k + length ?items) \<ge> int (length ?L)")
      case True
      then have "take (pageSize * Suc k) ?L = ?L"
        by (auto simp: pageSize_def)
      moreover have "(r, w') = (Inr ?ids, w1)"
        using Suc.prems(1) True by (auto simp: upt req Inr b Let_def split: if_splits)
      ultimately show ?thesis using frame L ids by auto
    next
      case False
      then have rec: "list_pages E pl (map (\<lambda>i. pageSize * i) [Suc k..<M]) ?ids w1 = (r, w')"
        using Suc.prems(1) by (auto simp: upt req Inr b Let_def split: if_splits)
      have "pageSize * Suc k \<le> length ?L" using False by (auto simp: pageSize_def)
      moreover have "l = M - Suc k" using Suc.hyps(2) by simp
      ultimately show ?thesis using Suc.hyps(1) [OF _ rec ids] reads_trans [OF frame] by blast
    qed
  qed
qed

lemma PlaylistTrackIDs_result:
  assumes "PlaylistTrackIDs E pl w = (r, w')"
  shows "reads E w w'" and "r = Inr S \<Longrightarrow> S = real_ids (playlists w' pl)"
  using list_pages_result [OF assms [unfolded PlaylistTrackIDs_def]] by (simp_all add: real_ids_def)

text \<open>
  C21: reading a playlist is complete. If \<open>PlaylistTrackIDs\<close> returns a set, it is the set of all
  track ids the playlist holds at that moment, over however many pages and whatever others
  appended while the pages were read; nothing in the database or the playlists is changed by it.
\<close>

theorem PlaylistTrackIDs_complete:
  "case PlaylistTrackIDs E pl w of
     (Inr ids, w') \<Rightarrow> ids = {i \<in> set (playlists w' pl). i \<noteq> []} \<and> s_db w' = s_db w
   | (Inl e, w') \<Rightarrow> s_db w' = s_db w"
proof -
  obtain r w' where r: "PlaylistTrackIDs E pl w = (r, w')" by fastforce
  show ?thesis
    using PlaylistTrackIDs_result [OF r] r by (cases r) (auto simp: reads_def real_ids_def)
qed

subsection \<open>Adding tracks\<close>

text \<open>\<open>posted\<close>: the playlists after appending the given tracks to one of them, and others' arrivals.\<close>

definition appends :: "'e net_env_scheme \<Rightarrow> string \<Rightarrow> string list \<Rightarrow> 'z world_scheme \<Rightarrow> 'z world_scheme \<Rightarrow> bool" where
  "appends E pl ids w w' \<longleftrightarrow>
     s_db w' = s_db w \<and> s_tx w' = s_tx w \<and>
     (\<forall>p. \<exists>more. playlists w' p = playlists w p @ more \<and> (p = pl \<longrightarrow> set ids \<subseteq> set more)) \<and>
     (quiet E \<longrightarrow> playlists w' = (playlists w)(pl := playlists w pl @ ids))"

lemma appends_trans:
  assumes "appends E pl xs w1 w2" and "appends E pl ys w2 w3"
  shows "appends E pl (xs @ ys) w1 w3"
  unfolding appends_def
proof (intro conjI allI impI)
  fix p
  obtain m1 m2 where "playlists w2 p = playlists w1 p @ m1" "p = pl \<longrightarrow> set xs \<subseteq> set m1"
    "playlists w3 p = playlists w2 p @ m2" "p = pl \<longrightarrow> set ys \<subseteq> set m2"
    using assms unfolding appends_def by metis
  then show "\<exists>more. playlists w3 p = playlists w1 p @ more \<and> (p = pl \<longrightarrow> set (xs @ ys) \<subseteq> set more)"
    by (intro exI [of _ "m1 @ m2"]) auto
qed (use assms in \<open>auto simp: appends_def\<close>)

lemma appends_add:
  assumes "do_req E False (AddReq pl (map (\<lambda>i. uri_prefix @ i) ids)) w = (r, w')"
  shows "appends E pl ids w w' \<or> isl r \<and> appends E pl [] w w'"
proof -
  let ?uris = "map (\<lambda>i. uri_prefix @ i) ids"
  have strip: "map (drop (length uri_prefix)) ?uris = ids" by (simp add: comp_def)
  have "playlists w' = act (AddReq pl ?uris) (\<lambda>pl. playlists w pl @ n_arrive E (s_tick w) pl) \<or>
      isl r \<and> playlists w' = (\<lambda>pl. playlists w pl @ n_arrive E (s_tick w) pl)"
    using assms
    by (auto simp: do_req_def serve_def Let_def is_2xx_def simp del: act.simps lit_simps
        split: option.splits failure.splits if_splits)
  then show ?thesis
  proof
    assume p: "playlists w' = act (AddReq pl ?uris) (\<lambda>pl. playlists w pl @ n_arrive E (s_tick w) pl)"
    have "playlists w' q = playlists w q @ (n_arrive E (s_tick w) q @ (if q = pl then ids else []))" for q
      using p strip by simp
    then have "\<forall>q. \<exists>more. playlists w' q = playlists w q @ more \<and> (q = pl \<longrightarrow> set ids \<subseteq> set more)"
      by (metis set_append Un_upper2)
    then show ?thesis using do_req_frame [OF assms] p strip by (auto simp: appends_def quiet_def)
  next
    assume "isl r \<and> playlists w' = (\<lambda>pl. playlists w pl @ n_arrive E (s_tick w) pl)"
    then show ?thesis using do_req_frame [OF assms] by (auto simp: appends_def quiet_def)
  qed
qed

lemma add_batches_result:
  "add_batches E pl ids w = (r, w') \<Longrightarrow>
   \<exists>k. appends E pl (take k ids) w w' \<and> (r = Inr () \<longrightarrow> take k ids = ids)"
proof (induction E pl ids w rule: add_batches.induct)
  case (1 E pl ids w)
  show ?case
  proof (cases "ids = []")
    case True
    moreover have "add_batches E pl [] w = (Inr (), w)" by (subst add_batches.simps) simp
    ultimately show ?thesis using "1.prems" by (auto simp: appends_def)
  next
    case False
    let ?b = "take addBatchSize ids" and ?rest = "drop addBatchSize ids"
    obtain q w1 where req: "do_req E False (AddReq pl (map (\<lambda>i. uri_prefix @ i) ?b)) w = (q, w1)" by fastforce
    note app = appends_add [OF req]
    show ?thesis
    proof (cases q)
      case (Inl e)
      then have w': "w' = w1" "isl r"
        using "1.prems" False req by (auto simp: add_batches.simps [of E pl ids w] Let_def simp del: lit_simps)
      then have "appends E pl (take addBatchSize ids) w w' \<or> appends E pl (take 0 ids) w w'" using app by auto
      then show ?thesis using w'(2) by (metis isl_def sum.distinct(1))
    next
      case (Inr b)
      then have rec: "add_batches E pl ?rest w1 = (r, w')"
        using "1.prems" False req by (simp add: add_batches.simps [of E pl ids w] Let_def del: lit_simps)
      from "1.IH" [OF False refl req [symmetric] Inr rec] obtain k where
        k: "appends E pl (take k ?rest) w1 w'" "r = Inr () \<longrightarrow> take k ?rest = ?rest" by blast
      have "appends E pl ?b w w1" using app Inr by simp
      from appends_trans [OF this k(1)] have "appends E pl (take (addBatchSize + k) ids) w w'"
        by (simp add: take_add)
      moreover have "r = Inr () \<longrightarrow> take (addBatchSize + k) ids = ids"
        using k(2) by (auto simp: take_add)
      ultimately show ?thesis by blast
    qed
  qed
qed

lemma AddToPlaylist_result:
  "AddToPlaylist E pl ids w = (r, w') \<Longrightarrow>
   \<exists>k. appends E pl (take k ids) w w' \<and> (r = Inr () \<longrightarrow> take k ids = ids)"
  using add_batches_result [of E pl ids w r w']
  by (cases "ids = []") (auto simp: AddToPlaylist_def appends_def)

text \<open>
  C22: adding is exact. When nobody else writes to it, \<open>AddToPlaylist\<close> appends to the playlist
  exactly the tracks it was given, in their order and over all batches, if it succeeds, and a
  prefix of them if it fails, even when the server carried out a request whose response was
  lost. The database is not touched.
\<close>

theorem AddToPlaylist_exact:
  assumes "quiet E"
  shows "case AddToPlaylist E pl ids w of
     (Inr _, w') \<Rightarrow> playlists w' = (playlists w)(pl := playlists w pl @ ids) \<and> s_db w' = s_db w
   | (Inl e, w') \<Rightarrow> (\<exists>k. playlists w' = (playlists w)(pl := playlists w pl @ take k ids)) \<and> s_db w' = s_db w"
proof -
  obtain r w' where r: "AddToPlaylist E pl ids w = (r, w')" by fastforce
  from AddToPlaylist_result [OF r] assms show ?thesis
    using r by (cases r) (auto simp: appends_def)
qed

definition lossy :: net_env where
  "lossy =
     \<lparr>e_fault = \<lambda>_. None, e_now = \<lambda>n. 63845000000000000000 + int n * 1000000000,
      n_fail = \<lambda>n. if n = 1 then Some (Transport (Msg (lit ''connection reset''))) else None,
      n_acted = \<lambda>n. n = 1, n_arrive = \<lambda>_ _. [], n_catalog = \<lambda>_ _. [], n_name = \<lambda>_. [],
      n_http_date = \<lambda>_. None, n_ucd = ascii_ucd\<rparr>"

definition one_playlist :: "nat \<Rightarrow> world" where
  "one_playlist n = \<lparr>s_db = empty_db, s_tick = n, s_tx = False, playlists = \<lambda>pl. if pl = ''PL'' then [''a''] else []\<rparr>"

lemma quiet_lossy: "quiet lossy"
  by (simp add: quiet_def lossy_def)

theorem AddToPlaylist_exact_witness:
  "playlists (snd (AddToPlaylist lossy ''PL'' [''b'', ''c''] (one_playlist 5))) ''PL'' = [''a'', ''b'', ''c''] \<and>
   (\<exists>k. playlists (snd (AddToPlaylist lossy ''PL'' [''b'', ''c''] (one_playlist 1))) ''PL'' = ''a'' # take k [''b'', ''c''])"
proof
  obtain r w' where r: "AddToPlaylist lossy ''PL'' [''b'', ''c''] (one_playlist 5) = (r, w')" by fastforce
  have "\<not> isl (fst (AddToPlaylist lossy ''PL'' [''b'', ''c''] (one_playlist 5)))" by code_simp
  with r AddToPlaylist_exact [OF quiet_lossy, where pl = "''PL''" and ids = "[''b'', ''c'']" and w = "one_playlist 5"]
  show "playlists (snd (AddToPlaylist lossy ''PL'' [''b'', ''c''] (one_playlist 5))) ''PL'' = [''a'', ''b'', ''c'']"
    by (cases r) (simp_all add: one_playlist_def)
next
  obtain r w' where r: "AddToPlaylist lossy ''PL'' [''b'', ''c''] (one_playlist 1) = (r, w')" by fastforce
  have "isl (fst (AddToPlaylist lossy ''PL'' [''b'', ''c''] (one_playlist 1)))" by code_simp
  with r AddToPlaylist_exact [OF quiet_lossy, where pl = "''PL''" and ids = "[''b'', ''c'']" and w = "one_playlist 1"]
  show "\<exists>k. playlists (snd (AddToPlaylist lossy ''PL'' [''b'', ''c''] (one_playlist 1))) ''PL'' = ''a'' # take k [''b'', ''c'']"
    by (cases r) (auto simp: one_playlist_def)
qed

subsection \<open>Search\<close>

definition answers :: "'e net_env_scheme \<Rightarrow> nat \<Rightarrow> bool" where
  "answers E n \<longleftrightarrow> (case n_fail E n of None \<Rightarrow> True | Some (Status st retry txt) \<Rightarrow> is_2xx st | _ \<Rightarrow> False)"

lemma searchQuery_Inr:
  assumes "searchQuery E q w = (Inr items, w')"
  shows "answers E (s_tick w) \<and> items = n_catalog E (s_tick w) q \<and> s_tick w' = Suc (s_tick w)"
proof -
  obtain b where b: "do_req E True (SearchReq q) w = (Inr b, w')"
    using assms by (auto simp: searchQuery_def split: prod.splits sum.splits body.splits)
  have "answers E (s_tick w)"
    using b by (auto simp: do_req_def serve_def Let_def answers_def is_2xx_def
        split: option.splits failure.splits if_splits sum.splits)
  moreover have "b = SearchBody (n_catalog E (s_tick w) q)"
    using do_req_answer [OF b] by (simp add: answer_def)
  ultimately show ?thesis using assms b do_req_frame [OF b] by (simp add: searchQuery_def)
qed

lemma try_queries_Nil:
  "try_queries E qs lastErr w = (Inr [], w') \<Longrightarrow>
   lastErr = None \<and> s_tick w' = s_tick w + length qs \<and>
   (\<forall>i<length qs. answers E (s_tick w + i) \<and> n_catalog E (s_tick w + i) (qs ! i) = [])"
proof (induction qs arbitrary: lastErr w)
  case Nil
  then show ?case by (auto split: option.splits)
next
  case (Cons q qs)
  obtain a w1 where q: "searchQuery E q w = (a, w1)" by fastforce
  show ?case
  proof (cases a)
    case (Inl e)
    then show ?thesis using Cons.prems Cons.IH q by (auto split: if_splits simp del: lit_simps)
  next
    case (Inr items)
    then have items: "items = []" and rec: "try_queries E qs lastErr w1 = (Inr [], w')"
      using Cons.prems q by (auto split: if_splits)
    note now = searchQuery_Inr [OF q [unfolded Inr items]]
    show ?thesis
    proof (intro conjI allI impI)
      fix i
      assume i: "i < length (q # qs)"
      show "answers E (s_tick w + i)" "n_catalog E (s_tick w + i) ((q # qs) ! i) = []"
        using Cons.IH [OF rec] now i by (cases i; auto)+
    qed (use Cons.IH [OF rec] now in auto)
  qed
qed

lemma try_queries_found:
  "try_queries E qs lastErr w = (Inr items, w') \<Longrightarrow> items \<noteq> [] \<Longrightarrow>
   \<exists>n. \<exists>q\<in>set qs. items = n_catalog E n q"
proof (induction qs arbitrary: lastErr w)
  case Nil
  then show ?case by (auto split: option.splits)
next
  case (Cons q qs)
  obtain a w1 where q: "searchQuery E q w = (a, w1)" by fastforce
  show ?case
  proof (cases a)
    case (Inl e)
    then show ?thesis using Cons.prems Cons.IH q by (fastforce split: if_splits simp del: lit_simps)
  next
    case (Inr its)
    note now = searchQuery_Inr [OF q [unfolded Inr]]
    show ?thesis
    proof (cases "its = []")
      case True
      with Cons q Inr show ?thesis by fastforce
    next
      case False
      with Cons.prems q Inr now show ?thesis by (intro exI [of _ "s_tick w"]) auto
    qed
  qed
qed

definition best_first :: "Scored list \<Rightarrow> bool" where
  "best_first cs \<longleftrightarrow> sorted_wrt (\<lambda>a b. SScore b \<le> SScore a) cs"

lemma best_first_rank: "best_first (rank cs)"
proof -
  have "sorted (map (\<lambda>s. Desc (SScore s)) (rank cs))" by (simp add: rank_def)
  then show ?thesis by (simp add: best_first_def sorted_map)
qed

lemma set_rank [simp]: "set (rank cs) = set cs"
  by (simp add: rank_def)

lemma rank_Nil [simp]: "rank cs = [] \<longleftrightarrow> cs = []"
  by (metis set_rank set_empty)

lemma SScore_range: "0 \<le> SScore (ScoreCandidate u want d c)" "SScore (ScoreCandidate u want d c) \<le> 1"
  by (simp_all add: ScoreCandidate_def SScore_raw raw_score_range)

lemma Search_result:
  assumes "Search E artist title dur isrc w = (Inr cs, w')"
  shows "best_first cs" and "\<forall>c\<in>set cs. 0 \<le> SScore c \<and> SScore c \<le> 1"
    and "(\<exists>t. cs = [\<lparr>Cand = toCandidate t, SScore = 1, Why = lit ''isrc exact match''\<rparr>] \<and>
             isrc_hit (n_ucd E) (trim_space isrc) t) \<or>
         (\<exists>found. cs = rank (map (\<lambda>t. ScoreCandidate (n_ucd E) (Parse (n_ucd E) artist title) dur (toCandidate t)) found))"
proof -
  obtain a w1 where i: "searchByISRC E isrc w = (a, w1)" by fastforce
  obtain b w2 where q: "try_queries E (search_queries (n_ucd E) artist title) None w1 = (b, w2)" by fastforce
  have "(\<exists>x. a = Inr (Some x) \<and> cs = [x]) \<or> (\<exists>found. a = Inr None \<and> b = Inr found \<and>
      cs = rank (map (\<lambda>t. ScoreCandidate (n_ucd E) (Parse (n_ucd E) artist title) dur (toCandidate t)) found))"
    using assms i q by (auto simp: Search_def Let_def split: sum.splits option.splits)
  moreover have "\<exists>t. x = \<lparr>Cand = toCandidate t, SScore = 1, Why = lit ''isrc exact match''\<rparr> \<and>
      isrc_hit (n_ucd E) (trim_space isrc) t" if "a = Inr (Some x)" for x
    using i that
    by (fastforce simp: searchByISRC_def Let_def find_Some_iff simp del: lit_simps split: if_splits prod.splits sum.splits)
  ultimately show shape: "(\<exists>t. cs = [\<lparr>Cand = toCandidate t, SScore = 1, Why = lit ''isrc exact match''\<rparr>] \<and>
             isrc_hit (n_ucd E) (trim_space isrc) t) \<or>
         (\<exists>found. cs = rank (map (\<lambda>t. ScoreCandidate (n_ucd E) (Parse (n_ucd E) artist title) dur (toCandidate t)) found))"
    by blast
  then show "best_first cs" using best_first_rank by (auto simp: best_first_def)
  from shape show "\<forall>c\<in>set cs. 0 \<le> SScore c \<and> SScore c \<le> 1" using SScore_range by auto
qed

text \<open>
  An empty search result is a verdict. If \<open>Search\<close> returns no candidates and no error, the last
  two requests were the scoped and the freeform query, both were answered, and both answers were
  empty; a query that could not be asked is never read as "Spotify does not have this".
\<close>

theorem Search_empty_is_verdict:
  assumes "Search E artist title dur isrc w = (Inr [], w')"
  shows "\<exists>n q1 q2. s_tick w' = n + 2 \<and> s_tick w \<le> n \<and> search_queries (n_ucd E) artist title = [q1, q2] \<and>
    answers E n \<and> n_catalog E n q1 = [] \<and> answers E (n + 1) \<and> n_catalog E (n + 1) q2 = []"
proof -
  obtain a w1 where i: "searchByISRC E isrc w = (a, w1)" by fastforce
  obtain b w2 where q: "try_queries E (search_queries (n_ucd E) artist title) None w1 = (b, w2)" by fastforce
  have "a = Inr None" "b = Inr []" "w' = w2"
    using assms i q by (auto simp: Search_def Let_def split: sum.splits option.splits)
  moreover have "s_tick w \<le> s_tick w1"
    using reads_searchByISRC [OF i] by (simp add: reads_def)
  ultimately show ?thesis
    using try_queries_Nil [of E "search_queries (n_ucd E) artist title" None w1 w'] q
    by (intro exI [of _ "s_tick w1"]) (auto simp: search_queries_def less_Suc_eq numeral_2_eq_2)
qed

theorem Search_empty_is_verdict_witness:
  "\<exists>n. answers lossy n \<and> answers lossy (n + 1) \<and>
     s_tick (snd (Search lossy (lit ''Chicane'') (lit ''Saltwater'') 240 [] (one_playlist 5))) = n + 2"
proof -
  have "fst (Search lossy (lit ''Chicane'') (lit ''Saltwater'') 240 [] (one_playlist 5)) = Inr []" by code_simp
  then obtain w' where "Search lossy (lit ''Chicane'') (lit ''Saltwater'') 240 [] (one_playlist 5) = (Inr [], w')"
    by (metis prod.collapse)
  from Search_empty_is_verdict [OF this] this show ?thesis by auto
qed

text \<open>
  Candidates come back best first with scores between 0 and 1, and an ISRC match settles the
  question: then the result is that one recording, whose code is the wanted one up to case and
  surrounding space, with score 1.
\<close>

theorem Search_best_first:
  "case Search E artist title dur isrc w of
     (Inl e, w') \<Rightarrow> s_db w' = s_db w
   | (Inr cs, w') \<Rightarrow>
       s_db w' = s_db w \<and> sorted_wrt (\<lambda>a b. SScore b \<le> SScore a) cs \<and> cs = filter (\<lambda>c. 0 \<le> SScore c \<and> SScore c \<le> 1) cs \<and>
       ((\<exists>t. cs = [\<lparr>Cand = toCandidate t, SScore = 1, Why = lit ''isrc exact match''\<rparr>] \<and>
             isrc_hit (n_ucd E) (trim_space isrc) t) \<or>
        (\<exists>found. cs = rank (map (\<lambda>t. ScoreCandidate (n_ucd E) (Parse (n_ucd E) artist title) dur (toCandidate t)) found)))"
proof -
  obtain r w' where r: "Search E artist title dur isrc w = (r, w')" by fastforce
  have db: "s_db w' = s_db w" using reads_Search [OF r] by (simp add: reads_def)
  show ?thesis
  proof (cases r)
    case (Inr cs)
    note S = Search_result [OF r [unfolded Inr]]
    have "filter (\<lambda>c. 0 \<le> SScore c \<and> SScore c \<le> 1) cs = cs" using S(2) by (simp add: filter_id_conv)
    with S db r Inr show ?thesis by (simp add: best_first_def del: lit_simps)
  qed (use db r in simp)
qed

subsection \<open>Tokens\<close>

text \<open>
  Only a refused grant is re-consentable. Of the token endpoint's failures exactly those with
  the code \<open>invalid_grant\<close> (and not status 429) are \<open>ErrGrantRevoked\<close>, all of these are also
  \<open>ErrUnauthorized\<close>, a 429 is \<open>ErrRateLimited\<close> whatever the code, and an unknown client or a bare
  400, 401 or 403 is \<open>ErrUnauthorized\<close> alone.
\<close>

theorem classifyTokenError_verdict:
  "let e = classifyTokenError now http_date (TokenError resp code txt);
       throttled = (\<exists>retry. resp = Some (429, retry));
       refused = (\<exists>st retry. resp = Some (st, retry) \<and> st \<in> {400, 401, 403})
   in errors_is e SpErrGrantRevoked = (\<not> throttled \<and> code = lit ''invalid_grant'') \<and>
      errors_is e SpErrRateLimited = throttled \<and>
      errors_is e SpErrUnauthorized =
        (\<not> throttled \<and> (code = lit ''invalid_grant'' \<or> code = lit ''invalid_client'' \<or> refused))"
  by (cases resp) (auto simp: classifyTokenError_def Let_def split: if_splits)

text \<open>
  A rotated refresh token is durable before it is used. If the last token seen is the stored
  one, it still is after \<open>Token()\<close>; a token handed out is the stored one unless the renewal
  brought none; and when storing fails the caller gets an error and the old token stays.
\<close>

theorem Token_durable:
  assumes "ro_last r = ro_stored r"
  shows "case Token now http_date True persist_fails src r of
     (Inr tok, r') \<Rightarrow> ro_last r' = ro_stored r' \<and> (ro_stored r' = tok \<or> tok = [] \<and> r' = r)
   | (Inl e, r') \<Rightarrow> r' = r \<and> (isl src \<or> persist_fails \<noteq> None)"
  using assms by (auto simp: Token_def split: sum.split option.split)

theorem Token_durable_witness:
  "ro_stored (snd (Token 0 (\<lambda>_. None) True None (Inr ''new'') \<lparr>ro_last = ''old'', ro_stored = ''old''\<rparr>)) = ''new''"
proof -
  have "Token 0 (\<lambda>_. None) True None (Inr ''new'') \<lparr>ro_last = ''old'', ro_stored = ''old''\<rparr>
      = (Inr ''new'', \<lparr>ro_last = ''new'', ro_stored = ''new''\<rparr>)" by (simp add: Token_def)
  then show ?thesis
    using Token_durable [where r = "\<lparr>ro_last = ''old'', ro_stored = ''old''\<rparr>" and now = 0
        and http_date = "\<lambda>_. None" and persist_fails = None and src = "Inr ''new''"] by simp
qed

end
