(* ===== verification/Difm.thy ===== *)
theory Difm
  imports GoError
begin

text \<open>
  The DI.fm client, \<open>pkg/difm/difm.go\<close>: one page of votes (\<open>fetchPage\<close>), what a vote record
  is worth (\<open>normalize\<close>), and the walk over the pages (\<open>ListLikedTracks\<close>).

  The server is the function \<open>respond\<close> from request URLs to replies; nothing is assumed of it in
  the definitions. A row is what \<open>json.Unmarshal\<close> makes of it: \<open>Decoded\<close>, or
  \<open>Undecoded\<close> with the vote id when at least that could be read.

  The lemmas end in \<open>ListLikedTracks_complete\<close>: against a server that serves the member's
  votes in pages, newest first, the walk returns exactly the likes newer than the watermark,
  oldest first; and \<open>ListLikedTracks_no_loss\<close>: whatever the server does, a walk that reports no
  error has not skipped an unreadable record on any page it read.
\<close>

subsection \<open>Records\<close>

definition maxTrackLength :: int where "maxTrackLength = 15 * 60"
definition maxPages :: nat where "maxPages = 200"

record Client =
  BaseURL :: string
  Network :: string
  APIKey :: string
  MemberID :: string

record LikedTrack =
  L_VoteID :: int
  L_TrackID :: int
  L_Artist :: runes
  L_Title :: runes
  L_DurationSec :: int
  L_ISRC :: runes
  L_DetailsURL :: string
  L_ChannelID :: int
  L_LikedAt :: gotime
  L_Skip :: bool
  L_SkipReason :: runes

record wire_track =
  wt_id :: int
  wt_title :: runes
  wt_display_title :: runes
  wt_display_artist :: runes
  wt_length :: int
  wt_mix :: bool
  wt_isrc :: runes
  wt_details_url :: string

record wire =
  w_id :: int
  w_track_id :: int
  w_channel_id :: int
  w_created_at :: string
  w_up :: bool
  w_episode :: "int option"
  w_track :: "wire_track option"

datatype row = Decoded wire | Undecoded "int option"

subsection \<open>One record\<close>

datatype rowVerdict = rowOK | rowFiltered | rowDropped

fun firstNonZero :: "int list \<Rightarrow> int" where
  "firstNonZero [] = 0"
| "firstNonZero (v # vals) = (if v \<noteq> 0 then v else firstNonZero vals)"

definition zero_like :: LikedTrack where
  "zero_like =
     \<lparr>L_VoteID = 0, L_TrackID = 0, L_Artist = [], L_Title = [], L_DurationSec = 0, L_ISRC = [],
      L_DetailsURL = [], L_ChannelID = 0, L_LikedAt = 0, L_Skip = False, L_SkipReason = []\<rparr>"

definition skip_verdict :: "wire \<Rightarrow> wire_track \<Rightarrow> LikedTrack \<Rightarrow> LikedTrack" where
  "skip_verdict w tr t =
     (if w_episode w \<noteq> None then t\<lparr>L_Skip := True, L_SkipReason := lit ''mix-show episode''\<rparr>
      else if wt_mix tr then t\<lparr>L_Skip := True, L_SkipReason := lit ''DJ mix''\<rparr>
      else if L_DurationSec t > maxTrackLength then
        t\<lparr>L_Skip := True,
          L_SkipReason := lit ''runtime '' @ itoa (L_DurationSec t) @ lit ''s exceeds track threshold''\<rparr>
      else t)"

definition normalize :: "wire \<Rightarrow> LikedTrack \<times> rowVerdict" where
  "normalize w =
     (case w_track w of
        None \<Rightarrow> (zero_like, rowFiltered)
      | Some tr \<Rightarrow>
          if \<not> w_up w then (zero_like, rowFiltered)
          else
            (let title = (if trim_space (wt_display_title tr) = [] then wt_title tr else wt_display_title tr);
                 t = \<lparr>L_VoteID = w_id w, L_TrackID = firstNonZero [w_track_id w, wt_id tr],
                      L_Artist = trim_space (wt_display_artist tr), L_Title = trim_space title,
                      L_DurationSec = wt_length tr, L_ISRC = trim_space (wt_isrc tr),
                      L_DetailsURL = wt_details_url tr, L_ChannelID = w_channel_id w,
                      L_LikedAt = 0, L_Skip = False, L_SkipReason = []\<rparr>
             in if L_TrackID t = 0 \<or> L_Title t = [] then (zero_like, rowDropped)
                else case parse_rfc3339 (w_created_at w) of
                       None \<Rightarrow> (zero_like, rowDropped)
                     | Some ts \<Rightarrow> (skip_verdict w tr (t\<lparr>L_LikedAt := ts\<rparr>), rowOK)))"

subsection \<open>One page\<close>

record pageResult =
  p_tracks :: "LikedTrack list"
  p_voteIDs :: "int list"
  p_rows :: nat
  p_dropped :: nat

definition read_row :: "row \<Rightarrow> pageResult \<Rightarrow> pageResult" where
  "read_row r out =
     (case r of
        Undecoded ident \<Rightarrow>
          (let out = out\<lparr>p_dropped := p_dropped out + 1\<rparr>
           in case ident of
                Some i \<Rightarrow> if i \<noteq> 0 then out\<lparr>p_voteIDs := p_voteIDs out @ [i]\<rparr> else out
              | None \<Rightarrow> out)
      | Decoded w \<Rightarrow>
          (let out = (if w_id w \<noteq> 0 then out\<lparr>p_voteIDs := p_voteIDs out @ [w_id w]\<rparr> else out)
           in case normalize w of
                (t, rowOK) \<Rightarrow> out\<lparr>p_tracks := p_tracks out @ [t]\<rparr>
              | (t, rowDropped) \<Rightarrow> out\<lparr>p_dropped := p_dropped out + 1\<rparr>
              | (t, rowFiltered) \<Rightarrow> out))"

definition read_rows :: "row list \<Rightarrow> pageResult" where
  "read_rows rows =
     fold read_row rows \<lparr>p_tracks = [], p_voteIDs = [], p_rows = length rows, p_dropped = 0\<rparr>"

text \<open>The query string is in the order \<open>url.Values.Encode\<close> gives it.\<close>

definition ascii :: "runes \<Rightarrow> string" where
  "ascii s = map char_of s"

definition page_url :: "Client \<Rightarrow> int \<Rightarrow> string" where
  "page_url c page =
     trim_right CHR ''/'' (BaseURL c) @ ''/'' @ Network c @ ''/members/'' @ path_escape (MemberID c) @
     ''/track_votes?page='' @ ascii (itoa page) @ ''&per_page=100&vote_type=up''"

definition scrubMemberID :: "Client \<Rightarrow> gerr \<Rightarrow> gerr" where
  "scrubMemberID c e =
     (if MemberID c = [] then e
      else case as_url_error e of
             None \<Rightarrow> e
           | Some (verb, url, cause) \<Rightarrow>
               UrlError verb (replace_sub (lit (path_escape (MemberID c))) (lit ''<member-id>'') url) cause)"

definition fetchPage ::
  "Client \<Rightarrow> gotime \<Rightarrow> (runes \<Rightarrow> gotime option) \<Rightarrow> (string \<Rightarrow> row list reply) \<Rightarrow> int \<Rightarrow> gerr + pageResult" where
  "fetchPage c now http_date respond page =
     (let at_page = (\<lambda>e. Wrap (lit ''difm: page '' @ itoa page @ lit '': '') e [])
      in case respond (page_url c page) of
           BadRequest e \<Rightarrow> Inl (Wrap (lit ''difm: build request: '') (scrubMemberID c e) [])
         | NoReply e \<Rightarrow>
             Inl (Wrap (lit ''difm: get track_votes page '' @ itoa page @ lit '': '') (scrubMemberID c e) [])
         | Reply status retry body decoded \<Rightarrow>
             if status = 403 \<or> status = 401 then Inl (at_page (Sentinel DifmErrUnauthorized))
             else if status = 429 then
               Inl (at_page (DifmRateLimit (parseRetryAfter now http_date retry) status))
             else if status \<noteq> 200 then
               Inl (Msg (lit ''difm: page '' @ itoa page @ lit '': unexpected status '' @ itoa status
                         @ lit '': '' @ trim_space body))
             else
               (case decoded of
                  Inl e \<Rightarrow> Inl (Wrap (lit ''difm: decode page '' @ itoa page @ lit '': '') e [])
                | Inr rows \<Rightarrow> Inr (read_rows rows)))"

subsection \<open>The walk\<close>

record walk =
  k_out :: "LikedTrack list"
  k_seen :: "int set"
  k_dropped :: nat

definition mark_seen :: "int \<Rightarrow> int set \<times> int set \<Rightarrow> int set \<times> int set" where
  "mark_seen i sn = (case sn of (seen, new) \<Rightarrow> if i \<in> seen then (seen, new) else (insert i seen, insert i new))"

definition keep_track ::
  "gotime \<Rightarrow> int set \<Rightarrow> LikedTrack \<Rightarrow> LikedTrack list \<times> nat \<times> nat \<Rightarrow> LikedTrack list \<times> nat \<times> nat" where
  "keep_track since new t st =
     (case st of (out, considered, kept) \<Rightarrow>
        if L_VoteID t \<notin> new then st
        else if since \<noteq> 0 \<and> \<not> L_LikedAt t > since then (out, considered + 1, kept)
        else (out @ [t], considered + 1, kept + 1))"

text \<open>
  The loop over the page numbers still allowed. The flag is \<open>complete\<close>: whether the walk
  ended because the list did, and not because the pages ran out.
\<close>

fun walk_pages ::
  "(int \<Rightarrow> gerr + pageResult) \<Rightarrow> gotime \<Rightarrow> int list \<Rightarrow> walk \<Rightarrow> gerr + walk \<times> bool" where
  "walk_pages fetch since [] k = Inr (k, False)"
| "walk_pages fetch since (page # pages) k =
     (case fetch page of
        Inl e \<Rightarrow> Inl e
      | Inr p \<Rightarrow>
          (let k = k\<lparr>k_dropped := k_dropped k + p_dropped p\<rparr>
           in if p_rows p = 0 then Inr (k, True)
              else
                (let (seen, new) = fold mark_seen (p_voteIDs p) (k_seen k, {});
                     (out, considered, kept) = fold (keep_track since new) (p_tracks p) (k_out k, 0, 0);
                     k = k\<lparr>k_out := out, k_seen := seen\<rparr>
                 in if new = {} then Inr (k, True)
                    else if since \<noteq> 0 \<and> considered > 0 \<and> kept = 0 then Inr (k, True)
                    else walk_pages fetch since pages k)))"

definition no_walk :: walk where
  "no_walk = \<lparr>k_out = [], k_seen = {}, k_dropped = 0\<rparr>"

definition ListLikedTracks ::
  "Client \<Rightarrow> gotime \<Rightarrow> (runes \<Rightarrow> gotime option) \<Rightarrow> (string \<Rightarrow> row list reply) \<Rightarrow> gotime \<Rightarrow>
   LikedTrack list \<times> gerr option" where
  "ListLikedTracks c now http_date respond since =
     (case walk_pages (fetchPage c now http_date respond) since (map int [1..<Suc maxPages]) no_walk of
        Inl e \<Rightarrow> ([], Some e)
      | Inr (k, ended) \<Rightarrow>
          (let out = rev (k_out k)
           in if \<not> ended then
                (out, Some (Wrap (lit ''difm: stopped after '' @ itoa (int maxPages) @ lit '' pages: '')
                              (Sentinel DifmErrTruncated) []))
              else if k_dropped k > 0 then
                (out, Some (Wrap (lit ''difm: dropped '' @ itoa (int (k_dropped k)) @ lit '' unreadable record(s): '')
                              (Sentinel DifmErrDropped) []))
              else (out, None)))"

subsection \<open>What a page says\<close>

text \<open>The reference for a list of rows: its likes, its vote ids, its unreadable records.\<close>

definition row_likes :: "row \<Rightarrow> LikedTrack list" where
  "row_likes r = (case r of Undecoded i \<Rightarrow> []
                  | Decoded w \<Rightarrow> (case normalize w of (t, v) \<Rightarrow> if v = rowOK then [t] else []))"

definition row_ids :: "row \<Rightarrow> int list" where
  "row_ids r = (let i = (case r of Undecoded None \<Rightarrow> 0 | Undecoded (Some i) \<Rightarrow> i | Decoded w \<Rightarrow> w_id w)
                in if i = 0 then [] else [i])"

definition unreadable :: "row \<Rightarrow> bool" where
  "unreadable r \<longleftrightarrow> (case r of Undecoded i \<Rightarrow> True | Decoded w \<Rightarrow> snd (normalize w) = rowDropped)"

definition likes_of :: "row list \<Rightarrow> LikedTrack list" where
  "likes_of rows = concat (map row_likes rows)"

definition ids_of :: "row list \<Rightarrow> int list" where
  "ids_of rows = concat (map row_ids rows)"

definition newer :: "gotime \<Rightarrow> LikedTrack \<Rightarrow> bool" where
  "newer since t \<longleftrightarrow> since = 0 \<or> since < L_LikedAt t"

lemma likes_of_simps [simp]:
  "likes_of [] = []" "likes_of (r # rs) = row_likes r @ likes_of rs"
  "likes_of (rs @ rs') = likes_of rs @ likes_of rs'"
  by (simp_all add: likes_of_def)

lemma ids_of_simps [simp]:
  "ids_of [] = []" "ids_of (r # rs) = row_ids r @ ids_of rs" "ids_of (rs @ rs') = ids_of rs @ ids_of rs'"
  by (simp_all add: ids_of_def)

lemma read_row:
  "read_row r out = out\<lparr>p_tracks := p_tracks out @ row_likes r, p_voteIDs := p_voteIDs out @ row_ids r,
     p_dropped := p_dropped out + (if unreadable r then 1 else 0)\<rparr>"
proof (cases r)
  case (Decoded w)
  obtain t v where "normalize w = (t, v)" by fastforce
  with Decoded show ?thesis
    by (cases v) (simp_all add: read_row_def row_likes_def row_ids_def unreadable_def Let_def)
next
  case (Undecoded i)
  then show ?thesis
    by (cases i) (simp_all add: read_row_def row_likes_def row_ids_def unreadable_def Let_def)
qed

lemma fold_read_row:
  "fold read_row rs out = out\<lparr>p_tracks := p_tracks out @ likes_of rs, p_voteIDs := p_voteIDs out @ ids_of rs,
     p_dropped := p_dropped out + length (filter unreadable rs)\<rparr>"
  by (induction rs arbitrary: out) (simp_all add: read_row)

lemma read_rows:
  "read_rows rows = \<lparr>p_tracks = likes_of rows, p_voteIDs = ids_of rows, p_rows = length rows,
     p_dropped = length (filter unreadable rows)\<rparr>"
  by (simp add: read_rows_def fold_read_row)

lemma normalize_ok: "normalize w = (t, rowOK) \<Longrightarrow> L_VoteID t = w_id w"
  by (auto simp: normalize_def skip_verdict_def Let_def split: option.splits if_splits)

lemma row_likes_id: "t \<in> set (row_likes r) \<Longrightarrow> L_VoteID t \<noteq> 0 \<Longrightarrow> L_VoteID t \<in> set (row_ids r)"
  using normalize_ok by (cases r) (auto simp: row_likes_def row_ids_def Let_def split: if_splits prod.splits)

lemma fold_mark_seen: "fold mark_seen ids (seen, new) = (seen \<union> set ids, new \<union> (set ids - seen))"
  by (induction ids arbitrary: seen new) (auto simp: mark_seen_def)

lemma fold_keep_track:
  "fold (keep_track since new) ts (out, a, b) =
     (let cs = filter (\<lambda>t. L_VoteID t \<in> new) ts; ks = filter (newer since) cs
      in (out @ ks, a + length cs, b + length ks))"
  by (induction ts arbitrary: out a b) (auto simp: keep_track_def newer_def Let_def)

subsection \<open>The walk against an honest server\<close>

text \<open>\<open>serves\<close>: from page \<open>m\<close> on, the pages are \<open>Ps\<close>, none of them empty, and then an empty one.\<close>

fun serves :: "Client \<Rightarrow> (string \<Rightarrow> row list reply) \<Rightarrow> int \<Rightarrow> row list list \<Rightarrow> bool" where
  "serves c respond m [] \<longleftrightarrow> (\<exists>retry body. respond (page_url c m) = Reply 200 retry body (Inr []))"
| "serves c respond m (P # Ps) \<longleftrightarrow>
     P \<noteq> [] \<and> (\<exists>retry body. respond (page_url c m) = Reply 200 retry body (Inr P)) \<and> serves c respond (m + 1) Ps"

definition clean_row :: "row \<Rightarrow> bool" where
  "clean_row r \<longleftrightarrow> \<not> unreadable r \<and> row_ids r \<noteq> []"

definition newest_first :: "LikedTrack list \<Rightarrow> bool" where
  "newest_first ts \<longleftrightarrow> sorted_wrt (\<lambda>a b. L_LikedAt b \<le> L_LikedAt a) ts"

lemma clean_likes_id: "\<forall>r\<in>set rs. clean_row r \<Longrightarrow> t \<in> set (likes_of rs) \<Longrightarrow> L_VoteID t \<in> set (ids_of rs)"
proof (induction rs)
  case (Cons r rs)
  show ?case
  proof (cases "t \<in> set (row_likes r)")
    case True
    then have "L_VoteID t \<noteq> 0" using Cons.prems(1) normalize_ok
      by (cases r) (auto simp: row_likes_def clean_row_def row_ids_def Let_def split: if_splits prod.splits)
    then show ?thesis using row_likes_id [OF True] by simp
  next
    case False
    then show ?thesis using Cons by auto
  qed
qed simp

lemma newest_first_stop:
  assumes "newest_first (as @ bs)" and "a \<in> set as" and "\<not> newer since a"
  shows "filter (newer since) bs = []"
  using assms by (fastforce simp: newest_first_def sorted_wrt_append newer_def filter_empty_conv)

lemma fetchPage_ok:
  "respond (page_url c m) = Reply 200 retry body (Inr P) \<Longrightarrow> fetchPage c now http_date respond m = Inr (read_rows P)"
  by (simp add: fetchPage_def Let_def)

lemma walk_pages_complete:
  assumes "serves c respond (int m) Ps" and "m + length Ps \<le> maxPages"
    and "\<forall>r\<in>set (concat Ps). clean_row r" and "distinct (ids_of (concat Ps))"
    and "set (ids_of (concat Ps)) \<inter> k_seen k = {}" and "newest_first (likes_of (concat Ps))"
  shows "\<exists>k'. walk_pages (fetchPage c now http_date respond) since (map int [m..<Suc maxPages]) k = Inr (k', True) \<and>
          k_out k' = k_out k @ filter (newer since) (likes_of (concat Ps)) \<and> k_dropped k' = k_dropped k"
  using assms
proof (induction Ps arbitrary: m k)
  case Nil
  then obtain retry body where "respond (page_url c (int m)) = Reply 200 retry body (Inr [])" by auto
  from fetchPage_ok [of respond c "int m" retry body "[]", OF this] Nil.prems(2) show ?case
    by (simp add: upt_conv_Cons read_rows Let_def del: upt_Suc)
next
  case (Cons P Ps)
  obtain retry body where fetch: "fetchPage c now http_date respond (int m) = Inr (read_rows P)"
    using Cons.prems(1) fetchPage_ok by fastforce
  have P: "P \<noteq> []" "serves c respond (int (Suc m)) Ps" using Cons.prems(1) by (auto simp: add.commute)
  have clean: "\<forall>r\<in>set P. clean_row r" "\<forall>r\<in>set (concat Ps). clean_row r" using Cons.prems(3) by auto
  have ids: "distinct (ids_of (concat Ps))" "set (ids_of P) \<inter> k_seen k = {}"
    "set (ids_of (concat Ps)) \<inter> (k_seen k \<union> set (ids_of P)) = {}"
    using Cons.prems(4,5) by auto
  have sorted: "newest_first (likes_of P @ likes_of (concat Ps))" "newest_first (likes_of (concat Ps))"
    using Cons.prems(6) by (auto simp: newest_first_def sorted_wrt_append)
  have none: "filter unreadable P = []" using clean(1) by (auto simp: filter_empty_conv clean_row_def)
  have new: "set (ids_of P) - k_seen k = set (ids_of P)" using ids(2) by auto
  have all_new: "filter (\<lambda>t. L_VoteID t \<in> set (ids_of P)) (likes_of P) = likes_of P"
    using clean_likes_id [OF clean(1)] by (simp add: filter_id_conv)
  have marks: "fold mark_seen (ids_of P) (k_seen k, {}) = (k_seen k \<union> set (ids_of P), set (ids_of P))"
    by (simp add: fold_mark_seen new)
  have keeps: "fold (keep_track since (set (ids_of P))) (likes_of P) (k_out k, 0, 0) =
      (k_out k @ filter (newer since) (likes_of P), length (likes_of P), length (filter (newer since) (likes_of P)))"
    unfolding fold_keep_track all_new by (simp add: Let_def)
  have some: "set (ids_of P) \<noteq> {}"
    using P(1) clean(1) by (cases P) (auto simp: clean_row_def)
  let ?k = "k\<lparr>k_out := k_out k @ filter (newer since) (likes_of P), k_seen := k_seen k \<union> set (ids_of P)\<rparr>"
  have upt: "map int [m..<Suc maxPages] = int m # map int [Suc m..<Suc maxPages]"
    using Cons.prems(2) by (simp add: upt_conv_Cons del: upt_Suc)
  have step: "walk_pages (fetchPage c now http_date respond) since (map int [m..<Suc maxPages]) k =
      (if since \<noteq> 0 \<and> likes_of P \<noteq> [] \<and> filter (newer since) (likes_of P) = [] then Inr (?k, True)
       else walk_pages (fetchPage c now http_date respond) since (map int [Suc m..<Suc maxPages]) ?k)"
    using P(1) some
    by (simp add: upt fetch read_rows none marks keeps Let_def del: upt_Suc)
  show ?case
  proof (cases "since \<noteq> 0 \<and> likes_of P \<noteq> [] \<and> filter (newer since) (likes_of P) = []")
    case True
    then have "last (likes_of P) \<in> set (likes_of P)" "\<not> newer since (last (likes_of P))"
      by (auto simp: filter_empty_conv)
    from newest_first_stop [OF sorted(1) this] True step show ?thesis by simp
  next
    case False
    have "\<exists>k'. walk_pages (fetchPage c now http_date respond) since (map int [Suc m..<Suc maxPages]) ?k = Inr (k', True) \<and>
        k_out k' = k_out ?k @ filter (newer since) (likes_of (concat Ps)) \<and> k_dropped k' = k_dropped ?k"
      by (rule Cons.IH) (use P(2) Cons.prems(2) clean(2) ids sorted(2) in simp_all)
    with False step show ?thesis by auto
  qed
qed

text \<open>
  C28: the walk is complete. Against a server that serves the member's votes in non-empty pages
  followed by an empty one, newest first and each record readable and with its own vote id,
  \<open>ListLikedTracks\<close> returns exactly the likes newer than the watermark (all of them when there
  is none), oldest first, and no error; stopping early at the watermark loses nothing.
\<close>

theorem ListLikedTracks_complete:
  assumes "serves c respond 1 Ps" and "length Ps < maxPages"
    and "\<forall>r\<in>set (concat Ps). clean_row r" and "distinct (ids_of (concat Ps))"
    and "newest_first (likes_of (concat Ps))"
  shows "ListLikedTracks c now http_date respond since =
           (rev (filter (newer since) (likes_of (concat Ps))), None)"
proof -
  have "\<exists>k'. walk_pages (fetchPage c now http_date respond) since (map int [1..<Suc maxPages]) no_walk = Inr (k', True) \<and>
      k_out k' = k_out no_walk @ filter (newer since) (likes_of (concat Ps)) \<and> k_dropped k' = k_dropped no_walk"
    by (rule walk_pages_complete) (use assms in \<open>simp_all add: no_walk_def\<close>)
  then show ?thesis by (auto simp: ListLikedTracks_def no_walk_def Let_def simp del: upt_Suc)
qed

definition vote :: "int \<Rightarrow> string \<Rightarrow> string \<Rightarrow> row" where
  "vote i title created =
     Decoded \<lparr>w_id = i, w_track_id = 100 + i, w_channel_id = 1, w_created_at = created, w_up = True,
              w_episode = None,
              w_track = Some \<lparr>wt_id = 100 + i, wt_title = lit title, wt_display_title = lit title,
                wt_display_artist = lit ''Chicane'', wt_length = 240, wt_mix = False, wt_isrc = [],
                wt_details_url = []\<rparr>\<rparr>"

definition member :: Client where
  "member = \<lparr>BaseURL = ''https://api.audioaddict.com/v1'', Network = ''di'', APIKey = ''k'', MemberID = ''77''\<rparr>"

definition two_pages :: "row list list" where
  "two_pages = [[vote 3 ''Saltwater'' ''2024-03-03T10:00:00Z'', vote 2 ''Offshore'' ''2024-03-02T10:00:00Z''],
                [vote 1 ''Sunstroke'' ''2024-03-01T10:00:00-04:00'']]"

definition serve_two_pages :: "string \<Rightarrow> row list reply" where
  "serve_two_pages url =
     (if url = page_url member 1 then Reply 200 [] [] (Inr (two_pages ! 0))
      else if url = page_url member 2 then Reply 200 [] [] (Inr (two_pages ! 1))
      else Reply 200 [] [] (Inr []))"

theorem ListLikedTracks_complete_witness:
  "map L_TrackID (fst (ListLikedTracks member 0 (\<lambda>_. None) serve_two_pages
     (the (parse_rfc3339 ''2024-03-01T14:00:00.000Z'')))) = [102, 103]"
proof -
  let ?since = "the (parse_rfc3339 ''2024-03-01T14:00:00.000Z'')"
  have urls: "page_url member 1 \<noteq> page_url member 2" "page_url member 3 \<noteq> page_url member 1"
    "page_url member 3 \<noteq> page_url member 2" by code_simp+
  have "serves member serve_two_pages 1 two_pages"
    using urls by (simp add: two_pages_def serve_two_pages_def)
  moreover have "length two_pages < maxPages" by (simp add: two_pages_def maxPages_def)
  moreover have "list_all clean_row (concat two_pages)" "distinct (ids_of (concat two_pages))"
    "newest_first (likes_of (concat two_pages))" by code_simp+
  ultimately have "ListLikedTracks member 0 (\<lambda>_. None) serve_two_pages ?since =
      (rev (filter (newer ?since) (likes_of (concat two_pages))), None)"
    by (intro ListLikedTracks_complete) (simp_all add: list_all_iff)
  moreover have "map L_TrackID (rev (filter (newer ?since) (likes_of (concat two_pages)))) = [102, 103]"
    by code_simp
  ultimately show ?thesis by simp
qed

subsection \<open>The walk against any server\<close>

definition page_at :: "(int \<Rightarrow> gerr + pageResult) \<Rightarrow> nat \<Rightarrow> pageResult" where
  "page_at fetch j = projr (fetch (int j))"

definition fresh_on :: "(int \<Rightarrow> gerr + pageResult) \<Rightarrow> int set \<Rightarrow> nat \<Rightarrow> nat \<Rightarrow> int set" where
  "fresh_on fetch seen m j =
     set (p_voteIDs (page_at fetch j)) - (seen \<union> (\<Union>i\<in>{m..<j}. set (p_voteIDs (page_at fetch i))))"

lemma fresh_on_step:
  "m < j \<Longrightarrow> fresh_on fetch seen m j = fresh_on fetch (seen \<union> set (p_voteIDs (page_at fetch m))) (Suc m) j"
proof -
  assume "m < j"
  then have "{m..<j} = insert m {Suc m..<j}" by auto
  then show ?thesis by (auto simp: fresh_on_def)
qed

definition walked ::
  "(int \<Rightarrow> gerr + pageResult) \<Rightarrow> gotime \<Rightarrow> nat \<Rightarrow> int set \<Rightarrow> nat \<Rightarrow> LikedTrack list \<Rightarrow> bool" where
  "walked fetch since m seen n out \<longleftrightarrow>
     (\<forall>j\<in>{m..<n}. isl (fetch (int j)) = False \<and> p_dropped (page_at fetch j) = 0 \<and>
        (\<forall>t\<in>set (p_tracks (page_at fetch j)).
           newer since t \<and> L_VoteID t \<in> fresh_on fetch seen m j \<longrightarrow> t \<in> set out))"

lemma walked_step:
  assumes "fetch (int m) = Inr p" "p_dropped p = 0" "m < n"
    and "\<forall>t\<in>set (p_tracks p). newer since t \<and> L_VoteID t \<in> set (p_voteIDs p) - seen \<longrightarrow> t \<in> set out"
    and "walked fetch since (Suc m) (seen \<union> set (p_voteIDs p)) n out"
  shows "walked fetch since m seen n out"
  unfolding walked_def
proof
  fix j
  assume j: "j \<in> {m..<n}"
  have p: "page_at fetch m = p" by (simp add: page_at_def assms(1))
  show "isl (fetch (int j)) = False \<and> p_dropped (page_at fetch j) = 0 \<and>
      (\<forall>t\<in>set (p_tracks (page_at fetch j)). newer since t \<and> L_VoteID t \<in> fresh_on fetch seen m j \<longrightarrow> t \<in> set out)"
  proof (cases "j = m")
    case True
    with assms p show ?thesis by (simp add: fresh_on_def)
  next
    case False
    then have j: "j \<in> {Suc m..<n}" "m < j" using j by auto
    show ?thesis
      using bspec [OF assms(5) [unfolded walked_def] j(1)] fresh_on_step [OF j(2), of fetch seen] p by simp
  qed
qed

lemma walk_pages_keeps:
  assumes "walk_pages fetch since (map int [m..<M]) k = Inr (k', ended)" and "k_dropped k' = 0"
    and empty: "\<And>pg p. fetch pg = Inr p \<Longrightarrow> p_rows p = 0 \<Longrightarrow> p_tracks p = []"
  shows "\<exists>n. n \<le> M \<and> (ended \<longrightarrow> m < n) \<and> k_dropped k = 0 \<and> set (k_out k) \<subseteq> set (k_out k') \<and>
           walked fetch since m (k_seen k) n (k_out k')"
  using assms(1,2)
proof (induction "M - m" arbitrary: m k)
  case 0
  then show ?case by (auto simp: walked_def intro!: exI [of _ "min m M"])
next
  case (Suc l)
  then have upt: "map int [m..<M] = int m # map int [Suc m..<M]" and mM: "m < M"
    by (simp_all add: upt_conv_Cons)
  from Suc.prems(1) upt obtain p where p: "fetch (int m) = Inr p"
    by (cases "fetch (int m)") auto
  let ?k1 = "k\<lparr>k_dropped := k_dropped k + p_dropped p\<rparr>"
  let ?new = "set (p_voteIDs p) - k_seen k"
  let ?cs = "filter (\<lambda>t. L_VoteID t \<in> ?new) (p_tracks p)"
  let ?ks = "filter (newer since) ?cs"
  let ?k2 = "?k1\<lparr>k_out := k_out k @ ?ks, k_seen := k_seen k \<union> set (p_voteIDs p)\<rparr>"
  have step: "walk_pages fetch since (map int [m..<M]) k =
      (if p_rows p = 0 then Inr (?k1, True)
       else if ?new = {} then Inr (?k2, True)
       else if since \<noteq> 0 \<and> ?cs \<noteq> [] \<and> ?ks = [] then Inr (?k2, True)
       else walk_pages fetch since (map int [Suc m..<M]) ?k2)"
    by (simp add: upt p fold_mark_seen fold_keep_track Let_def)
  have kept: "\<forall>t\<in>set (p_tracks p). newer since t \<and> L_VoteID t \<in> ?new \<longrightarrow> t \<in> set out"
    if "set (k_out k @ ?ks) \<subseteq> set out" for out using that by auto
  have single: "walked fetch since m (k_seen k) (Suc m) out"
    if "p_dropped p = 0" "\<forall>t\<in>set (p_tracks p). newer since t \<and> L_VoteID t \<in> ?new \<longrightarrow> t \<in> set out" for out
    using that by (intro walked_step [where fetch = fetch and m = m, OF p]) (auto simp: walked_def)
  consider "p_rows p = 0" "k' = ?k1" "ended" | "p_rows p \<noteq> 0" "k' = ?k2" "ended"
    | "p_rows p \<noteq> 0" "walk_pages fetch since (map int [Suc m..<M]) ?k2 = Inr (k', ended)"
    using Suc.prems(1) unfolding step by (auto split: if_splits)
  then show ?case
  proof cases
    case 1
    then have "p_dropped p = 0" "k_dropped k = 0" using Suc.prems(2) by simp_all
    with single [of "k_out k'"] empty [OF p 1(1)] 1 mM show ?thesis
      by (intro exI [of _ "Suc m"]) simp
  next
    case 2
    then have "p_dropped p = 0" "k_dropped k = 0" using Suc.prems(2) by simp_all
    with single [of "k_out k'"] kept [of "k_out k'"] 2 mM show ?thesis
      by (intro exI [of _ "Suc m"]) simp
  next
    case 3
    have "l = M - Suc m" using Suc.hyps(2) by simp
    from Suc.hyps(1) [OF this 3(2) Suc.prems(2)] obtain n where n: "n \<le> M" "ended \<longrightarrow> Suc m < n"
      "k_dropped ?k2 = 0" "set (k_out ?k2) \<subseteq> set (k_out k')"
      "walked fetch since (Suc m) (k_seen ?k2) n (k_out k')" by auto
    then have d: "p_dropped p = 0" "k_dropped k = 0" by simp_all
    have w: "walked fetch since m (k_seen k) (max n (Suc m)) (k_out k')"
      by (rule walked_step [where fetch = fetch and m = m, OF p d(1)]) (use n kept [of "k_out k'"] in \<open>auto simp: walked_def max_def\<close>)
    show ?thesis
      by (rule exI [of _ "max n (Suc m)"]) (use n d w mM in auto)
  qed
qed

lemma fetchPage_Inr:
  assumes "fetchPage c now http_date respond pg = Inr p"
  obtains retry body rows where "respond (page_url c pg) = Reply 200 retry body (Inr rows)" "p = read_rows rows"
  using assms by (auto simp: fetchPage_def Let_def split: reply.splits if_splits sum.splits)



text \<open>
  C30: the one record the walk does lose without a word: a like whose vote id is missing or zero.
  It is not counted as unreadable, it brings no vote id, and so \<open>ListLikedTracks\<close> ends the walk
  there and reports a clean, empty result, although the record decodes and is a proper like.
\<close>

theorem vote_without_id_is_lost:
  "w_id w = 0 \<Longrightarrow> snd (normalize w) = rowOK \<Longrightarrow>
   ListLikedTracks c now http_date (\<lambda>url. Reply 200 [] [] (Inr [Decoded w])) since = ([], None)"
proof -
  assume w: "w_id w = 0" "snd (normalize w) = rowOK"
  obtain t where t: "normalize w = (t, rowOK)" using w(2) by (metis prod.collapse)
  then have "read_rows [Decoded w] = \<lparr>p_tracks = [t], p_voteIDs = [], p_rows = 1, p_dropped = 0\<rparr>"
    by (simp add: read_rows row_likes_def row_ids_def unreadable_def w(1))
  moreover have "map int [1..<Suc maxPages] = 1 # map int [2..<Suc maxPages]"
    by (simp add: maxPages_def upt_conv_Cons numeral_2_eq_2 del: upt_Suc)
  ultimately show ?thesis
    by (simp add: ListLikedTracks_def fetchPage_def keep_track_def no_walk_def Let_def del: upt_Suc)
qed

theorem vote_without_id_is_lost_witness:
  "ListLikedTracks member 0 (\<lambda>_. None) (\<lambda>url. Reply 200 [] [] (Inr [vote 0 ''Saltwater'' ''2024-03-03T10:00:00Z''])) 0
     = ([], None)"
proof -
  have "\<exists>w. vote 0 ''Saltwater'' ''2024-03-03T10:00:00Z'' = Decoded w \<and> w_id w = 0 \<and> snd (normalize w) = rowOK"
    unfolding vote_def by (intro exI conjI, rule refl, simp, code_simp)
  then show ?thesis using vote_without_id_is_lost by force
qed

subsection \<open>Errors\<close>

text \<open>
  Every reply has its verdict. 401 and 403 are \<open>ErrUnauthorized\<close>, 429 is
  \<open>ErrRateLimited\<close> and carries the header's hint, nothing else is either; only status 200 with
  a body that decodes gives a page, and any other first page gives no likes and an error.
\<close>

theorem fetchPage_verdict:
  "case respond (page_url c 1) of
     Reply status retry body decoded \<Rightarrow>
       (case fetchPage c now http_date respond 1 of
          Inr p \<Rightarrow> status = 200 \<and> \<not> isl decoded
        | Inl e \<Rightarrow>
            (isl decoded \<or> status \<noteq> 200) \<and>
            ListLikedTracks c now http_date respond since = ([], Some e) \<and>
            (status \<noteq> 200 \<or> (\<exists>cause. decoded = Inl cause \<and> (\<forall>s. errors_is e s = errors_is cause s))) \<and>
            (status = 200 \<or> (\<forall>s. errors_is e s =
               ((status = 401 \<or> status = 403) \<and> s = DifmErrUnauthorized \<or> status = 429 \<and> s = DifmErrRateLimited))) \<and>
            (status \<noteq> 429 \<or> as_difm_rate_limit e = Some (parseRetryAfter now http_date retry)))
   | BadRequest e \<Rightarrow> snd (ListLikedTracks c now http_date respond since) \<noteq> None
   | NoReply e \<Rightarrow> snd (ListLikedTracks c now http_date respond since) \<noteq> None"
proof -
  have "map int [1..<Suc maxPages] = 1 # map int [2..<Suc maxPages]"
    by (simp add: maxPages_def upt_conv_Cons numeral_2_eq_2 del: upt_Suc)
  then have "ListLikedTracks c now http_date respond since = ([], Some e)"
    if "fetchPage c now http_date respond 1 = Inl e" for e
    using that by (simp add: ListLikedTracks_def del: upt_Suc)
  then show ?thesis
    by (auto simp: fetchPage_def Let_def split: reply.splits sum.splits)
qed

theorem fetchPage_verdict_witness:
  "map_option as_difm_rate_limit
     (snd (ListLikedTracks member 0 (\<lambda>_. None) (\<lambda>url. Reply 429 (lit ''7'') [] (Inr [])) 0))
   = Some (Some (7 * second))"
proof -
  let ?srv = "\<lambda>url. Reply 429 (lit ''7'') [] (Inr []) :: row list reply"
  have "parseRetryAfter 0 (\<lambda>_. None) (lit ''7'') = 7 * second" by code_simp
  moreover obtain e where "fetchPage member 0 (\<lambda>_. None) ?srv 1 = Inl e"
    by (auto simp: fetchPage_def Let_def)
  ultimately show ?thesis
    using fetchPage_verdict [where respond = ?srv and c = member and now = 0 and http_date = "\<lambda>_. None" and since = 0]
    by auto
qed

end
