(* ===== verification/Engine.thy ===== *)
theory Engine
  imports SpotifyLaws Difm
begin

text \<open>
  One sync pass, \<open>internal/syncer/engine.go\<close>: \<open>pass\<close> from reloading the account to the
  watermark, with the \<open>sync_runs\<close> row opened first and closed on every way out.

  \<^item> \<open>process_like\<close> is one iteration of the loop over the fetched likes: skip, already synced,
    search, and the four arms of the switch. It either goes on with a new \<open>pass_state\<close> (what the
    closures \<open>fail\<close>, \<open>advance\<close> and \<open>record\<close> and the pending lists share) or aborts the pass.
  \<^item> \<open>post_pending\<close> re-reads the playlist and adds what is still missing; \<open>commit_pass\<close> writes the
    ledger rows and the watermark in one transaction.
  \<^item> \<open>pass\<close> composes them and \<open>close_run\<close> is the deferred \<open>FinishRun\<close>.

  The environment adds to the network's what DI.fm answers to a walk started at a step
  (\<open>d_pages\<close>) and whether the context is canceled by then (\<open>c_err\<close>). The log lines are left out.
\<close>

subsection \<open>State\<close>

record eng_env = net_env +
  d_pages :: "nat \<Rightarrow> string \<Rightarrow> row list reply"
  c_err :: "nat \<Rightarrow> gerr option"

record Engine =
  eg_difm :: Client
  eg_account :: Account
  eg_playlist :: string
  eg_auto :: score
  eg_review :: score

record pass_state =
  ps_stats :: RunStats
  ps_clean :: bool
  ps_high :: gotime
  ps_in :: "string set"
  ps_ids :: "string list"
  ps_ledge :: "SyncedTrack list"

definition fail :: "gerr \<Rightarrow> pass_state \<Rightarrow> pass_state" where
  "fail e ps =
     ps\<lparr>ps_clean := False,
        ps_stats := (if Err (ps_stats ps) = None then (ps_stats ps)\<lparr>Err := Some e\<rparr> else ps_stats ps)\<rparr>"

definition later :: "gotime \<Rightarrow> gotime \<Rightarrow> gotime" where
  "later t high = (if t > high then t else high)"

definition advance :: "gotime \<Rightarrow> pass_state \<Rightarrow> pass_state" where
  "advance t ps = ps\<lparr>ps_high := later t (ps_high ps)\<rparr>"

subsection \<open>Small steps\<close>

definition bestOf :: "Scored list \<Rightarrow> Scored option" where
  "bestOf candidates = (case candidates of [] \<Rightarrow> None | c # _ \<Rightarrow> Some c)"

definition topN :: "Scored list \<Rightarrow> nat \<Rightarrow> Scored list" where
  "topN candidates n = (if length candidates > n then take n candidates else candidates)"

definition ledgerEntry :: "Engine \<Rightarrow> int \<Rightarrow> LikedTrack \<Rightarrow> Scored \<Rightarrow> SyncedTrack" where
  "ledgerEntry g accountID like best =
     \<lparr>S_AccountID = accountID, S_DifmTrackID = L_TrackID like, S_DifmVoteID = L_VoteID like,
      S_SpotifyTrackID = C_ID (Cand best), S_PlaylistID = eg_playlist g, S_Artist = L_Artist like,
      S_Title = L_Title like, S_MatchScore = SScore best, S_LikedAt = L_LikedAt like\<rparr>"

definition review_item :: "Engine \<Rightarrow> LikedTrack \<Rightarrow> Scored list \<Rightarrow> string \<Rightarrow> ReviewItem" where
  "review_item g like candidates reason =
     \<lparr>R_AccountID = A_ID (eg_account g), R_DifmTrackID = L_TrackID like, R_DifmVoteID = L_VoteID like,
      R_Artist = L_Artist like, R_Title = L_Title like, R_DurationSec = L_DurationSec like,
      R_DetailsURL = L_DetailsURL like, R_Candidates = topN candidates 5,
      R_BestScore = (case bestOf candidates of None \<Rightarrow> 0 | Some b \<Rightarrow> SScore b),
      R_Reason = reason, R_Status = [], R_LikedAt = L_LikedAt like\<rparr>"

definition enqueue :: "'e eng_env_scheme \<Rightarrow> Engine \<Rightarrow> LikedTrack \<Rightarrow> Scored list \<Rightarrow> string \<Rightarrow> ('z, unit) wop" where
  "enqueue E g like candidates reason w = Enqueue E (review_item g like candidates reason) w"

definition record_like ::
  "'e eng_env_scheme \<Rightarrow> Engine \<Rightarrow> bool \<Rightarrow> LikedTrack \<Rightarrow> Scored list \<Rightarrow> string \<Rightarrow> pass_state \<Rightarrow>
   'z world_scheme \<Rightarrow> bool \<times> pass_state \<times> 'z world_scheme" where
  "record_like E g dryRun like candidates reason ps w =
     (if dryRun then (True, ps, w)
      else case enqueue E g like candidates reason w of
             (Inl e, w') \<Rightarrow> (False, fail e ps, w')
           | (Inr _, w') \<Rightarrow> (True, advance (L_LikedAt like) ps, w'))"

definition count_queued :: "bool \<Rightarrow> pass_state \<Rightarrow> pass_state" where
  "count_queued ok ps = (if ok then ps\<lparr>ps_stats := (ps_stats ps)\<lparr>Queued := Queued (ps_stats ps) + 1\<rparr>\<rparr> else ps)"

definition count_skipped :: "bool \<Rightarrow> pass_state \<Rightarrow> pass_state" where
  "count_skipped ok ps = (if ok then ps\<lparr>ps_stats := (ps_stats ps)\<lparr>Skipped := Skipped (ps_stats ps) + 1\<rparr>\<rparr> else ps)"

subsection \<open>One like\<close>

datatype outcome = Next pass_state | Abort RunStats gerr

definition abort_with :: "pass_state \<Rightarrow> gerr \<Rightarrow> gerr \<Rightarrow> outcome" where
  "abort_with ps e returned = Abort ((ps_stats ps)\<lparr>Err := Some e\<rparr>) returned"

text \<open>The switch on the best candidate.\<close>

definition decide ::
  "'e eng_env_scheme \<Rightarrow> Engine \<Rightarrow> bool \<Rightarrow> LikedTrack \<Rightarrow> Scored list \<Rightarrow> pass_state \<Rightarrow>
   'z world_scheme \<Rightarrow> pass_state \<times> 'z world_scheme" where
  "decide E g dryRun like candidates ps w =
     (let queue = (\<lambda>reason. case record_like E g dryRun like candidates reason ps w of
                              (ok, ps', w') \<Rightarrow> (count_queued ok ps', w'));
          acct = A_ID (eg_account g)
      in case bestOf candidates of
           None \<Rightarrow> queue ReasonNoMatch
         | Some best \<Rightarrow>
             if SScore best \<ge> eg_auto g \<and> C_ID (Cand best) \<in> ps_in ps then
               (if dryRun then (ps, w)
                else (ps\<lparr>ps_ledge := ps_ledge ps @ [ledgerEntry g acct like best]\<rparr>, w))
             else if SScore best \<ge> eg_auto g then
               (ps\<lparr>ps_ids := ps_ids ps @ [C_ID (Cand best)],
                   ps_ledge := ps_ledge ps @ [ledgerEntry g acct like best],
                   ps_in := insert (C_ID (Cand best)) (ps_in ps)\<rparr>, w)
             else if SScore best \<ge> eg_review g then queue ReasonLowConfidence
             else queue ReasonNoMatch)"

definition process_like ::
  "'e eng_env_scheme \<Rightarrow> Engine \<Rightarrow> bool \<Rightarrow> LikedTrack \<Rightarrow> pass_state \<Rightarrow> 'z world_scheme \<Rightarrow>
   outcome \<times> 'z world_scheme" where
  "process_like E g dryRun like ps w =
     (if L_Skip like then
        (case record_like E g dryRun like [] ReasonSkipped ps w of
           (ok, ps', w') \<Rightarrow> (Next (count_skipped ok ps'), w'))
      else
        case IsSynced E (A_ID (eg_account g)) (L_TrackID like) (eg_playlist g) w of
          (Inl e, w') \<Rightarrow> (abort_with ps e e, w')
        | (Inr True, w') \<Rightarrow> (Next (advance (L_LikedAt like) ps), w')
        | (Inr False, w') \<Rightarrow>
            (case Search E (L_Artist like) (L_Title like) (L_DurationSec like) (L_ISRC like) w' of
               (Inl e, w'') \<Rightarrow>
                 if stops e then (abort_with ps e (Wrap (lit ''spotify search: '') e []), w'')
                 else (Next (fail e ps), w'')
             | (Inr candidates, w'') \<Rightarrow>
                 (case decide E g dryRun like candidates ps w'' of (ps', w''') \<Rightarrow> (Next ps', w'''))))"

fun process_likes ::
  "'e eng_env_scheme \<Rightarrow> Engine \<Rightarrow> bool \<Rightarrow> LikedTrack list \<Rightarrow> pass_state \<Rightarrow> 'z world_scheme \<Rightarrow>
   outcome \<times> 'z world_scheme" where
  "process_likes E g dryRun [] ps w = (Next ps, w)"
| "process_likes E g dryRun (like # likes) ps w =
     (case process_like E g dryRun like ps w of
        (Abort st e, w') \<Rightarrow> (Abort st e, w')
      | (Next ps', w') \<Rightarrow> process_likes E g dryRun likes ps' w')"

subsection \<open>Writing\<close>

definition post_pending :: "'e eng_env_scheme \<Rightarrow> Engine \<Rightarrow> pass_state \<Rightarrow> 'z world_scheme \<Rightarrow> outcome \<times> 'z world_scheme" where
  "post_pending E g ps w =
     (if ps_ids ps = [] then (Next ps, w)
      else case PlaylistTrackIDs E (eg_playlist g) w of
             (Inl e, w') \<Rightarrow> (abort_with ps e (Wrap (lit ''re-read playlist before add: '') e []), w')
           | (Inr current, w') \<Rightarrow>
               (let fresh = filter (\<lambda>i. i \<notin> current) (ps_ids ps);
                    counted = ps\<lparr>ps_stats := (ps_stats ps)\<lparr>Added := int (length fresh)\<rparr>\<rparr>
                in if fresh = [] then (Next counted, w')
                   else case AddToPlaylist E (eg_playlist g) fresh w' of
                          (Inl e, w'') \<Rightarrow> (abort_with ps e e, w'')
                        | (Inr _, w'') \<Rightarrow> (Next counted, w'')))"

type_synonym pass_result = "RunStats \<times> gerr option \<times> Engine"

definition incomplete_error :: "gerr option \<Rightarrow> gerr" where
  "incomplete_error first =
     (case first of
        Some e \<Rightarrow> Wrap2 [] (Sentinel ErrPassIncomplete) (lit '': '') e []
      | None \<Rightarrow> Wrap [] (Sentinel ErrPassIncomplete) (lit '': %!w(<nil>)''))"

definition write_ledger :: "'e eng_env_scheme \<Rightarrow> SyncedTrack list \<Rightarrow> int \<Rightarrow> gotime option \<Rightarrow> ('z, unit) wop" where
  "write_ledger E entries acct mark =
     bind_op (each_op (RecordSynced E) entries)
       (\<lambda>_. case mark of Some t \<Rightarrow> SetWatermark E acct t | None \<Rightarrow> (\<lambda>w. (Inr (), w)))"

definition commit_pass :: "'e eng_env_scheme \<Rightarrow> Engine \<Rightarrow> pass_state \<Rightarrow> 'z world_scheme \<Rightarrow> pass_result \<times> 'z world_scheme" where
  "commit_pass E g ps w =
     (let high = fold (\<lambda>entry. later (S_LikedAt entry)) (ps_ledge ps) (ps_high ps);
          account = eg_account g; stats = ps_stats ps
      in case c_err E (s_tick w) of
           Some e \<Rightarrow> ((stats\<lparr>Err := Some e\<rparr>, Some e, g), w)
         | None \<Rightarrow>
             (let advanceMark = (ps_clean ps \<and> high > A_WatermarkLikedAt account);
                  mark = (if advanceMark then Some high else None);
                  (r, w') = (if ps_ledge ps \<noteq> [] \<or> advanceMark
                             then InTx E (write_ledger E (ps_ledge ps) (A_ID account) mark) w
                             else (Inr (), w));
                  g' = (if advanceMark then g\<lparr>eg_account := account\<lparr>A_WatermarkLikedAt := high\<rparr>\<rparr> else g)
              in case r of
                   Inl e \<Rightarrow> ((stats\<lparr>Err := Some e\<rparr>, Some e, g), w')
                 | Inr _ \<Rightarrow>
                     if \<not> ps_clean ps then
                       ((stats\<lparr>StKind := KindIncomplete\<rparr>, Some (incomplete_error (Err stats)), g'), w')
                     else ((stats, None, g'), w')))"

subsection \<open>The pass\<close>

definition start_state :: "Engine \<Rightarrow> pass_state" where
  "start_state g =
     \<lparr>ps_stats = zero_stats, ps_clean = True, ps_high = A_WatermarkLikedAt (eg_account g), ps_in = {},
      ps_ids = [], ps_ledge = []\<rparr>"

definition dry_result :: "Engine \<Rightarrow> pass_state \<Rightarrow> pass_result" where
  "dry_result g ps =
     (let st = (if ps_clean ps then ps_stats ps else (ps_stats ps)\<lparr>StKind := KindIncomplete\<rparr>)
      in (st\<lparr>Added := int (length (ps_ids ps))\<rparr>, None, g))"

text \<open>From the reconciliation read to the end, for the likes that were fetched.\<close>

definition sync_likes ::
  "'e eng_env_scheme \<Rightarrow> Engine \<Rightarrow> bool \<Rightarrow> LikedTrack list \<Rightarrow> pass_state \<Rightarrow> 'z world_scheme \<Rightarrow> pass_result \<times> 'z world_scheme" where
  "sync_likes E g dryRun likes ps w =
     (let ps = ps\<lparr>ps_stats := (ps_stats ps)\<lparr>Fetched := int (length likes)\<rparr>\<rparr>
      in case PlaylistTrackIDs E (eg_playlist g) w of
           (Inl e, w') \<Rightarrow>
             (((ps_stats ps)\<lparr>Err := Some e\<rparr>, Some (Wrap (lit ''reconcile playlist contents: '') e []), g), w')
         | (Inr inPlaylist, w') \<Rightarrow>
             (case process_likes E g dryRun likes (ps\<lparr>ps_in := inPlaylist\<rparr>) w' of
                (Abort st e, w'') \<Rightarrow> ((st, Some e, g), w'')
              | (Next ps', w'') \<Rightarrow>
                  if dryRun then (dry_result g ps', w'')
                  else (case post_pending E g ps' w'' of
                          (Abort st e, w3) \<Rightarrow> ((st, Some e, g), w3)
                        | (Next ps'', w3) \<Rightarrow> commit_pass E g ps'' w3)))"

definition fetch_likes ::
  "'e eng_env_scheme \<Rightarrow> Engine \<Rightarrow> 'z world_scheme \<Rightarrow> (LikedTrack list \<times> gerr option) \<times> 'z world_scheme" where
  "fetch_likes E g w =
     (ListLikedTracks (eg_difm g) (e_now E (s_tick w)) (n_http_date E) (d_pages E (s_tick w))
        (A_WatermarkLikedAt (eg_account g)),
      w\<lparr>s_tick := s_tick w + 1\<rparr>)"

definition run_pass :: "'e eng_env_scheme \<Rightarrow> Engine \<Rightarrow> bool \<Rightarrow> 'z world_scheme \<Rightarrow> pass_result \<times> 'z world_scheme" where
  "run_pass E g dryRun w =
     (let ps = start_state g; ((likes, err), w') = fetch_likes E g w
      in case err of
           None \<Rightarrow> sync_likes E g dryRun likes ps w'
         | Some e \<Rightarrow>
             if errors_is e DifmErrDropped then sync_likes E g dryRun likes (fail e ps) w'
             else if errors_is e DifmErrUnauthorized then
               (((ps_stats ps)\<lparr>Err := Some e\<rparr>, Some (Wrap (lit ''fetch likes: '') e []), g), w')
             else (((ps_stats ps)\<lparr>Err := Some e\<rparr>, Some e, g), w'))"

definition classify :: "gerr \<Rightarrow> RunErrorKind" where
  "classify e =
     (if errors_is e ErrPassIncomplete then KindIncomplete
      else if errors_is e SpErrGrantRevoked then KindSpotifyGrantRevoked
      else if errors_is e DifmErrUnauthorized then KindDiFMUnauthorized
      else if errors_is e SpErrRateLimited \<or> errors_is e DifmErrRateLimited then KindRateLimited
      else KindError)"

text \<open>The deferred function: classify what has no kind yet, then close the row, come what may.\<close>

definition close_run :: "'e eng_env_scheme \<Rightarrow> int \<Rightarrow> RunStats \<Rightarrow> 'z world_scheme \<Rightarrow> 'z world_scheme" where
  "close_run E runID stats w =
     (let stats' = (case Err stats of
                      Some e \<Rightarrow> if StKind stats = [] then stats\<lparr>StKind := classify e\<rparr> else stats
                    | None \<Rightarrow> stats)
      in snd (FinishRun E runID stats' w))"

definition pass :: "'e eng_env_scheme \<Rightarrow> Engine \<Rightarrow> bool \<Rightarrow> 'z world_scheme \<Rightarrow> pass_result \<times> 'z world_scheme" where
  "pass E g dryRun w =
     (case GetAccount E (A_Label (eg_account g)) w of
        (Inl e, w') \<Rightarrow> ((zero_stats\<lparr>Err := Some e\<rparr>, Some (Wrap (lit ''reload account: '') e []), g), w')
      | (Inr account, w') \<Rightarrow>
          (let g = g\<lparr>eg_account := account\<rparr>
           in case StartRun E (A_ID account) dryRun w' of
                (Inl e, w'') \<Rightarrow> ((zero_stats, Some e, g), w'')
              | (Inr runID, w'') \<Rightarrow>
                  (case run_pass E g dryRun w'' of
                     ((stats, err, g'), w3) \<Rightarrow> ((stats, err, g'), close_run E runID stats w3))))"

end
