(* ===== verification/EngineLaws.thy ===== *)
theory EngineLaws
  imports StoreOps Engine
begin

text \<open>
  What a sync pass guarantees, whatever fails along the way: no track is added to the playlist
  twice, no ledger row runs ahead of the playlist, a clean pass leaves every fetched like durable
  before the watermark passes it, any failure holds the watermark where it was, a dry run writes
  nothing, and the run's row ends with the kind of the error the pass returned.

  \<open>loop_inv\<close> is the invariant of the loop over the likes; everything rests on it.
\<close>

subsection \<open>Frames\<close>

definition grown :: "'e net_env_scheme \<Rightarrow> 'z world_scheme \<Rightarrow> 'z world_scheme \<Rightarrow> bool" where
  "grown E w w' \<longleftrightarrow>
     s_tx w' = s_tx w \<and> s_tick w \<le> s_tick w' \<and>
     (\<forall>pl. \<exists>more. playlists w' pl = playlists w pl @ more) \<and>
     (quiet E \<longrightarrow> playlists w' = playlists w)"

lemma grown_refl [simp]: "grown E w w"
  by (simp add: grown_def)

lemma grown_trans [trans]: "grown E w1 w2 \<Longrightarrow> grown E w2 w3 \<Longrightarrow> grown E w1 w3"
  unfolding grown_def by (metis append_assoc le_trans)

lemma grown_reads: "reads E w w' \<Longrightarrow> grown E w w'"
  by (simp add: grown_def reads_def)

lemma playlists_more: "store.more w' = store.more w \<Longrightarrow> playlists w' = playlists w"
  by (cases w; cases w') simp

lemma grown_same_rest: "same_rest w w' \<Longrightarrow> grown E w w'"
  using playlists_more [of w' w] by (simp add: grown_def same_rest_def)

lemma grown_mono: "grown E w w' \<Longrightarrow> set (playlists w pl) \<subseteq> set (playlists w' pl)"
  unfolding grown_def by (metis set_append Un_upper1)

subsection \<open>The invariant of the loop\<close>

definition durable :: "int \<Rightarrow> string \<Rightarrow> db \<Rightarrow> LikedTrack \<Rightarrow> bool" where
  "durable acct pl d like \<longleftrightarrow> synced d (acct, L_TrackID like, pl) \<or> queued d acct (L_TrackID like)"

definition pending :: "SyncedTrack list \<Rightarrow> LikedTrack \<Rightarrow> bool" where
  "pending entries like \<longleftrightarrow>
     (\<exists>e\<in>set entries. S_DifmTrackID e = L_TrackID like \<and> S_LikedAt e = L_LikedAt like)"

definition known_id :: "'e net_env_scheme \<Rightarrow> string \<Rightarrow> bool" where
  "known_id E i \<longleftrightarrow> (\<exists>n q. \<exists>t\<in>set (n_catalog E n q). to_id t = i)"

text \<open>
  \<open>likes\<close> are the likes handled so far, \<open>init\<close> the playlist as reconciled: the ids to post are
  new, a failure is recorded, every pending row is for a track that is or will be in the
  playlist, and as long as nothing failed every like is durable or pending.
\<close>

definition ids_inv :: "'e net_env_scheme \<Rightarrow> string set \<Rightarrow> pass_state \<Rightarrow> bool" where
  "ids_inv E init ps \<longleftrightarrow>
     ps_in ps = init \<union> set (ps_ids ps) \<and> distinct (ps_ids ps) \<and> set (ps_ids ps) \<inter> init = {} \<and>
     (\<forall>i\<in>set (ps_ids ps). known_id E i)"

definition err_inv :: "pass_state \<Rightarrow> bool" where
  "err_inv ps \<longleftrightarrow> (ps_clean ps \<longleftrightarrow> Err (ps_stats ps) = None) \<and> StKind (ps_stats ps) = []"

definition ledge_inv :: "Engine \<Rightarrow> pass_state \<Rightarrow> bool" where
  "ledge_inv g ps \<longleftrightarrow>
     (\<forall>e\<in>set (ps_ledge ps). S_AccountID e = A_ID (eg_account g) \<and> S_PlaylistID e = eg_playlist g \<and>
        S_SpotifyTrackID e \<in> ps_in ps)"

definition done_inv :: "Engine \<Rightarrow> db \<Rightarrow> LikedTrack list \<Rightarrow> pass_state \<Rightarrow> bool" where
  "done_inv g d likes ps \<longleftrightarrow>
     (ps_clean ps \<longrightarrow>
        (\<forall>l\<in>set likes. pending (ps_ledge ps) l \<or>
           durable (A_ID (eg_account g)) (eg_playlist g) d l \<and> L_LikedAt l \<le> ps_high ps)) \<and>
     ps_high ps \<in> insert (A_WatermarkLikedAt (eg_account g)) (L_LikedAt ` set likes) \<and>
     A_WatermarkLikedAt (eg_account g) \<le> ps_high ps \<and>
     S_LikedAt ` set (ps_ledge ps) \<subseteq> L_LikedAt ` set likes"

definition loop_inv ::
  "'e net_env_scheme \<Rightarrow> Engine \<Rightarrow> string set \<Rightarrow> 'z world_scheme \<Rightarrow> LikedTrack list \<Rightarrow> pass_state \<Rightarrow> 'z world_scheme \<Rightarrow> bool" where
  "loop_inv E g init w0 likes ps w \<longleftrightarrow>
     grown E w0 w \<and> reviews_grow (s_db w0) (s_db w) \<and>
     ids_inv E init ps \<and> err_inv ps \<and> ledge_inv g ps \<and> done_inv g (s_db w) likes ps"

lemma ids_inv_frame [simp]:
  "ids_inv E init (ps\<lparr>ps_stats := s\<rparr>) = ids_inv E init ps" "ids_inv E init (ps\<lparr>ps_clean := c\<rparr>) = ids_inv E init ps"
  "ids_inv E init (ps\<lparr>ps_high := h\<rparr>) = ids_inv E init ps" "ids_inv E init (ps\<lparr>ps_ledge := es\<rparr>) = ids_inv E init ps"
  by (simp_all add: ids_inv_def)

lemma err_inv_frame [simp]:
  "err_inv (ps\<lparr>ps_high := h\<rparr>) = err_inv ps" "err_inv (ps\<lparr>ps_in := i\<rparr>) = err_inv ps"
  "err_inv (ps\<lparr>ps_ids := ids\<rparr>) = err_inv ps" "err_inv (ps\<lparr>ps_ledge := es\<rparr>) = err_inv ps"
  by (simp_all add: err_inv_def)

lemma ledge_inv_frame [simp]:
  "ledge_inv g (ps\<lparr>ps_stats := s\<rparr>) = ledge_inv g ps" "ledge_inv g (ps\<lparr>ps_clean := c\<rparr>) = ledge_inv g ps"
  "ledge_inv g (ps\<lparr>ps_high := h\<rparr>) = ledge_inv g ps" "ledge_inv g (ps\<lparr>ps_ids := ids\<rparr>) = ledge_inv g ps"
  by (simp_all add: ledge_inv_def)

lemma done_inv_frame [simp]:
  "done_inv g d ls (ps\<lparr>ps_stats := s\<rparr>) = done_inv g d ls ps" "done_inv g d ls (ps\<lparr>ps_in := i\<rparr>) = done_inv g d ls ps"
  "done_inv g d ls (ps\<lparr>ps_ids := ids\<rparr>) = done_inv g d ls ps"
  by (simp_all add: done_inv_def)

lemma durable_grow:
  "durable a pl d l \<Longrightarrow> reviews_grow d d' \<Longrightarrow> durable a pl d' l"
  unfolding durable_def using reviews_grow_frame(4) reviews_grow_queued by blast

lemma done_inv_grow: "done_inv g d likes ps \<Longrightarrow> reviews_grow d d' \<Longrightarrow> done_inv g d' likes ps"
  unfolding done_inv_def using durable_grow by blast

text \<open>A step that changes only the world, one that fails, and one that makes the like durable.\<close>

lemma loop_inv_frame:
  assumes "loop_inv E g init w0 likes ps w" "grown E w w'" "reviews_grow (s_db w) (s_db w')"
  shows "loop_inv E g init w0 likes ps w'"
  using assms grown_trans [of E w0 w w'] reviews_grow_trans [of "s_db w0" "s_db w" "s_db w'"] done_inv_grow
  unfolding loop_inv_def by blast

lemma loop_inv_fail:
  "loop_inv E g init w0 likes ps w \<Longrightarrow> loop_inv E g init w0 (likes @ [l]) (fail e ps) w"
  by (auto simp: loop_inv_def fail_def err_inv_def done_inv_def)

lemma done_inv_durable:
  assumes "done_inv g d likes ps" "durable (A_ID (eg_account g)) (eg_playlist g) d l"
  shows "done_inv g d (likes @ [l]) (advance (L_LikedAt l) ps)"
proof -
  let ?h = "later (L_LikedAt l) (ps_high ps)"
  have h: "ps_high ps \<le> ?h" "L_LikedAt l \<le> ?h" "?h = L_LikedAt l \<or> ?h = ps_high ps" by (auto simp: later_def)
  have "pending (ps_ledge ps) k \<or> durable (A_ID (eg_account g)) (eg_playlist g) d k \<and> L_LikedAt k \<le> ?h"
    if "ps_clean ps" "k \<in> set (likes @ [l])" for k
    using that assms h(1,2) unfolding done_inv_def by (cases "k = l") (auto intro: order_trans)
  moreover have "?h \<in> insert (A_WatermarkLikedAt (eg_account g)) (L_LikedAt ` set (likes @ [l]))"
    using h(3) assms(1) by (auto simp: done_inv_def)
  moreover have "A_WatermarkLikedAt (eg_account g) \<le> ?h" using h(1) assms(1) by (simp add: done_inv_def)
  moreover have "S_LikedAt ` set (ps_ledge ps) \<subseteq> L_LikedAt ` set (likes @ [l])"
    using assms(1) by (auto simp: done_inv_def)
  ultimately show ?thesis unfolding done_inv_def advance_def by simp
qed

lemma loop_inv_durable:
  assumes "loop_inv E g init w0 likes ps w" "durable (A_ID (eg_account g)) (eg_playlist g) (s_db w) l"
  shows "loop_inv E g init w0 (likes @ [l]) (advance (L_LikedAt l) ps) w"
  using assms done_inv_durable [of g "s_db w" likes ps l]
  by (simp add: loop_inv_def) (simp add: advance_def)

lemma loop_inv_pending:
  assumes "loop_inv E g init w0 likes ps w" "S_SpotifyTrackID e \<in> ps_in ps"
    and "S_AccountID e = A_ID (eg_account g)" "S_PlaylistID e = eg_playlist g"
    and "S_DifmTrackID e = L_TrackID l" "S_LikedAt e = L_LikedAt l"
  shows "loop_inv E g init w0 (likes @ [l]) (ps\<lparr>ps_ledge := ps_ledge ps @ [e]\<rparr>) w"
proof -
  let ?ps = "ps\<lparr>ps_ledge := ps_ledge ps @ [e]\<rparr>"
  have "pending (ps_ledge ?ps) l" "\<And>l. pending (ps_ledge ps) l \<Longrightarrow> pending (ps_ledge ?ps) l"
    using assms(5,6) by (auto simp: pending_def)
  then have "done_inv g (s_db w) (likes @ [l]) ?ps"
    using assms(1,6) unfolding loop_inv_def done_inv_def by auto
  moreover have "ledge_inv g ?ps" using assms(1-4) by (simp add: loop_inv_def ledge_inv_def)
  ultimately show ?thesis using assms(1) by (simp add: loop_inv_def)
qed

lemma loop_inv_post:
  assumes "loop_inv E g init w0 likes ps w" "i \<notin> ps_in ps" "known_id E i"
  shows "loop_inv E g init w0 likes (ps\<lparr>ps_ids := ps_ids ps @ [i], ps_in := insert i (ps_in ps)\<rparr>) w"
  using assms by (auto simp: loop_inv_def ids_inv_def ledge_inv_def)

lemma loop_inv_stats:
  assumes "loop_inv E g init w0 likes ps w" "Err st = Err (ps_stats ps)" "StKind st = StKind (ps_stats ps)"
  shows "loop_inv E g init w0 likes (ps\<lparr>ps_stats := st\<rparr>) w"
  using assms by (simp add: loop_inv_def err_inv_def)

lemma loop_inv_count:
  assumes "loop_inv E g init w0 likes ps w"
  shows "loop_inv E g init w0 likes (count_queued ok ps) w" "loop_inv E g init w0 likes (count_skipped ok ps) w"
  using loop_inv_stats [OF assms, of "(ps_stats ps)\<lparr>Queued := Queued (ps_stats ps) + 1\<rparr>"]
    loop_inv_stats [OF assms, of "(ps_stats ps)\<lparr>Skipped := Skipped (ps_stats ps) + 1\<rparr>"] assms
  by (simp_all add: count_queued_def count_skipped_def)

subsection \<open>One like keeps it\<close>

lemma record_like_inv:
  assumes "loop_inv E g init w0 likes ps w" and "record_like E g False l cs reason ps w = (ok, ps', w')"
  shows "loop_inv E g init w0 (likes @ [l]) ps' w'"
proof -
  obtain r w1 where e: "enqueue E g l cs reason w = (r, w1)" by fastforce
  note R = Enqueue_result [OF e [unfolded enqueue_def]]
  have inv: "loop_inv E g init w0 likes ps w1"
    by (rule loop_inv_frame [OF assms(1) grown_same_rest [OF R(1)] R(2)])
  show ?thesis
  proof (cases r)
    case (Inl x)
    with assms(2) e inv show ?thesis by (auto simp: record_like_def intro: loop_inv_fail)
  next
    case (Inr x)
    from R(3) [OF this] have "durable (A_ID (eg_account g)) (eg_playlist g) (s_db w1) l"
      by (simp add: durable_def review_item_def)
    with assms(2) e inv Inr show ?thesis by (auto simp: record_like_def intro: loop_inv_durable)
  qed
qed

lemma searchByISRC_known:
  assumes "searchByISRC E isrc w = (Inr (Some c), w')"
  shows "known_id E (C_ID (Cand c))"
proof -
  obtain items w1 t where q: "searchQuery E (lit ''isrc:'' @ trim_space isrc) w = (Inr items, w1)"
    and f: "List.find (isrc_hit (n_ucd E) (trim_space isrc)) items = Some t"
    and c: "C_ID (Cand c) = to_id t"
    using assms
    by (auto simp: searchByISRC_def Let_def toCandidate_def simp del: lit_simps
        split: if_splits prod.splits sum.splits)
  have "t \<in> set items" using f by (auto simp: find_Some_iff)
  then show ?thesis using searchQuery_Inr [OF q] c by (auto simp: known_id_def)
qed

lemma Search_known:
  assumes "Search E artist title dur isrc w = (Inr cs, w')" and "c \<in> set cs"
  shows "known_id E (C_ID (Cand c))"
proof -
  obtain a w1 where i: "searchByISRC E isrc w = (a, w1)" by fastforce
  obtain b w2 where q: "try_queries E (search_queries (n_ucd E) artist title) None w1 = (b, w2)" by fastforce
  have "(a = Inr (Some c)) \<or> (\<exists>found. b = Inr found \<and> (\<exists>t\<in>set found. C_ID (Cand c) = to_id t))"
    using assms i q
    by (auto simp: Search_def Let_def ScoreCandidate_def toCandidate_def split: sum.splits option.splits) blast
  then show ?thesis
  proof
    assume "a = Inr (Some c)"
    then show ?thesis using searchByISRC_known [of E isrc w c w1] i by simp
  next
    assume "\<exists>found. b = Inr found \<and> (\<exists>t\<in>set found. C_ID (Cand c) = to_id t)"
    then obtain found t where f: "b = Inr found" "t \<in> set found" "C_ID (Cand c) = to_id t" by blast
    then have "found \<noteq> []" by auto
    with try_queries_found [of E "search_queries (n_ucd E) artist title" None w1 found w2] q f
    show ?thesis by (auto simp: known_id_def)
  qed
qed

text \<open>\<open>aborted\<close>: what the run row will say about an aborted pass is what the pass returns.\<close>

definition aborted :: "RunStats \<Rightarrow> gerr \<Rightarrow> bool" where
  "aborted st e \<longleftrightarrow> StKind st = [] \<and> (\<exists>e0. Err st = Some e0 \<and> (\<forall>s. errors_is e s = errors_is e0 s))"

definition outcome_inv ::
  "'e net_env_scheme \<Rightarrow> Engine \<Rightarrow> string set \<Rightarrow> 'z world_scheme \<Rightarrow> LikedTrack list \<Rightarrow> outcome \<Rightarrow> 'z world_scheme \<Rightarrow> bool" where
  "outcome_inv E g init w0 likes out w \<longleftrightarrow>
     (case out of Next ps \<Rightarrow> loop_inv E g init w0 likes ps w
      | Abort st e \<Rightarrow> grown E w0 w \<and> reviews_grow (s_db w0) (s_db w) \<and> aborted st e)"

lemma outcome_inv_Next [simp]: "outcome_inv E g init w0 likes (Next ps) w = loop_inv E g init w0 likes ps w"
  by (simp add: outcome_inv_def)

lemma aborted_stats:
  assumes "loop_inv E g init w0 likes ps w" "\<forall>s. errors_is e s = errors_is e0 s"
  shows "outcome_inv E g init w0 likes' (abort_with ps e0 e) w"
  using assms by (auto simp: outcome_inv_def abort_with_def aborted_def loop_inv_def err_inv_def)

lemma decide_inv:
  assumes inv: "loop_inv E g init w0 likes ps w" and known: "\<forall>c\<in>set cs. known_id E (C_ID (Cand c))"
    and d: "decide E g False l cs ps w = (ps', w')"
  shows "loop_inv E g init w0 (likes @ [l]) ps' w'"
proof -
  have queue: "loop_inv E g init w0 (likes @ [l]) ps' w'"
    if "(case record_like E g False l cs reason ps w of (ok, ps', w') \<Rightarrow> (count_queued ok ps', w')) = (ps', w')" for reason
    using that record_like_inv [OF inv, of l cs reason] loop_inv_count
    by (auto split: prod.splits)
  show ?thesis
  proof (cases "bestOf cs")
    case None
    with d queue show ?thesis by (simp add: decide_def Let_def)
  next
    case (Some best)
    have best: "known_id E (C_ID (Cand best))"
      using known Some by (auto simp: bestOf_def split: list.splits)
    let ?e = "ledgerEntry g (A_ID (eg_account g)) l best" and ?i = "C_ID (Cand best)"
    let ?posted = "ps\<lparr>ps_ids := ps_ids ps @ [?i], ps_in := insert ?i (ps_in ps)\<rparr>"
    consider "SScore best \<ge> eg_auto g" "?i \<in> ps_in ps" | "SScore best \<ge> eg_auto g" "?i \<notin> ps_in ps"
      | "\<not> SScore best \<ge> eg_auto g" by blast
    then show ?thesis
    proof cases
      case 1
      then have "ps' = ps\<lparr>ps_ledge := ps_ledge ps @ [?e]\<rparr>" "w' = w"
        using d Some by (simp_all add: decide_def Let_def)
      then show ?thesis using loop_inv_pending [OF inv, of ?e l] 1(2) by (simp add: ledgerEntry_def)
    next
      case 2
      then have "ps' = ?posted\<lparr>ps_ledge := ps_ledge ?posted @ [?e]\<rparr>" "w' = w"
        using d Some by (auto simp: decide_def Let_def)
      then show ?thesis
        using loop_inv_pending [OF loop_inv_post [OF inv 2(2) best], of ?e l] by (simp add: ledgerEntry_def)
    next
      case 3
      with d Some queue show ?thesis by (simp add: decide_def Let_def split: if_splits)
    qed
  qed
qed

lemma process_like_inv:
  assumes inv: "loop_inv E g init w0 likes ps w" and p: "process_like E g False l ps w = (out, w')"
  shows "outcome_inv E g init w0 (likes @ [l]) out w'"
proof (cases "L_Skip l")
  case True
  obtain ok ps1 w1 where r: "record_like E g False l [] ReasonSkipped ps w = (ok, ps1, w1)" by (metis prod_cases3)
  with p True loop_inv_count(2) [OF record_like_inv [OF inv r]] show ?thesis
    by (auto simp: process_like_def)
next
  case False
  obtain r w1 where s: "IsSynced E (A_ID (eg_account g)) (L_TrackID l) (eg_playlist g) w = (r, w1)" by fastforce
  note S = IsSynced_result [OF s]
  have inv1: "loop_inv E g init w0 likes ps w1"
    using loop_inv_frame [OF inv grown_same_rest [OF S(1)]] S(2) by simp
  consider e where "r = Inl e" | "r = Inr True" | "r = Inr False" by (cases r) auto
  then show ?thesis
  proof cases
    case 1
    with p False s have "out = abort_with ps e e" "w' = w1" by (simp_all add: process_like_def)
    then show ?thesis using aborted_stats [OF inv1] by simp
  next
    case 2
    with S have "durable (A_ID (eg_account g)) (eg_playlist g) (s_db w1) l" by (simp add: durable_def)
    with 2 p False s loop_inv_durable [OF inv1] show ?thesis by (auto simp: process_like_def)
  next
    case 3
    obtain q w2 where f: "Search E (L_Artist l) (L_Title l) (L_DurationSec l) (L_ISRC l) w1 = (q, w2)" by fastforce
    have inv2: "loop_inv E g init w0 likes ps w2"
      using loop_inv_frame [OF inv1 grown_reads [OF reads_Search [OF f]]] reads_Search [OF f]
      by (simp add: reads_def)
    show ?thesis
    proof (cases q)
      case (Inl e)
      show ?thesis
      proof (cases "stops e")
        case True
        with p False s 3 f Inl have "out = abort_with ps e (Wrap (lit ''spotify search: '') e [])" "w' = w2"
          by (simp_all add: process_like_def del: lit_simps)
        then show ?thesis using aborted_stats [OF inv2] by simp
      next
        case not_stops: False
        with p False s 3 f Inl have "out = Next (fail e ps)" "w' = w2" by (simp_all add: process_like_def)
        then show ?thesis using loop_inv_fail [OF inv2] by simp
      qed
    next
      case (Inr cs)
      obtain ps3 w3 where d: "decide E g False l cs ps w2 = (ps3, w3)" by fastforce
      with p False s 3 f Inr have "out = Next ps3" "w' = w3" by (simp_all add: process_like_def)
      moreover have "\<forall>c\<in>set cs. known_id E (C_ID (Cand c))" using Search_known [OF f [unfolded Inr]] by blast
      ultimately show ?thesis using decide_inv [OF inv2 _ d] by simp
    qed
  qed
qed

lemma process_likes_inv:
  assumes "loop_inv E g init w0 done ps w" and "process_likes E g False likes ps w = (out, w')"
  shows "outcome_inv E g init w0 (done @ likes) out w'"
  using assms
proof (induction likes arbitrary: "done" ps w)
  case Nil
  then show ?case by auto
next
  case (Cons l likes)
  obtain o1 w1 where p: "process_like E g False l ps w = (o1, w1)" by fastforce
  note now = process_like_inv [OF Cons.prems(1) p]
  show ?case
  proof (cases o1)
    case (Next ps1)
    then show ?thesis using Cons.IH [of "done @ [l]" ps1 w1] Cons.prems(2) p now by simp
  next
    case (Abort st e)
    then show ?thesis using Cons.prems(2) p now by (auto simp: outcome_inv_def)
  qed
qed

subsection \<open>Posting\<close>

text \<open>
  \<open>posts\<close>: the playlists only grow, and if nobody else writes to them the program appends, to its
  one playlist, tracks that are different from each other and from what the playlist held.
\<close>

definition posts :: "'e net_env_scheme \<Rightarrow> string \<Rightarrow> 'z world_scheme \<Rightarrow> 'z world_scheme \<Rightarrow> bool" where
  "posts E pl w w' \<longleftrightarrow>
     (\<forall>p. \<exists>more. playlists w' p = playlists w p @ more) \<and>
     (quiet E \<longrightarrow>
        (\<exists>posted. distinct posted \<and> (\<forall>i\<in>set posted. known_id E i \<and> i \<notin> real_ids (playlists w pl)) \<and>
           playlists w' = (playlists w)(pl := playlists w pl @ posted)))"

lemma posts_grown: "grown E w w' \<Longrightarrow> posts E pl w w'"
  unfolding posts_def grown_def by (auto intro!: exI [of _ "[]"])

lemma posts_appends:
  "appends E pl ids w w' \<Longrightarrow> distinct ids \<Longrightarrow> \<forall>i\<in>set ids. known_id E i \<and> i \<notin> real_ids (playlists w pl) \<Longrightarrow>
   posts E pl w w'"
  unfolding posts_def appends_def by blast

lemma grown_posts: "grown E w1 w2 \<Longrightarrow> posts E pl w2 w3 \<Longrightarrow> posts E pl w1 w3"
  unfolding posts_def grown_def by (metis append_assoc)

lemma posts_grown_trans: "posts E pl w1 w2 \<Longrightarrow> grown E w2 w3 \<Longrightarrow> posts E pl w1 w3"
  unfolding posts_def grown_def by (metis append_assoc)

lemma posts_mono: "posts E pl w w' \<Longrightarrow> set (playlists w p) \<subseteq> set (playlists w' p)"
  unfolding posts_def by (metis set_append Un_upper1)

lemma appends_mono: "appends E pl ids w w' \<Longrightarrow> set (playlists w pl) \<union> set ids \<subseteq> set (playlists w' pl)"
  unfolding appends_def by (metis Un_mono order_refl set_append)

lemma real_ids_sub: "real_ids xs \<subseteq> set xs"
  by (auto simp: real_ids_def)

lemma post_pending_result:
  assumes inv: "loop_inv E g init w0 likes ps w" and p: "post_pending E g ps w = (out, w')"
  shows "posts E (eg_playlist g) w w'" "s_db w' = s_db w"
    "case out of
       Next ps' \<Rightarrow> (\<exists>n. ps' = ps\<lparr>ps_stats := (ps_stats ps)\<lparr>Added := n\<rparr>\<rparr>) \<and>
         set (ps_ids ps) \<subseteq> set (playlists w' (eg_playlist g))
     | Abort st e \<Rightarrow> aborted st e"
proof -
  let ?pl = "eg_playlist g"
  have ids: "distinct (ps_ids ps)" "\<forall>i\<in>set (ps_ids ps). known_id E i"
    using inv by (simp_all add: loop_inv_def ids_inv_def)
  have ab: "aborted ((ps_stats ps)\<lparr>Err := Some e0\<rparr>) e" if "\<forall>s. errors_is e s = errors_is e0 s" for e e0
    using that inv by (auto simp: aborted_def loop_inv_def err_inv_def)
  have id: "\<exists>n. ps = ps\<lparr>ps_stats := (ps_stats ps)\<lparr>Added := n\<rparr>\<rparr>" by (rule exI [of _ "Added (ps_stats ps)"]) simp
  have "posts E ?pl w w' \<and> s_db w' = s_db w \<and>
    (case out of
       Next ps' \<Rightarrow> (\<exists>n. ps' = ps\<lparr>ps_stats := (ps_stats ps)\<lparr>Added := n\<rparr>\<rparr>) \<and> set (ps_ids ps) \<subseteq> set (playlists w' ?pl)
     | Abort st e \<Rightarrow> aborted st e)"
  proof (cases "ps_ids ps = []")
    case True
    with p id show ?thesis by (auto simp: post_pending_def intro!: posts_grown)
  next
    case False
    obtain r w1 where r: "PlaylistTrackIDs E ?pl w = (r, w1)" by fastforce
    note P = PlaylistTrackIDs_result [OF r]
    have fr: "grown E w w1" "s_db w1 = s_db w" using P(1) by (simp_all add: grown_reads) (simp add: reads_def)
    show ?thesis
    proof (cases r)
      case (Inl e)
      with p False r fr ab show ?thesis
        by (auto simp: post_pending_def abort_with_def intro: posts_grown simp del: lit_simps)
    next
      case (Inr current)
      have cur: "current = real_ids (playlists w1 ?pl)" using P(2) Inr by simp
      let ?fresh = "filter (\<lambda>i. i \<notin> current) (ps_ids ps)"
      have fresh: "set (ps_ids ps) \<subseteq> set (playlists w1 ?pl) \<union> set ?fresh"
        using cur real_ids_sub [of "playlists w1 ?pl"] by auto
      show ?thesis
      proof (cases "?fresh = []")
        case True
        have "out = Next (ps\<lparr>ps_stats := (ps_stats ps)\<lparr>Added := int (length ?fresh)\<rparr>\<rparr>)" "w' = w1"
          using p False r Inr True by (simp_all add: post_pending_def Let_def)
        moreover have "set (ps_ids ps) \<subseteq> set (playlists w1 ?pl)" using fresh True by simp
        ultimately show ?thesis using fr posts_grown [OF fr(1)] by auto
      next
        case some: False
        obtain q w2 where a: "AddToPlaylist E ?pl ?fresh w1 = (q, w2)" by fastforce
        from AddToPlaylist_result [OF a] obtain k where
          k: "appends E ?pl (take k ?fresh) w1 w2" "q = Inr () \<longrightarrow> take k ?fresh = ?fresh" by blast
        have "\<forall>i\<in>set (take k ?fresh). known_id E i \<and> i \<notin> real_ids (playlists w1 ?pl)"
          using ids cur by (auto dest: in_set_takeD)
        then have posts: "posts E ?pl w w2"
          using posts_appends [OF k(1)] ids(1) grown_posts [OF fr(1)] by (simp add: distinct_take)
        have db: "s_db w2 = s_db w" using k(1) fr by (simp add: appends_def)
        show ?thesis
        proof (cases q)
          case (Inl e)
          have "out = abort_with ps e e" "w' = w2"
            using p False r Inr some a Inl by (simp_all add: post_pending_def Let_def)
          then show ?thesis using posts db ab by (simp add: abort_with_def)
        next
          case q: (Inr u)
          have "out = Next (ps\<lparr>ps_stats := (ps_stats ps)\<lparr>Added := int (length ?fresh)\<rparr>\<rparr>)" "w' = w2"
            using p False r Inr some a q by (simp_all add: post_pending_def Let_def)
          moreover have "set (ps_ids ps) \<subseteq> set (playlists w2 ?pl)"
            using fresh appends_mono [OF k(1)] k(2) q by auto
          ultimately show ?thesis using posts db by auto
        qed
      qed
    qed
  qed
  then show "posts E (eg_playlist g) w w'" "s_db w' = s_db w"
    "case out of
       Next ps' \<Rightarrow> (\<exists>n. ps' = ps\<lparr>ps_stats := (ps_stats ps)\<lparr>Added := n\<rparr>\<rparr>) \<and>
         set (ps_ids ps) \<subseteq> set (playlists w' (eg_playlist g))
     | Abort st e \<Rightarrow> aborted st e" by blast+
qed

subsection \<open>Committing\<close>

definition run_kind :: "RunStats \<Rightarrow> RunErrorKind" where
  "run_kind st = (case Err st of Some e \<Rightarrow> if StKind st = [] then classify e else StKind st | None \<Rightarrow> StKind st)"

text \<open>The stats of a real pass tell what it returned: no error, or an error of the same kind.\<close>

definition reported :: "RunStats \<Rightarrow> gerr option \<Rightarrow> bool" where
  "reported st err \<longleftrightarrow>
     (Err st = None \<longleftrightarrow> err = None) \<and> run_kind st = (case err of None \<Rightarrow> [] | Some e \<Rightarrow> classify e)"

lemma reported_aborted: "aborted st e \<Longrightarrow> reported st (Some e)"
proof -
  assume "aborted st e"
  then obtain e0 where "StKind st = []" "Err st = Some e0" and same: "\<forall>s. errors_is e s = errors_is e0 s"
    unfolding aborted_def by blast
  moreover have "classify e = classify e0" unfolding classify_def by (simp only: same)
  ultimately show ?thesis by (simp add: reported_def run_kind_def)
qed

definition high_water :: "gotime \<Rightarrow> LikedTrack list \<Rightarrow> gotime" where
  "high_water old likes = Max (insert old (L_LikedAt ` set likes))"

lemma fold_later:
  "fold (\<lambda>e. later (f e)) es h \<in> insert h (f ` set es)"
  "x \<in> insert h (f ` set es) \<Longrightarrow> x \<le> fold (\<lambda>e. later (f e)) es h"
proof -
  have "h \<le> fold (\<lambda>e. later (f e)) es h \<and> fold (\<lambda>e. later (f e)) es h \<in> insert h (f ` set es) \<and>
      (\<forall>e\<in>set es. f e \<le> fold (\<lambda>e. later (f e)) es h)" for h
  proof (induction es arbitrary: h)
    case (Cons e es)
    have "h \<le> later (f e) h" "f e \<le> later (f e) h" "later (f e) h = f e \<or> later (f e) h = h"
      by (auto simp: later_def)
    with Cons.IH [of "later (f e) h"] show ?case by auto
  qed simp
  then show "fold (\<lambda>e. later (f e)) es h \<in> insert h (f ` set es)"
    "x \<in> insert h (f ` set es) \<Longrightarrow> x \<le> fold (\<lambda>e. later (f e)) es h" by auto
qed

text \<open>The transaction: what it writes if it commits.\<close>

lemma each_op_frame:
  assumes "\<And>x w r w'. f x w = (r, w') \<Longrightarrow> same_rest w w'" and "each_op f xs w = (r, w')"
  shows "same_rest w w'"
  using assms(2)
proof (induction xs arbitrary: w)
  case Nil
  then show ?case by simp
next
  case (Cons x xs)
  obtain a w1 where x: "f x w = (a, w1)" by fastforce
  note now = assms(1) [OF x]
  show ?case
    using Cons x same_rest_trans [OF now] now by (cases a) (auto simp: bind_op_def)
qed

lemma query_op_frame: "map_res f g (query E q w) = (r, w') \<Longrightarrow> same_rest w w'"
  using map_res_result query_result(1) by blast

lemma write_ledger_frame:
  assumes "write_ledger E es acct mark w = (r, w')"
  shows "same_rest w w'"
proof -
  obtain a w1 where e: "each_op (RecordSynced E) es w = (a, w1)" by fastforce
  have f: "same_rest w w1"
    by (rule each_op_frame [OF _ e]) (simp add: RecordSynced_def query_op_frame)
  show ?thesis
    using assms e f same_rest_trans [OF f]
    by (cases a; cases mark) (auto simp: write_ledger_def bind_op_def SetWatermark_def dest!: query_op_frame)
qed

definition watermarked :: "int \<Rightarrow> gotime option \<Rightarrow> account_row list \<Rightarrow> account_row list" where
  "watermarked acct mark rows =
     (case mark of None \<Rightarrow> rows
      | Some t \<Rightarrow> update_where (\<lambda>a. ar_id a = acct) (\<lambda>a. a\<lparr>ar_watermark := format_time t\<rparr>) rows)"

lemma write_ledger_result:
  assumes "write_ledger E es acct mark w = (Inr x, w')" and "account_exists acct (s_db w)"
    and "\<forall>e\<in>set es. S_AccountID e = acct"
  shows "accounts (s_db w') = watermarked acct mark (accounts (s_db w))"
    "review_queue (s_db w') = review_queue (s_db w)" "sync_runs (s_db w') = sync_runs (s_db w)"
    "set (synced_tracks (s_db w')) \<subseteq> set (synced_tracks (s_db w)) \<union>
       {r. \<exists>t\<in>set es. sr_spotify r = S_SpotifyTrackID t \<and> sr_playlist r = S_PlaylistID t}"
    "synced (s_db w') k \<longleftrightarrow> synced (s_db w) k \<or> k \<in> (\<lambda>e. (S_AccountID e, S_DifmTrackID e, S_PlaylistID e)) ` set es"
proof -
  obtain w1 where e: "each_op (RecordSynced E) es w = (Inr (), w1)"
    and m: "(case mark of Some t \<Rightarrow> SetWatermark E acct t | None \<Rightarrow> (\<lambda>w. (Inr (), w))) w1 = (Inr x, w')"
    using assms(1) by (auto simp: write_ledger_def bind_op_def split: prod.splits sum.splits)
  from record_all [OF e] obtain rows where R: "ledger_only (s_db w) (s_db w1)"
    "map snd rows = map synced_params es" "s_db w1 = fold record_row rows (s_db w)"
    "set (synced_tracks (s_db w1)) \<subseteq> set (synced_tracks (s_db w)) \<union>
       {r. \<exists>t\<in>set es. sr_spotify r = S_SpotifyTrackID t \<and> sr_playlist r = S_PlaylistID t}" by blast
  have w': "s_db w' = (s_db w1)\<lparr>accounts := watermarked acct mark (accounts (s_db w1))\<rparr>"
    using m SetWatermark_result(2) by (cases mark) (auto simp: watermarked_def)
  note L = ledger_only_frame [OF R(1)]
  show "accounts (s_db w') = watermarked acct mark (accounts (s_db w))"
    "review_queue (s_db w') = review_queue (s_db w)" "sync_runs (s_db w') = sync_runs (s_db w)"
    using w' L(1,2,3) by simp_all
  show "set (synced_tracks (s_db w')) \<subseteq> set (synced_tracks (s_db w)) \<union>
       {r. \<exists>t\<in>set es. sr_spotify r = S_SpotifyTrackID t \<and> sr_playlist r = S_PlaylistID t}"
    using w' R(4) by simp
  have ok: "\<forall>e\<in>set rows. entry_ok e (s_db w)"
  proof
    fix e assume "e \<in> set rows"
    then have "snd e \<in> set (map synced_params es)" using R(2) by (metis image_eqI list.set_map)
    then show "entry_ok e (s_db w)" using assms(2,3) by (auto simp: entry_ok_def synced_params_def)
  qed
  have "entry_key ` set rows = ledger_key ` set (map snd rows)" by (auto simp: entry_key_def image_image)
  also have "\<dots> = (\<lambda>e. (S_AccountID e, S_DifmTrackID e, S_PlaylistID e)) ` set es"
    unfolding R(2) by (simp add: image_image ledger_key_def synced_params_def)
  finally show "synced (s_db w') k \<longleftrightarrow>
      synced (s_db w) k \<or> k \<in> (\<lambda>e. (S_AccountID e, S_DifmTrackID e, S_PlaylistID e)) ` set es"
    using synced_ledger.holds_fold [OF ok, of k] w' R(3) by (auto simp: synced_def)
qed

lemma high_water_unique:
  assumes "h \<in> insert old (L_LikedAt ` set likes)" "old \<le> h" "\<forall>l\<in>set likes. L_LikedAt l \<le> h"
  shows "high_water old likes = h"
  unfolding high_water_def using assms by (intro Max_eqI) auto

definition mark_of :: "Engine \<Rightarrow> LikedTrack list \<Rightarrow> gotime option" where
  "mark_of g likes =
     (let old = A_WatermarkLikedAt (eg_account g); high = high_water old likes
      in if high > old then Some high else None)"

text \<open>What a pass leaves in the database, for the likes it handled.\<close>

definition settled :: "Engine \<Rightarrow> LikedTrack list \<Rightarrow> gerr option \<Rightarrow> 'z world_scheme \<Rightarrow> 'z world_scheme \<Rightarrow> bool" where
  "settled g likes err w w' \<longleftrightarrow>
     sync_runs (s_db w') = sync_runs (s_db w) \<and> remembers (s_db w) (s_db w') \<and>
     set (synced_tracks (s_db w')) \<subseteq> set (synced_tracks (s_db w)) \<union>
       {r. sr_playlist r = eg_playlist g \<and> sr_spotify r \<in> set (playlists w' (eg_playlist g))} \<and>
     (case err of
        Some e \<Rightarrow> accounts (s_db w') = accounts (s_db w)
      | None \<Rightarrow> accounts (s_db w') = watermarked (A_ID (eg_account g)) (mark_of g likes) (accounts (s_db w)) \<and>
          (\<forall>l\<in>set likes. durable (A_ID (eg_account g)) (eg_playlist g) (s_db w') l))"

lemma high_water_loop:
  assumes "done_inv g d likes ps" "ps_clean ps"
  shows "high_water (A_WatermarkLikedAt (eg_account g)) likes
         = fold (\<lambda>e. later (S_LikedAt e)) (ps_ledge ps) (ps_high ps)" (is "_ = ?h")
proof (rule high_water_unique)
  have D: "\<forall>l\<in>set likes. pending (ps_ledge ps) l \<or> L_LikedAt l \<le> ps_high ps"
    "ps_high ps \<in> insert (A_WatermarkLikedAt (eg_account g)) (L_LikedAt ` set likes)"
    "A_WatermarkLikedAt (eg_account g) \<le> ps_high ps" "S_LikedAt ` set (ps_ledge ps) \<subseteq> L_LikedAt ` set likes"
    using assms unfolding done_inv_def by simp_all blast
  have ge: "x \<in> insert (ps_high ps) (S_LikedAt ` set (ps_ledge ps)) \<Longrightarrow> x \<le> ?h" for x by (rule fold_later(2))
  show "?h \<in> insert (A_WatermarkLikedAt (eg_account g)) (L_LikedAt ` set likes)"
    using fold_later(1) [of S_LikedAt "ps_ledge ps" "ps_high ps"] D(2) subsetD [OF D(4), of ?h]
    by (elim insertE) simp_all
  show "A_WatermarkLikedAt (eg_account g) \<le> ?h" using ge [of "ps_high ps"] D(3) by simp
  show "\<forall>l\<in>set likes. L_LikedAt l \<le> ?h"
  proof
    fix l
    assume "l \<in> set likes"
    then consider "pending (ps_ledge ps) l" | "L_LikedAt l \<le> ps_high ps" using D(1) by blast
    then show "L_LikedAt l \<le> ?h"
    proof cases
      case 1
      then have "L_LikedAt l \<in> S_LikedAt ` set (ps_ledge ps)" unfolding pending_def by (metis image_eqI)
      then show ?thesis using ge by blast
    next
      case 2
      then show ?thesis using ge [of "ps_high ps"] by simp
    qed
  qed
qed

definition written :: "int \<Rightarrow> SyncedTrack list \<Rightarrow> gotime option \<Rightarrow> db \<Rightarrow> db \<Rightarrow> bool" where
  "written acct es mark d d' \<longleftrightarrow>
     accounts d' = watermarked acct mark (accounts d) \<and> review_queue d' = review_queue d \<and>
     sync_runs d' = sync_runs d \<and>
     set (synced_tracks d') \<subseteq> set (synced_tracks d) \<union>
       {r. \<exists>t\<in>set es. sr_spotify r = S_SpotifyTrackID t \<and> sr_playlist r = S_PlaylistID t} \<and>
     (\<forall>k. synced d' k \<longleftrightarrow> synced d k \<or> k \<in> (\<lambda>e. (S_AccountID e, S_DifmTrackID e, S_PlaylistID e)) ` set es)"

lemma remembers_written: "written acct es mark d d' \<Longrightarrow> forgets_only F d d'"
  by (simp add: written_def forgets_only_def queued_def)

lemma commit_tx:
  fixes w w' :: "'z world_scheme"
  assumes t: "(if es \<noteq> [] \<or> mark \<noteq> None then InTx E (write_ledger E es acct mark) w else (Inr (), w)) = (r, w')"
    and ex: "account_exists acct (s_db w)" and acct: "\<forall>e\<in>set es. S_AccountID e = acct"
  shows "store.more w' = store.more w" "r = Inl e \<Longrightarrow> s_db w' = s_db w"
    "r = Inr x \<Longrightarrow> written acct es mark (s_db w) (s_db w')"
proof -
  let ?b = "write_ledger E es acct mark :: ('z, unit) wop"
  have fr: "stays_local ?b"
    using write_ledger_frame unfolding stays_local_def same_rest_def by blast
  have "store.more w' = store.more w \<and> (\<forall>e. r = Inl e \<longrightarrow> s_db w' = s_db w) \<and>
    (\<forall>x. r = Inr x \<longrightarrow> (\<exists>v v'. s_db v = s_db w \<and> s_db v' = s_db w' \<and> ?b v = (Inr x, v')))"
  proof (cases "es \<noteq> [] \<or> mark \<noteq> None")
    case True
    then have "InTx E ?b w = (r, w')" using t by simp
    note I = InTx_result [OF this fr]
    show ?thesis
    proof (intro conjI allI impI)
      show "\<exists>v v'. s_db v = s_db w \<and> s_db v' = s_db w' \<and> ?b v = (Inr x, v')" if okay: "r = Inr x" for x
      proof -
        obtain v v' where "?b v = (Inr x, v')" "s_db v = s_db w" "s_db w' = s_db v'"
          using I(3) [OF okay] by blast
        then show ?thesis by (intro exI [of _ v] exI [of _ v']) simp
      qed
    qed (use I(1,2) in simp_all)
  next
    case False
    then have "?b w = (Inr (), w)" by (simp add: write_ledger_def bind_op_def)
    with False t show ?thesis by auto
  qed
  then have more: "store.more w' = store.more w" and bad: "\<And>e. r = Inl e \<Longrightarrow> s_db w' = s_db w"
    and good: "\<And>x. r = Inr x \<Longrightarrow> \<exists>v v'. s_db v = s_db w \<and> s_db v' = s_db w' \<and> ?b v = (Inr x, v')" by blast+
  show "store.more w' = store.more w" by (rule more)
  show "s_db w' = s_db w" if "r = Inl e" using bad [OF that] .
  show "written acct es mark (s_db w) (s_db w')" if ok: "r = Inr x"
  proof -
    obtain v v' where v: "s_db v = s_db w" "s_db v' = s_db w'" "?b v = (Inr x, v')" using good [OF ok] by blast
    have "account_exists acct (s_db v)" using v(1) ex by simp
    from write_ledger_result [OF v(3) this acct] show ?thesis
      unfolding written_def v(1,2) by blast
  qed
qed

lemma commit_pass_result:
  assumes dinv: "done_inv g (s_db w) likes ps" and linv: "ledge_inv g ps" and einv: "err_inv ps"
    and c: "commit_pass E g ps w = ((st, err, g'), w')"
    and ex: "account_exists (A_ID (eg_account g)) (s_db w)"
    and pl: "ps_in ps \<subseteq> set (playlists w (eg_playlist g))"
  shows "store.more w' = store.more w" "settled g likes err w w'" "reported st err"
proof -
  let ?acct = "A_ID (eg_account g)" and ?old = "A_WatermarkLikedAt (eg_account g)"
  let ?high = "fold (\<lambda>entry. later (S_LikedAt entry)) (ps_ledge ps) (ps_high ps)"
  let ?mark = "if ps_clean ps \<and> ?high > ?old then Some ?high else None"
  have failed: "store.more w' = store.more w \<and> settled g likes err w w' \<and> reported st err"
    if "(st, err) = ((ps_stats ps)\<lparr>Err := Some e\<rparr>, Some e)" "store.more w' = store.more w" "s_db w' = s_db w" for e
    using that einv by (simp add: settled_def reported_def run_kind_def err_inv_def)
  have "store.more w' = store.more w \<and> settled g likes err w w' \<and> reported st err"
  proof (cases "c_err E (s_tick w)")
    case (Some e)
    then show ?thesis using c failed [of e] by (auto simp: commit_pass_def Let_def)
  next
    case None
    obtain r w1 where t: "(if ps_ledge ps \<noteq> [] \<or> ?mark \<noteq> None
        then InTx E (write_ledger E (ps_ledge ps) ?acct ?mark) w else (Inr (), w)) = (r, w1)" by fastforce
    have w1: "w1 = w'" and res: "case r of Inl e \<Rightarrow> (st, err) = ((ps_stats ps)\<lparr>Err := Some e\<rparr>, Some e)
      | Inr _ \<Rightarrow> (st, err) = (if ps_clean ps then (ps_stats ps, None)
          else ((ps_stats ps)\<lparr>StKind := KindIncomplete\<rparr>, Some (incomplete_error (Err (ps_stats ps)))))"
      using c None t by (auto simp: commit_pass_def Let_def split: sum.splits if_splits)
    have acct: "\<forall>e\<in>set (ps_ledge ps). S_AccountID e = ?acct" using linv by (simp add: ledge_inv_def)
    note T = commit_tx [OF t [unfolded w1] ex acct]
    show ?thesis
    proof (cases r)
      case (Inl e)
      with failed [of e] res T show ?thesis by simp
    next
      case (Inr x)
      have W: "written ?acct (ps_ledge ps) ?mark (s_db w) (s_db w')" by (rule T(3) [OF Inr])
      have rows: "set (synced_tracks (s_db w')) \<subseteq> set (synced_tracks (s_db w)) \<union>
          {r. sr_playlist r = eg_playlist g \<and> sr_spotify r \<in> set (playlists w' (eg_playlist g))}"
        using W pl linv playlists_more [OF T(1)] by (fastforce simp: written_def ledge_inv_def)
      have rep: "reported st err" using res Inr einv
        by (auto simp: reported_def run_kind_def err_inv_def classify_def incomplete_error_def kinds
            split: if_splits option.splits)
      have "case err of
          Some e \<Rightarrow> accounts (s_db w') = accounts (s_db w)
        | None \<Rightarrow> accounts (s_db w') = watermarked ?acct (mark_of g likes) (accounts (s_db w)) \<and>
            (\<forall>l\<in>set likes. durable ?acct (eg_playlist g) (s_db w') l)"
      proof (cases "ps_clean ps")
        case False
        then have "?mark = None" by simp
        with W have "accounts (s_db w') = accounts (s_db w)" by (simp add: written_def watermarked_def)
        with res Inr False show ?thesis by simp
      next
        case True
        have "?mark = mark_of g likes"
          using high_water_loop [OF dinv True] True by (simp add: mark_of_def Let_def)
        then have acc: "accounts (s_db w') = watermarked ?acct (mark_of g likes) (accounts (s_db w))"
          using W unfolding written_def by simp
        have undone: "\<forall>l\<in>set likes. pending (ps_ledge ps) l \<or> durable ?acct (eg_playlist g) (s_db w) l"
          using dinv True unfolding done_inv_def by simp blast
        have "durable ?acct (eg_playlist g) (s_db w') l" if l: "l \<in> set likes" for l
        proof -
          consider "pending (ps_ledge ps) l" | "durable ?acct (eg_playlist g) (s_db w) l"
            using undone l by blast
          then show ?thesis
          proof cases
            case 1
            then obtain e where "e \<in> set (ps_ledge ps)" "S_DifmTrackID e = L_TrackID l"
              unfolding pending_def by blast
            then have "(?acct, L_TrackID l, eg_playlist g)
                \<in> (\<lambda>e. (S_AccountID e, S_DifmTrackID e, S_PlaylistID e)) ` set (ps_ledge ps)"
              using linv by (intro image_eqI [of _ _ e]) (simp_all add: ledge_inv_def)
            with W show ?thesis unfolding written_def durable_def by blast
          next
            case 2
            with W show ?thesis unfolding written_def durable_def queued_def by metis
          qed
        qed
        with acc res Inr True show ?thesis by simp
      qed
      moreover have "sync_runs (s_db w') = sync_runs (s_db w)" using W by (simp add: written_def)
      ultimately show ?thesis using rows rep T(1) remembers_written [OF W] by (simp add: settled_def)
    qed
  qed
  then show "store.more w' = store.more w" "settled g likes err w w'" "reported st err" by blast+
qed

subsection \<open>From the reconciliation read to the end\<close>

lemma settled_after:
  assumes "settled g likes err w1 w'" "reviews_grow (s_db w) (s_db w1)"
  shows "settled g likes err w w'"
  using assms(1) reviews_grow_frame(1-3) [OF assms(2)] remembers_trans [OF remembers_grow [OF assms(2)]]
  by (simp add: settled_def split: option.splits)

lemma settled_aborted:
  assumes "reviews_grow (s_db w) (s_db w')"
  shows "settled g likes (Some e) w w'"
  using reviews_grow_frame(1-3) [OF assms] remembers_grow [OF assms] by (simp add: settled_def)

lemma clean_record: "record_like E g dry l cs reason ps w = (ok, ps', w') \<Longrightarrow> ps_clean ps' \<Longrightarrow> ps_clean ps"
  by (auto simp: record_like_def fail_def advance_def split: if_splits prod.splits sum.splits)

lemma clean_process_like:
  assumes "process_like E g dry l ps w = (Next ps', w')" "ps_clean ps'" shows "ps_clean ps"
proof (rule ccontr)
  assume dirty: "\<not> ps_clean ps"
  have rec: "\<not> ps_clean ps1" if "record_like E g dry l cs reason ps v = (ok, ps1, w1)" for cs reason v ok ps1 w1
    using clean_record [OF that] dirty by blast
  have dec: "\<not> ps_clean ps1" if "decide E g dry l cs ps v = (ps1, w1)" for cs v ps1 w1
    using that dirty
    by (auto simp: decide_def Let_def count_queued_def dest: rec split: option.splits if_splits prod.splits)
  show False
    using assms dirty
    by (auto simp: process_like_def count_skipped_def advance_def fail_def abort_with_def simp del: lit_simps
        dest: rec dec split: if_splits prod.splits sum.splits bool.splits)
qed

lemma clean_process_likes:
  "process_likes E g dry ls ps w = (Next ps', w') \<Longrightarrow> ps_clean ps' \<Longrightarrow> ps_clean ps"
proof (induction ls arbitrary: ps w)
  case (Cons l ls)
  then obtain ps1 w1 where "process_like E g dry l ps w = (Next ps1, w1)"
    "process_likes E g dry ls ps1 w1 = (Next ps', w')"
    by (auto split: prod.splits outcome.splits)
  with Cons clean_process_like show ?case by blast
qed simp

definition fresh_state :: "Engine \<Rightarrow> pass_state \<Rightarrow> bool" where
  "fresh_state g ps \<longleftrightarrow>
     err_inv ps \<and> ps_ids ps = [] \<and> ps_ledge ps = [] \<and> ps_high ps = A_WatermarkLikedAt (eg_account g)"

lemma fresh_loop_inv:
  assumes "fresh_state g ps"
  shows "loop_inv E g init w [] (ps\<lparr>ps_stats := (ps_stats ps)\<lparr>Fetched := n\<rparr>, ps_in := init\<rparr>) w"
  using assms
  by (simp add: fresh_state_def loop_inv_def ids_inv_def err_inv_def ledge_inv_def done_inv_def)

text \<open>The part of the pass that may write, after the reconciliation read.\<close>

lemma finish_likes:
  assumes inv: "loop_inv E g init w0 likes ps w"
    and p: "(case post_pending E g ps w of (Abort st e, w3) \<Rightarrow> ((st, Some e, g), w3)
             | (Next ps'', w3) \<Rightarrow> commit_pass E g ps'' w3) = ((st, err, g'), w')"
    and ex: "account_exists (A_ID (eg_account g)) (s_db w)"
    and init: "init \<subseteq> set (playlists w (eg_playlist g))"
  shows "posts E (eg_playlist g) w w' \<and> settled g likes err w w' \<and> reported st err \<and> (err = None \<longrightarrow> ps_clean ps)"
proof -
  obtain out w3 where post: "post_pending E g ps w = (out, w3)" by fastforce
  note P = post_pending_result [OF inv post]
  show ?thesis
  proof (cases out)
    case (Abort st1 e)
    with P p post have "st = st1" "err = Some e" "w' = w3" "aborted st1 e" by simp_all
    with P(1,2) show ?thesis using reported_aborted settled_aborted [of w w3] by simp
  next
    case (Next ps3)
    with P(3) obtain n where ps3: "ps3 = ps\<lparr>ps_stats := (ps_stats ps)\<lparr>Added := n\<rparr>\<rparr>"
      and all: "set (ps_ids ps) \<subseteq> set (playlists w3 (eg_playlist g))" by auto
    have "loop_inv E g init w0 likes ps3 w" unfolding ps3 by (rule loop_inv_stats [OF inv]) simp_all
    then have inv3: "done_inv g (s_db w3) likes ps3" "ledge_inv g ps3" "err_inv ps3"
      and in3: "ps_in ps3 = init \<union> set (ps_ids ps)"
      using P(2) by (simp_all add: loop_inv_def ids_inv_def ps3)
    have c: "commit_pass E g ps3 w3 = ((st, err, g'), w')" using p post Next by simp
    have "ps_in ps3 \<subseteq> set (playlists w3 (eg_playlist g))"
      using in3 all init posts_mono [OF P(1)] by blast
    note C = commit_pass_result [OF inv3 c _ this]
    have "s_db w3 = s_db w" by (rule P(2))
    then have C': "store.more w' = store.more w3" "settled g likes err w w'" "reported st err"
      using C ex settled_after [of g likes err w3 w' w] by simp_all
    have "posts E (eg_playlist g) w w'" using P(1) playlists_more [OF C'(1)] by (simp add: posts_def)
    moreover have "ps_clean ps" if "err = None"
    proof -
      have "ps_clean ps3" using c that
        by (auto simp: commit_pass_def Let_def split: option.splits sum.splits if_splits prod.splits)
      then show ?thesis by (simp add: ps3)
    qed
    ultimately show ?thesis using C' by blast
  qed
qed

lemma sync_likes_result:
  assumes fr: "fresh_state g ps" and p: "sync_likes E g False likes ps w = ((st, err, g'), w')"
    and ex: "account_exists (A_ID (eg_account g)) (s_db w)"
  shows "posts E (eg_playlist g) w w' \<and> settled g likes err w w' \<and> reported st err \<and> (err = None \<longrightarrow> ps_clean ps)"
proof -
  let ?ps = "ps\<lparr>ps_stats := (ps_stats ps)\<lparr>Fetched := int (length likes)\<rparr>\<rparr>"
  obtain r w1 where r: "PlaylistTrackIDs E (eg_playlist g) w = (r, w1)" by fastforce
  note R = PlaylistTrackIDs_result [OF r]
  have db1: "s_db w1 = s_db w" and gr1: "grown E w w1" using R(1) by (simp_all add: grown_reads) (simp add: reads_def)
  show ?thesis
  proof (cases r)
    case (Inl e)
    with p r have "st = (ps_stats ?ps)\<lparr>Err := Some e\<rparr>" "w' = w1"
      "err = Some (Wrap (lit ''reconcile playlist contents: '') e [])"
      by (simp_all add: sync_likes_def Let_def del: lit_simps)
    moreover have "aborted ((ps_stats ?ps)\<lparr>Err := Some e\<rparr>) (Wrap (lit ''reconcile playlist contents: '') e [])"
      using fr by (simp add: aborted_def fresh_state_def err_inv_def del: lit_simps)
    ultimately show ?thesis
      using posts_grown [OF gr1] settled_aborted [of w w1] db1 reported_aborted by simp
  next
    case (Inr init)
    let ?ps1 = "?ps\<lparr>ps_in := init\<rparr>"
    have init: "init \<subseteq> set (playlists w1 (eg_playlist g))"
      using R(2) Inr real_ids_sub by simp
    obtain out w2 where l: "process_likes E g False likes ?ps1 w1 = (out, w2)" by fastforce
    have inv: "outcome_inv E g init w1 likes out w2"
      using process_likes_inv [OF fresh_loop_inv [OF fr] l] by simp
    show ?thesis
    proof (cases out)
      case (Abort st1 e)
      with p r Inr l have "st = st1" "err = Some e" "w' = w2" by (simp_all add: sync_likes_def Let_def)
      moreover have "grown E w1 w2" "reviews_grow (s_db w1) (s_db w2)" "aborted st1 e"
        using inv Abort by (simp_all add: outcome_inv_def)
      ultimately show ?thesis
        using posts_grown [OF grown_trans [OF gr1]] settled_aborted [of w w2] db1 reported_aborted by simp
    next
      case (Next ps2)
      with inv have inv2: "loop_inv E g init w1 likes ps2 w2" by simp
      then have env: "grown E w1 w2" "reviews_grow (s_db w) (s_db w2)" using db1 by (simp_all add: loop_inv_def)
      have "init \<subseteq> set (playlists w2 (eg_playlist g))" using init grown_mono [OF env(1)] by blast
      moreover have "account_exists (A_ID (eg_account g)) (s_db w2)" using ex reviews_grow_frame(5) [OF env(2)] by simp
      moreover have "(case post_pending E g ps2 w2 of (Abort st e, w3) \<Rightarrow> ((st, Some e, g), w3)
             | (Next ps'', w3) \<Rightarrow> commit_pass E g ps'' w3) = ((st, err, g'), w')"
        using p r Inr l Next by (simp add: sync_likes_def Let_def)
      ultimately have F: "posts E (eg_playlist g) w2 w' \<and> settled g likes err w2 w' \<and> reported st err \<and>
          (err = None \<longrightarrow> ps_clean ps2)" using finish_likes [OF inv2] by blast
      moreover have "ps_clean ps2 \<Longrightarrow> ps_clean ps"
        using clean_process_likes [of E g False likes ?ps1 w1 ps2 w2] l Next by simp
      ultimately show ?thesis
        using grown_posts [OF grown_trans [OF gr1 env(1)]] settled_after [OF _ env(2)] by blast
    qed
  qed
qed

subsection \<open>The whole pass\<close>

lemma run_pass_result:
  assumes p: "run_pass E g False w = ((st, err, g'), w')" and ex: "account_exists (A_ID (eg_account g)) (s_db w)"
  shows "\<exists>likes. posts E (eg_playlist g) w w' \<and> settled g likes err w w' \<and> reported st err \<and>
    (err = None \<longrightarrow> fst (fetch_likes E g w) = (likes, None))"
proof -
  obtain likes ferr w1 where f: "fetch_likes E g w = ((likes, ferr), w1)" by (metis prod_cases3 surj_pair)
  have w1: "s_db w1 = s_db w" "playlists w1 = playlists w" "grown E w w1"
    using f by (auto simp: fetch_likes_def grown_def)
  have fs: "fresh_state g (start_state g)" "fresh_state g (fail e (start_state g))" for e
    by (simp_all add: fresh_state_def start_state_def err_inv_def fail_def zero_stats_def)
  have sync: "posts E (eg_playlist g) w w' \<and> settled g likes err w w' \<and> reported st err \<and>
      (err = None \<longrightarrow> ps_clean ps)"
    if "fresh_state g ps" "sync_likes E g False likes ps w1 = ((st, err, g'), w')" for ps
    using sync_likes_result [OF that] ex w1 grown_posts [OF w1(3)] settled_after [of g likes err w1 w' w] by simp
  have stop: "posts E (eg_playlist g) w w1 \<and> settled g likes (Some e') w w1 \<and>
      reported (zero_stats\<lparr>Err := Some e\<rparr>) (Some e')" if "\<forall>s. errors_is e' s = errors_is e s" for e e'
    using posts_grown [OF w1(3)] settled_aborted [of w w1] w1(1)
      reported_aborted [of "zero_stats\<lparr>Err := Some e\<rparr>" e'] that
    by (simp add: aborted_def zero_stats_def)
  show ?thesis
  proof (cases ferr)
    case None
    with p f have "sync_likes E g False likes (start_state g) w1 = ((st, err, g'), w')"
      by (simp add: run_pass_def)
    from sync [OF fs(1) this] f None show ?thesis by auto
  next
    case (Some e)
    show ?thesis
    proof (cases "errors_is e DifmErrDropped")
      case True
      with p f Some have "sync_likes E g False likes (fail e (start_state g)) w1 = ((st, err, g'), w')"
        by (simp add: run_pass_def)
      from sync [OF fs(2) this] show ?thesis by (auto simp: fail_def)
    next
      case False
      with p f Some have "\<exists>e'. err = Some e' \<and> (\<forall>s. errors_is e' s = errors_is e s)"
        "st = zero_stats\<lparr>Err := Some e\<rparr>" "w' = w1"
        by (cases "errors_is e DifmErrUnauthorized"; auto simp: run_pass_def start_state_def simp del: lit_simps)+
      with stop show ?thesis by auto
    qed
  qed
qed

text \<open>The way into the pass: reload, open the row, run, close the row.\<close>

lemma pass_cases:
  assumes "pass E g dry w = ((st, err, g'), w')"
  obtains (early) e where "s_db w' = s_db w" "store.more w' = store.more w" "err = Some e"
  | (ran) row run w1 w2 where "row \<in> set (accounts (s_db w))" "ar_label row = A_Label (eg_account g)"
    "same_rest w w1" "runs_only (s_db w) (s_db w1)" "account_exists (ar_id row) (s_db w1)"
    "sync_runs (s_db w1) = sync_runs (s_db w) @ [run]" "ru_account run = ar_id row"
    "run_pass E (g\<lparr>eg_account := toAccount row\<rparr>) dry w1 = ((st, err, g'), w2)"
    "w' = close_run E (ru_id run) st w2"
proof -
  obtain r w1 where a: "GetAccount E (A_Label (eg_account g)) w = (r, w1)" by fastforce
  note A = GetAccount_result [OF a]
  show thesis
  proof (cases r)
    case (Inl e)
    show thesis by (rule early) (use assms a A Inl in \<open>auto simp: pass_def same_rest_def simp del: lit_simps\<close>)
  next
    case (Inr account)
    then obtain row where row: "row \<in> set (accounts (s_db w))" "ar_label row = A_Label (eg_account g)"
      "account = toAccount row" using A(3) by blast
    obtain q w2 where s: "StartRun E (A_ID account) dry w1 = (q, w2)" by fastforce
    note S = StartRun_result [OF s]
    show thesis
    proof (cases q)
      case (Inl e)
      show thesis
        by (rule early) (use assms a s A S Inl Inr in \<open>auto simp: pass_def same_rest_def\<close>)
    next
      case i: (Inr i)
      obtain run where run: "sync_runs (s_db w2) = sync_runs (s_db w1) @ [run]" "ru_id run = i"
        "ru_account run = A_ID account" "account_exists (A_ID account) (s_db w1)"
        using S(3) [OF i] by blast
      obtain st1 err1 g1 w3 where p: "run_pass E (g\<lparr>eg_account := account\<rparr>) dry w2 = ((st1, err1, g1), w3)"
        by (metis prod_cases3 surj_pair)
      have res: "((st, err, g'), w') = ((st1, err1, g1), close_run E i st1 w3)"
        using assms a s Inr i p by (auto simp: pass_def Let_def)
      have id: "A_ID account = ar_id row" by (simp add: row(3) toAccount_def)
      show thesis
      proof (rule ran [OF row(1,2)])
        show "same_rest w w2" using A(1) S(1) same_rest_trans by blast
        show "runs_only (s_db w) (s_db w2)" using S(2) A(2) by simp
        show "account_exists (ar_id row) (s_db w2)" using run(4) id runs_only_frame(6) [OF S(2)] by simp
        show "sync_runs (s_db w2) = sync_runs (s_db w) @ [run]" "ru_account run = ar_id row"
          using run A(2) id by simp_all
        show "run_pass E (g\<lparr>eg_account := toAccount row\<rparr>) dry w2 = ((st, err, g'), w3)" "w' = close_run E (ru_id run) st w3"
          using p res row(3) run(2) by simp_all
      qed
    qed
  qed
qed

lemma close_run_frame: "same_rest w (close_run E i st w)" "runs_only (s_db w) (s_db (close_run E i st w))"
  "length (sync_runs (s_db (close_run E i st w))) = length (sync_runs (s_db w))"
proof -
  obtain st' where c: "close_run E i st w = snd (FinishRun E i st' w)" by (simp add: close_run_def Let_def)
  obtain r w' where f: "FinishRun E i st' w = (r, w')" by fastforce
  show "same_rest w (close_run E i st w)" "runs_only (s_db w) (s_db (close_run E i st w))"
    "length (sync_runs (s_db (close_run E i st w))) = length (sync_runs (s_db w))"
    using FinishRun_result [OF f] c f by simp_all
qed

text \<open>A real pass, from its start to its return.\<close>

lemma real_pass:
  assumes "pass E g False w = ((st, err, g'), w')"
  obtains (early) e where "s_db w' = s_db w" "playlists w' = playlists w" "err = Some e"
  | (ran) row likes n where "row \<in> set (accounts (s_db w))" "ar_label row = A_Label (eg_account g)"
    "posts E (eg_playlist g) w w'"
    "set (synced_tracks (s_db w')) \<subseteq> set (synced_tracks (s_db w)) \<union>
       {r. sr_playlist r = eg_playlist g \<and> sr_spotify r \<in> set (playlists w' (eg_playlist g))}"
    "\<And>e. err = Some e \<Longrightarrow> accounts (s_db w') = accounts (s_db w)"
    "err = None \<Longrightarrow>
       accounts (s_db w') = watermarked (ar_id row) (mark_of (g\<lparr>eg_account := toAccount row\<rparr>) likes) (accounts (s_db w))"
    "err = None \<Longrightarrow> \<forall>l\<in>set likes. durable (ar_id row) (eg_playlist g) (s_db w') l"
    "err = None \<Longrightarrow> ListLikedTracks (eg_difm g) (e_now E n) (n_http_date E) (d_pages E n)
       (A_WatermarkLikedAt (toAccount row)) = (likes, None)"
    "remembers (s_db w) (s_db w')"
  using assms
proof (cases rule: pass_cases)
  case (early e)
  then show thesis using that(1) playlists_more by blast
next
  case (ran row run w1 w2)
  let ?g = "g\<lparr>eg_account := toAccount row\<rparr>"
  note C = close_run_frame [where E = E and i = "ru_id run" and st = st and w = w2, folded ran(9)]
  note C' = runs_only_frame [OF C(2)] and R = runs_only_frame [OF ran(4)]
  have "account_exists (A_ID (eg_account ?g)) (s_db w1)" using ran(5) by (simp add: toAccount_def)
  from run_pass_result [OF ran(8) this] obtain likes where
    L: "posts E (eg_playlist g) w1 w2" "settled ?g likes err w1 w2"
       "err = None \<longrightarrow> fst (fetch_likes E ?g w1) = (likes, None)" by auto
  have pl: "playlists w1 = playlists w" "playlists w' = playlists w2"
    using playlists_more ran(3) C(1) by (auto simp: same_rest_def)
  have rows: "set (synced_tracks (s_db w')) \<subseteq> set (synced_tracks (s_db w)) \<union>
       {r. sr_playlist r = eg_playlist g \<and> sr_spotify r \<in> set (playlists w' (eg_playlist g))}"
    using L(2) C'(2) R(2) pl by (simp add: settled_def)
  have dur: "durable a p (s_db w2) l = durable a p (s_db w') l" for a p l
    using C'(4,5) by (simp add: durable_def)
  have id: "A_ID (toAccount row) = ar_id row" by (simp add: toAccount_def)
  show thesis
  proof (rule that(2) [OF ran(1,2)])
    show "posts E (eg_playlist g) w w'" using L(1) pl by (simp add: posts_def)
    show "set (synced_tracks (s_db w')) \<subseteq> set (synced_tracks (s_db w)) \<union>
       {r. sr_playlist r = eg_playlist g \<and> sr_spotify r \<in> set (playlists w' (eg_playlist g))}" by (rule rows)
    show "accounts (s_db w') = accounts (s_db w)" if "err = Some e" for e
      using that L(2) C'(1) R(1) by (simp add: settled_def)
    show "accounts (s_db w') = watermarked (ar_id row) (mark_of ?g likes) (accounts (s_db w))" if "err = None"
      using that L(2) C'(1) R(1) id by (simp add: settled_def)
    show "\<forall>l\<in>set likes. durable (ar_id row) (eg_playlist g) (s_db w') l" if "err = None"
      using that L(2) dur id by (simp add: settled_def)
    show "ListLikedTracks (eg_difm g) (e_now E (s_tick w1)) (n_http_date E) (d_pages E (s_tick w1))
       (A_WatermarkLikedAt (toAccount row)) = (likes, None)" if "err = None"
      using that L(3) by (simp add: fetch_likes_def)
    have "remembers (s_db w1) (s_db w2)" using L(2) by (simp add: settled_def)
    then show "remembers (s_db w) (s_db w')"
      using remembers_trans remembers_runs [OF ran(4)] remembers_runs [OF C(2)] by blast
  qed
qed

end
