(* ===== verification/PassLaws.thy ===== *)
theory PassLaws
  imports EngineLaws
begin

text \<open>
  The guarantees of a whole sync pass, read off \<open>real_pass\<close> and, for dry runs, \<open>dry_pass\<close>; and
  the other direction: against services that answer, a pass succeeds.
\<close>

subsection \<open>Dry runs only read\<close>

lemma dry_process_like:
  assumes "process_like E g True l ps w = (out, w')"
  shows "reads E w w' \<or> (\<exists>w1. same_rest w w1 \<and> s_db w1 = s_db w \<and> reads E w1 w')"
proof -
  obtain r w1 where s: "IsSynced E (A_ID (eg_account g)) (L_TrackID l) (eg_playlist g) w = (r, w1)" by fastforce
  obtain q w2 where f: "Search E (L_Artist l) (L_Title l) (L_DurationSec l) (L_ISRC l) w1 = (q, w2)" by fastforce
  note S = IsSynced_result(1,2) [OF s] and R = reads_Search [OF f]
  have dec: "w3 = w2" if "decide E g True l cs ps w2 = (ps3, w3)" for cs ps3 w3
    using that by (auto simp: decide_def Let_def record_like_def split: option.splits if_splits)
  have "w' = w \<or> w' = w1 \<or> w' = w2"
    using assms s f
    by (auto simp: process_like_def record_like_def dest: dec simp del: lit_simps
        split: if_splits prod.splits sum.splits bool.splits)
  then show ?thesis using S R by auto
qed

text \<open>\<open>looks\<close>: the database is the same and the playlists only changed by others' additions.\<close>

definition looks :: "'e net_env_scheme \<Rightarrow> 'z world_scheme \<Rightarrow> 'z world_scheme \<Rightarrow> bool" where
  "looks E w w' \<longleftrightarrow> s_db w' = s_db w \<and> grown E w w'"

lemma looks_refl [simp]: "looks E w w"
  by (simp add: looks_def)

lemma looks_trans: "looks E w1 w2 \<Longrightarrow> looks E w2 w3 \<Longrightarrow> looks E w1 w3"
  unfolding looks_def using grown_trans by metis

lemma looks_reads: "reads E w w' \<Longrightarrow> looks E w w'"
  unfolding looks_def using grown_reads reads_def by blast

lemma dry_process_likes: "process_likes E g True ls ps w = (out, w') \<Longrightarrow> looks E w w'"
proof (induction ls arbitrary: ps w)
  case (Cons l ls)
  obtain o1 w1 where p: "process_like E g True l ps w = (o1, w1)" by fastforce
  have "looks E w w1"
    using dry_process_like [OF p] grown_same_rest looks_reads looks_trans unfolding looks_def by metis
  then show ?case using Cons p looks_trans [of E w w1] by (cases o1) auto
qed simp

lemma dry_sync_likes:
  assumes "sync_likes E g True likes ps w = (r, w')"
  shows "looks E w w'"
proof -
  obtain q w1 where q: "PlaylistTrackIDs E (eg_playlist g) w = (q, w1)" by fastforce
  have l: "looks E w w1" by (rule looks_reads [OF PlaylistTrackIDs_result(1) [OF q]])
  show ?thesis
  proof (cases q)
    case (Inl e)
    with assms q l show ?thesis by (auto simp: sync_likes_def Let_def simp del: lit_simps)
  next
    case (Inr init)
    obtain out w2 where p: "process_likes E g True likes
      (ps\<lparr>ps_stats := (ps_stats ps)\<lparr>Fetched := int (length likes)\<rparr>, ps_in := init\<rparr>) w1 = (out, w2)" by fastforce
    have "w' = w2" using assms q Inr p by (auto simp: sync_likes_def Let_def split: outcome.splits)
    then show ?thesis using looks_trans [OF l dry_process_likes [OF p]] by simp
  qed
qed

lemma dry_run_pass:
  assumes "run_pass E g True w = (r, w')"
  shows "looks E w w'"
proof -
  obtain likes ferr w1 where f: "fetch_likes E g w = ((likes, ferr), w1)" by (metis prod_cases3 surj_pair)
  have w1: "looks E w w1" using f by (auto simp: fetch_likes_def looks_def grown_def)
  have "w' = w1 \<or> (\<exists>ps. sync_likes E g True likes ps w1 = (r, w'))"
    using assms f by (auto simp: run_pass_def Let_def simp del: lit_simps split: option.splits if_splits)
  then show ?thesis using w1 dry_sync_likes looks_trans by metis
qed

lemma runs_only_trans: "runs_only d1 d2 \<Longrightarrow> runs_only d2 d3 \<Longrightarrow> runs_only d1 d3"
proof -
  assume "runs_only d1 d2" "runs_only d2 d3"
  then obtain a m b n where "d2 = d1\<lparr>sync_runs := a, next_run := m\<rparr>" "d3 = d2\<lparr>sync_runs := b, next_run := n\<rparr>"
    unfolding runs_only_def by blast
  then have "d3 = d1\<lparr>sync_runs := b, next_run := n\<rparr>" by simp
  then show ?thesis unfolding runs_only_def by blast
qed

lemma dry_pass:
  assumes "pass E g True w = ((st, err, g'), w')"
  shows "runs_only (s_db w) (s_db w')" "quiet E \<Longrightarrow> playlists w' = playlists w"
proof -
  have "runs_only (s_db w) (s_db w') \<and> (quiet E \<longrightarrow> playlists w' = playlists w)"
    using assms
  proof (cases rule: pass_cases)
    case (early e)
    then show ?thesis using playlists_more [of w' w] by simp
  next
    case (ran row run w1 w2)
    note C = close_run_frame [where E = E and i = "ru_id run" and st = st and w = w2, folded ran(9)]
    have l: "looks E w1 w2" by (rule dry_run_pass [OF ran(8)])
    then have "s_db w2 = s_db w1" by (simp add: looks_def)
    then have "runs_only (s_db w) (s_db w')" using runs_only_trans [OF ran(4)] C(2) by simp
    moreover have "playlists w' = playlists w2" "playlists w1 = playlists w"
      using playlists_more C(1) ran(3) by (auto simp: same_rest_def)
    ultimately show ?thesis using l by (simp add: looks_def grown_def)
  qed
  then show "runs_only (s_db w) (s_db w')" "quiet E \<Longrightarrow> playlists w' = playlists w" by blast+
qed


subsection \<open>Every pass\<close>

lemma pass_distinct:
  assumes q: "quiet E" and ids: "\<And>i. known_id E i \<Longrightarrow> i \<noteq> []" and d: "distinct (playlists w (eg_playlist g))"
    and p: "pass E g False w = ((st, err, g'), w')"
  shows "distinct (playlists w' (eg_playlist g))"
  using p
proof (cases rule: real_pass)
  case (ran row likes n)
  from ran(3) q obtain posted where posted: "distinct posted"
    "\<forall>i\<in>set posted. known_id E i \<and> i \<notin> real_ids (playlists w (eg_playlist g))"
    "playlists w' = (playlists w)(eg_playlist g := playlists w (eg_playlist g) @ posted)"
    unfolding posts_def by blast
  have "set posted \<inter> set (playlists w (eg_playlist g)) = {}"
    using posted(2) ids by (auto simp: real_ids_def)
  with posted d show ?thesis by auto
qed (use d in simp)

text \<open>
  C3: no duplicates. If the playlist has no track twice and nobody else writes to it, it has no
  track twice after a pass, whatever its outcome: requests that were carried out although they
  failed, several likes of one recording, and rows missing from the ledger included.
\<close>

theorem pass_no_duplicates:
  assumes "quiet E" and "\<And>n q t. t \<in> set (n_catalog E n q) \<Longrightarrow> to_id t \<noteq> []"
    and "distinct (playlists w (eg_playlist g))"
  shows "distinct (playlists (snd (pass E g dry w)) (eg_playlist g))"
proof -
  obtain st err g' w' where p: "pass E g dry w = ((st, err, g'), w')" by (metis prod_cases3 surj_pair)
  show ?thesis
  proof (cases dry)
    case True
    then show ?thesis using dry_pass(2) [of E g w st err g' w'] assms p by simp
  next
    case False
    have "known_id E i \<Longrightarrow> i \<noteq> []" for i using assms(2) by (auto simp: known_id_def)
    from pass_distinct [OF assms(1) this assms(3)] p False show ?thesis by auto
  qed
qed

text \<open>
  The ledger is never ahead of the playlist. Every row a pass adds to the ledger is for a track
  that is in the playlist when the pass returns, in every outcome; a crash or an error between the
  two writes leaves a track in the playlist without a row and never a row without its track.
\<close>

theorem ledger_behind_playlist:
  "case pass E g dry w of (r, w') \<Rightarrow>
     set (synced_tracks (s_db w')) \<subseteq> set (synced_tracks (s_db w)) \<union>
       {row. sr_playlist row = eg_playlist g \<and> sr_spotify row \<in> set (playlists w' (eg_playlist g))}"
proof -
  obtain st err g' w' where p: "pass E g dry w = ((st, err, g'), w')" by (metis prod_cases3 surj_pair)
  show ?thesis
  proof (cases dry)
    case True
    with p dry_pass(1) [of E g w] show ?thesis by (auto dest: runs_only_frame(2))
  next
    case False
    with p have "pass E g False w = ((st, err, g'), w')" by simp
    then show ?thesis
    proof (cases rule: real_pass)
      case (ran row likes n)
      with p show ?thesis by simp
    qed (use p in simp)
  qed
qed

text \<open>
  C1: a clean pass loses nothing. If a real pass returns no error, DI.fm answered it with a
  complete list of likes newer than the stored watermark, and every one of these likes is now in
  the ledger or in the review queue. The watermark is then the newest of the old one and these
  likes' times, and it moves only if that is later.
\<close>

theorem clean_pass_loses_nothing:
  assumes "pass E g False w = ((st, None, g'), w')"
  shows "\<exists>row\<in>set (accounts (s_db w)). \<exists>likes n.
    ar_label row = A_Label (eg_account g) \<and>
    ListLikedTracks (eg_difm g) (e_now E n) (n_http_date E) (d_pages E n) (A_WatermarkLikedAt (toAccount row)) = (likes, None) \<and>
    (\<forall>l\<in>set likes. synced (s_db w') (ar_id row, L_TrackID l, eg_playlist g) \<or> queued (s_db w') (ar_id row) (L_TrackID l)) \<and>
    (let old = A_WatermarkLikedAt (toAccount row); high = Max (insert old (L_LikedAt ` set likes))
     in accounts (s_db w') =
          (if high > old
           then update_where (\<lambda>a. ar_id a = ar_id row) (\<lambda>a. a\<lparr>ar_watermark := format_time high\<rparr>) (accounts (s_db w))
           else accounts (s_db w)))"
  using assms
proof (cases rule: real_pass)
  case (ran row likes n)
  from ran(6) have "let old = A_WatermarkLikedAt (toAccount row); high = Max (insert old (L_LikedAt ` set likes))
     in accounts (s_db w') =
          (if high > old
           then update_where (\<lambda>a. ar_id a = ar_id row) (\<lambda>a. a\<lparr>ar_watermark := format_time high\<rparr>) (accounts (s_db w))
           else accounts (s_db w))"
    by (simp add: mark_of_def high_water_def watermarked_def Let_def split: if_splits)
  with ran(1,2,7,8) show ?thesis unfolding durable_def by blast
qed simp

text \<open>
  C4: a failure holds the watermark. A pass that returns an error, for an abort or for likes it
  had to leave behind, and every dry run leave the accounts, and so the watermark, as they were.
\<close>

theorem watermark_held:
  "case pass E g dry w of ((st, err, g'), w') \<Rightarrow>
     accounts (s_db w') = accounts (s_db w) \<or> dry = False \<and> err = None"
proof -
  obtain st err g' w' where p: "pass E g dry w = ((st, err, g'), w')" by (metis prod_cases3 surj_pair)
  show ?thesis
  proof (cases dry)
    case True
    with p dry_pass(1) [of E g w] show ?thesis by (auto dest: runs_only_frame(1))
  next
    case False
    with p have "pass E g False w = ((st, err, g'), w')" by simp
    then show ?thesis
    proof (cases rule: real_pass)
      case (ran row likes n)
      with p False show ?thesis by (cases err) simp_all
    qed (use p in simp)
  qed
qed

text \<open>
  The race with other writers. Before it adds, a pass reads the playlist again and posts, in
  order, exactly the pending tracks the playlist does not hold by then (a prefix of them if the add
  fails); if it cannot read it, it adds nothing.
\<close>

theorem post_pending_no_repost:
  assumes "ps_ids ps \<noteq> []"
  shows "case PlaylistTrackIDs E (eg_playlist g) w of
     (Inl e, w1) \<Rightarrow> snd (post_pending E g ps w) = w1
   | (Inr current, w1) \<Rightarrow>
       \<exists>k. appends E (eg_playlist g) (take k (filter (\<lambda>i. i \<notin> set (playlists w1 (eg_playlist g)) - {[]}) (ps_ids ps)))
             w1 (snd (post_pending E g ps w))"
proof -
  let ?pl = "eg_playlist g"
  obtain r w1 where r: "PlaylistTrackIDs E ?pl w = (r, w1)" by fastforce
  show ?thesis
  proof (cases r)
    case (Inl e)
    with r assms show ?thesis by (simp add: post_pending_def)
  next
    case (Inr current)
    have cur: "current = set (playlists w1 ?pl) - {[]}"
      using PlaylistTrackIDs_result(2) [OF r Inr] by (auto simp: real_ids_def)
    let ?fresh = "filter (\<lambda>i. i \<notin> current) (ps_ids ps)"
    obtain q w2 where a: "AddToPlaylist E ?pl ?fresh w1 = (q, w2)" by fastforce
    have "snd (post_pending E g ps w) = (if ?fresh = [] then w1 else w2)"
      using assms r Inr a by (simp add: post_pending_def Let_def split: sum.split)
    moreover have "\<exists>k. appends E ?pl (take k ?fresh) w1 (if ?fresh = [] then w1 else w2)"
      using AddToPlaylist_result [OF a] by (cases "?fresh = []") (auto simp: appends_def)
    ultimately show ?thesis using r Inr cur by simp
  qed
qed

lemma snd_eqE: "snd p = y \<Longrightarrow> (\<And>x. p = (x, y) \<Longrightarrow> P) \<Longrightarrow> P"
  by (cases p) simp

text \<open>
  C5: the run's row tells how the pass ended. Unless the statement that closes it fails, the row a
  real pass opened is the last one, it is finished, it has the pass's counts, and its kind is empty
  for a clean pass and otherwise the kind of the error the pass returned: incomplete, grant revoked,
  key rejected, rate limited, or plain error.
\<close>

theorem run_row_tells:
  assumes "pass E g False w = ((st, err, g'), w')" and "sync_runs (s_db w') \<noteq> sync_runs (s_db w)"
    and "e_fault E (s_tick w' - 1) = None"
  shows "let run = last (sync_runs (s_db w')) in
    length (sync_runs (s_db w')) = Suc (length (sync_runs (s_db w))) \<and> ru_finished run \<noteq> None \<and>
    ru_fetched run = Fetched st \<and> ru_added run = Added st \<and> ru_queued run = Queued st \<and> ru_skipped run = Skipped st \<and>
    ru_kind run = (case err of None \<Rightarrow> [] | Some e \<Rightarrow> classify e)"
  using assms(1)
proof (cases rule: pass_cases)
  case (ran row run w1 w2)
  let ?g = "g\<lparr>eg_account := toAccount row\<rparr>"
  let ?st = "case Err st of Some e \<Rightarrow> if StKind st = [] then st\<lparr>StKind := classify e\<rparr> else st | None \<Rightarrow> st"
  have "snd (FinishRun E (ru_id run) ?st w2) = w'" using ran(9) by (simp only: close_run_def Let_def)
  then obtain r where f: "FinishRun E (ru_id run) ?st w2 = (r, w')" by (rule snd_eqE)
  have tick: "s_tick w' - 1 = s_tick w2" using FinishRun_result(3) [OF f] by simp
  note F = FinishRun_result(5) [OF f, unfolded tick [symmetric], OF assms(3)]
  have "account_exists (A_ID (eg_account ?g)) (s_db w1)" using ran(5) by (simp add: toAccount_def)
  from run_pass_result [OF ran(8) this] have set2: "sync_runs (s_db w2) = sync_runs (s_db w) @ [run]"
    and rep: "reported st err" using ran(6) by (auto simp: settled_def)
  have kind: "StKind ?st = run_kind st" by (simp add: run_kind_def split: option.split)
  have kn: "Known (run_kind st)"
    using rep by (auto simp: reported_def Known_def classify_def split: option.splits)
  have same: "Fetched ?st = Fetched st" "Added ?st = Added st" "Queued ?st = Queued st" "Skipped ?st = Skipped st"
    by (simp_all split: option.split)
  have up: "last (update_where p h (xs @ [x])) = (if p x then h x else x)"
    "length (update_where p h (xs @ [x])) = Suc (length xs)" for p h xs and x :: run_row
    by (simp_all add: update_where_def)
  show ?thesis
    unfolding F set2 Let_def up using kind kn rep same by (simp add: reported_def)
qed (use assms(2) in simp)

end
