(* ===== verification/Liveness.thy ===== *)
theory Liveness
  imports PassLaws
begin

text \<open>
  The other direction: when the services answer, a pass comes to its end and is clean. The proofs
  run the pass operation by operation; with them the guarantees of \<open>PassLaws\<close> get their examples.
\<close>

subsection \<open>Services that answer\<close>

definition all_well :: "'e eng_env_scheme \<Rightarrow> bool" where
  "all_well E \<longleftrightarrow> (\<forall>n. e_fault E n = None \<and> n_fail E n = None \<and> c_err E n = None)"

lemma query_well: "all_well E \<Longrightarrow> query E q w = (let (r, d) = q (e_now E (s_tick w)) (s_db w)
    in (r, w\<lparr>s_db := d, s_tick := s_tick w + 1\<rparr>))"
  by (simp add: all_well_def query_def)

lemma do_req_well:
  assumes "all_well E"
  shows "\<exists>w'. do_req E out req w =
    (Inr (if out then answer E (s_tick w) (\<lambda>pl. playlists w pl @ n_arrive E (s_tick w) pl) req else NoBody), w')"
  using assms by (simp add: all_well_def do_req_def serve_def Let_def)

lemma searchQuery_well: "all_well E \<Longrightarrow> \<exists>items w'. searchQuery E q w = (Inr items, w')"
  using do_req_well [of E True "SearchReq q" w] by (auto simp: searchQuery_def answer_def)

lemma try_queries_well: "all_well E \<Longrightarrow> \<exists>items w'. try_queries E qs None w = (Inr items, w')"
proof (induction qs arbitrary: w)
  case (Cons q qs)
  obtain items w1 where "searchQuery E q w = (Inr items, w1)" using searchQuery_well [OF Cons.prems] by blast
  then show ?case using Cons by simp
qed simp

lemma Search_well:
  assumes "all_well E"
  shows "\<exists>cs w'. Search E artist title dur isrc w = (Inr cs, w')"
proof -
  obtain c w1 where i: "searchByISRC E isrc w = (Inr c, w1)"
    using searchQuery_well [OF assms, of "lit ''isrc:'' @ trim_space isrc" w]
    by (cases "trim_space isrc = []") (auto simp: searchByISRC_def Let_def)
  obtain items w2 where "try_queries E (search_queries (n_ucd E) artist title) None w1 = (Inr items, w2)"
    using try_queries_well [OF assms] by blast
  with i show ?thesis by (cases c) (simp_all add: Search_def Let_def)
qed

lemma list_pages_well:
  assumes "all_well E" "quiet E"
  shows "pageSize * k \<le> length (playlists w pl) \<Longrightarrow> length (playlists w pl) < pageSize * M \<Longrightarrow>
    \<exists>S w'. list_pages E pl (map (\<lambda>i. pageSize * i) [k..<M]) ids w = (Inr S, w')"
proof (induction "M - k" arbitrary: k ids w)
  case 0
  then have "pageSize * M \<le> pageSize * k" by simp
  with 0 show ?case by linarith
next
  case (Suc l)
  have upt: "map (\<lambda>i. pageSize * i) [k..<M] = (pageSize * k) # map (\<lambda>i. pageSize * i) [Suc k..<M]"
    using Suc.hyps(2) by (simp add: upt_conv_Cons)
  let ?L = "playlists w pl"
  let ?items = "take pageSize (drop (pageSize * k) ?L)"
  obtain w1 where req: "do_req E True (ItemsReq pl (pageSize * k)) w = (Inr (ItemsBody (int (length ?L)) ?items), w1)"
    using do_req_well [OF assms(1), of True "ItemsReq pl (pageSize * k)" w] assms(2)
    by (auto simp: answer_def quiet_def)
  show ?case
  proof (cases "?items = [] \<or> length ?items < pageSize")
    case True
    then show ?thesis by (simp add: upt req Let_def)
  next
    case False
    have "playlists w1 pl = ?L" using reads_do_req [OF req] assms(2) by (simp add: reads_def)
    moreover have "pageSize * Suc k \<le> length ?L" using False by (auto simp: pageSize_def)
    moreover have "l = M - Suc k" using Suc.hyps(2) by simp
    ultimately obtain S w' where
      "list_pages E pl (map (\<lambda>i. pageSize * i) [Suc k..<M]) (ids \<union> set (filter (\<lambda>i. i \<noteq> []) ?items)) w1 = (Inr S, w')"
      using Suc.hyps(1) [of "Suc k" w1 "ids \<union> set (filter (\<lambda>i. i \<noteq> []) ?items)"] Suc.prems(2) by auto
    with False show ?thesis by (auto simp: upt req Let_def)
  qed
qed

lemma PlaylistTrackIDs_well:
  assumes "all_well E" "quiet E" "length (playlists w pl) \<le> maxOffset"
  shows "\<exists>S w'. PlaylistTrackIDs E pl w = (Inr S, w')"
  unfolding PlaylistTrackIDs_def
  by (rule list_pages_well [OF assms(1,2)]) (use assms(3) in \<open>simp_all add: maxOffset_def pageSize_def\<close>)

lemma add_batches_well: "all_well E \<Longrightarrow> \<exists>w'. add_batches E pl ids w = (Inr (), w')"
proof (induction "length ids" arbitrary: ids w rule: less_induct)
  case less
  show ?case
  proof (cases "ids = []")
    case True
    then show ?thesis by (simp add: add_batches.simps)
  next
    case False
    obtain b w1 where "do_req E False (AddReq pl (map (\<lambda>i. uri_prefix @ i) (take addBatchSize ids))) w = (Inr b, w1)"
      using do_req_well [OF less.prems] by blast
    moreover have "length (drop addBatchSize ids) < length ids" using False by (simp add: addBatchSize_def)
    ultimately show ?thesis
      using less.hyps [of "drop addBatchSize ids" w1] less.prems False
      by (simp add: add_batches.simps [of E pl ids w] Let_def)
  qed
qed

lemma AddToPlaylist_well: "all_well E \<Longrightarrow> \<exists>w'. AddToPlaylist E pl ids w = (Inr (), w')"
  using add_batches_well [of E pl ids w] by (simp add: AddToPlaylist_def)

subsection \<open>The store's operations\<close>

lemma Enqueue_well:
  assumes "all_well E" "account_exists (R_AccountID item) (s_db w)" "R_Reason item \<in> set reasons"
  shows "\<exists>w'. Enqueue E item w = (Inr (), w')"
  using assms by (simp add: Enqueue_def query_well enqueueReview_def review_params_def Let_def split: if_splits)

lemma IsSynced_well: "all_well E \<Longrightarrow> \<exists>b w'. IsSynced E a t p w = (Inr b, w')"
  by (simp add: IsSynced_def query_well isTrackSynced_def Let_def)

lemma RecordSynced_well:
  assumes "all_well E" "account_exists (S_AccountID t) (s_db w)"
  shows "\<exists>w'. RecordSynced E t w = (Inr (), w')"
  using assms by (simp add: RecordSynced_def query_well recordSyncedTrack_def synced_params_def Let_def split: if_splits)

lemma record_all_well:
  assumes "all_well E"
  shows "\<forall>t\<in>set ts. account_exists (S_AccountID t) (s_db w) \<Longrightarrow> \<exists>w'. each_op (RecordSynced E) ts w = (Inr (), w')"
proof (induction ts arbitrary: w)
  case (Cons t ts)
  obtain w1 where t: "RecordSynced E t w = (Inr (), w1)" using RecordSynced_well [OF assms] Cons.prems by force
  have "\<forall>t\<in>set ts. account_exists (S_AccountID t) (s_db w1)"
    using RecordSynced_result [OF t] ledger_only_frame(5) Cons.prems by auto
  with Cons.IH t show ?case by (simp add: bind_op_def)
qed simp

lemma write_ledger_well:
  assumes "all_well E" "\<forall>t\<in>set ts. account_exists (S_AccountID t) (s_db w)"
  shows "\<exists>w'. write_ledger E ts acct mark w = (Inr (), w')"
proof -
  obtain w1 where "each_op (RecordSynced E) ts w = (Inr (), w1)" using record_all_well [OF assms] by blast
  then show ?thesis
    using assms(1) by (cases mark) (simp_all add: write_ledger_def bind_op_def SetWatermark_def query_well setWatermark_def)
qed

lemma InTx_well:
  assumes "all_well E" "\<not> s_tx w" "\<And>w1. s_db w1 = s_db w \<Longrightarrow> \<exists>w2. body w1 = (Inr x, w2)"
  shows "\<exists>w'. InTx E body w = (Inr x, w')"
proof -
  obtain w2 where "body (w\<lparr>s_tick := s_tick w + 1, s_tx := True\<rparr>) = (Inr x, w2)" using assms(3) by fastforce
  with assms(1,2) show ?thesis by (simp add: InTx_def query_well)
qed

subsection \<open>The pass\<close>

lemma record_like_well:
  assumes "all_well E" "account_exists (A_ID (eg_account g)) (s_db w)" "reason \<in> set reasons"
  shows "\<exists>w'. record_like E g False l cs reason ps w = (True, advance (L_LikedAt l) ps, w')"
proof -
  have "\<exists>w'. Enqueue E (review_item g l cs reason) w = (Inr (), w')"
    by (rule Enqueue_well) (use assms in \<open>simp_all add: review_item_def\<close>)
  then show ?thesis by (auto simp: record_like_def enqueue_def)
qed

lemma reason_mem [simp]: "ReasonSkipped \<in> set reasons" "ReasonLowConfidence \<in> set reasons" "ReasonNoMatch \<in> set reasons"
  by (simp_all add: reasons_def ReasonSkipped_def ReasonLowConfidence_def ReasonNoMatch_def)

lemma decide_well:
  assumes "all_well E" "account_exists (A_ID (eg_account g)) (s_db w)" "ps_clean ps"
  shows "ps_clean (fst (decide E g False l cs ps w))"
proof -
  have "ps_clean (fst (case record_like E g False l cs reason ps w of (ok, ps', w') \<Rightarrow> (count_queued ok ps', w')))"
    if "reason \<in> set reasons" for reason
    using record_like_well [OF assms(1,2) that, of l cs ps] assms(3) by (auto simp: advance_def count_queued_def)
  with assms(3) show ?thesis by (auto simp: decide_def Let_def split: option.split)
qed

lemma process_like_well:
  assumes wl: "all_well E" and ex: "account_exists (A_ID (eg_account g)) (s_db w)" and cl: "ps_clean ps"
  shows "\<exists>ps' w'. process_like E g False l ps w = (Next ps', w') \<and> ps_clean ps'"
proof (cases "L_Skip l")
  case True
  with record_like_well [OF wl ex, of ReasonSkipped l "[]" ps] cl show ?thesis
    by (auto simp: process_like_def count_skipped_def advance_def)
next
  case False
  obtain b w1 where s: "IsSynced E (A_ID (eg_account g)) (L_TrackID l) (eg_playlist g) w = (Inr b, w1)"
    using IsSynced_well [OF wl] by blast
  obtain cs w2 where f: "Search E (L_Artist l) (L_Title l) (L_DurationSec l) (L_ISRC l) w1 = (Inr cs, w2)"
    using Search_well [OF wl] by blast
  have "s_db w2 = s_db w" using IsSynced_result(2) [OF s] reads_Search [OF f] by (simp add: reads_def)
  then have "ps_clean (fst (decide E g False l cs ps w2))" using decide_well [OF wl _ cl, of g w2 l cs] ex by simp
  then show ?thesis using False s f cl
    by (cases b; cases "decide E g False l cs ps w2") (simp_all add: process_like_def advance_def)
qed

lemma process_likes_well:
  assumes wl: "all_well E"
  shows "account_exists (A_ID (eg_account g)) (s_db w) \<Longrightarrow> loop_inv E g init w0 dn ps w \<Longrightarrow> ps_clean ps \<Longrightarrow>
    \<exists>ps' w'. process_likes E g False ls ps w = (Next ps', w') \<and> ps_clean ps'"
proof (induction ls arbitrary: dn ps w)
  case (Cons l ls)
  obtain ps1 w1 where p: "process_like E g False l ps w = (Next ps1, w1)" "ps_clean ps1"
    using process_like_well [OF wl Cons.prems(1,3)] by blast
  have inv: "loop_inv E g init w0 (dn @ [l]) ps1 w1" using process_like_inv [OF Cons.prems(2) p(1)] by simp
  have "account_exists (A_ID (eg_account g)) (s_db w1)"
    using inv Cons.prems(1,2) reviews_grow_frame(5) by (metis loop_inv_def)
  from Cons.IH [OF this inv p(2)] p(1) show ?case by simp
qed simp

lemma post_pending_well:
  assumes "all_well E" "quiet E" "length (playlists w (eg_playlist g)) \<le> maxOffset"
  shows "\<exists>n w'. post_pending E g ps w = (Next (ps\<lparr>ps_stats := (ps_stats ps)\<lparr>Added := n\<rparr>\<rparr>), w')"
proof (cases "ps_ids ps = []")
  case True
  then have "post_pending E g ps w = (Next (ps\<lparr>ps_stats := (ps_stats ps)\<lparr>Added := Added (ps_stats ps)\<rparr>\<rparr>), w)"
    by (simp add: post_pending_def)
  then show ?thesis by blast
next
  case False
  obtain S w1 where r: "PlaylistTrackIDs E (eg_playlist g) w = (Inr S, w1)"
    using PlaylistTrackIDs_well [OF assms] by blast
  obtain w2 where "AddToPlaylist E (eg_playlist g) (filter (\<lambda>i. i \<notin> S) (ps_ids ps)) w1 = (Inr (), w2)"
    using AddToPlaylist_well [OF assms(1)] by blast
  with False r show ?thesis by (auto simp: post_pending_def Let_def)
qed

lemma post_pending_tx: "post_pending E g ps w = (out, w') \<Longrightarrow> s_tx w' = s_tx w"
proof -
  assume p: "post_pending E g ps w = (out, w')"
  obtain r w1 where r: "PlaylistTrackIDs E (eg_playlist g) w = (r, w1)" by fastforce
  have "s_tx w1 = s_tx w" using PlaylistTrackIDs_result(1) [OF r] by (simp add: reads_def)
  moreover have "s_tx w2 = s_tx w1" if "AddToPlaylist E (eg_playlist g) ids w1 = (q, w2)" for ids q w2
    using AddToPlaylist_result [OF that] by (auto simp: appends_def)
  ultimately show ?thesis using p r
    by (auto simp: post_pending_def Let_def simp del: lit_simps split: if_splits sum.splits prod.splits)
qed

lemma commit_pass_well:
  assumes wl: "all_well E" and tx: "\<not> s_tx w" and cl: "ps_clean ps" and li: "ledge_inv g ps"
    and ex: "account_exists (A_ID (eg_account g)) (s_db w)"
  shows "\<exists>st g' w'. commit_pass E g ps w = ((st, None, g'), w')"
proof -
  have es: "\<forall>t\<in>set (ps_ledge ps). account_exists (S_AccountID t) (s_db w)"
    using li ex by (simp add: ledge_inv_def)
  have "\<exists>w'. InTx E (write_ledger E (ps_ledge ps) (A_ID (eg_account g)) mark) w = (Inr (), w')" for mark
    by (rule InTx_well [OF wl tx write_ledger_well [OF wl]]) (use es in simp)
  then show ?thesis using wl cl by (auto simp: commit_pass_def all_well_def Let_def split: prod.splits sum.splits) (metis Inr_not_Inl prod.inject)+
qed

lemma sync_likes_well:
  assumes wl: "all_well E" and qu: "quiet E" and len: "length (playlists w (eg_playlist g)) \<le> maxOffset"
    and tx: "\<not> s_tx w" and ex: "account_exists (A_ID (eg_account g)) (s_db w)"
    and fr: "fresh_state g ps" and cl: "ps_clean ps"
  shows "\<exists>st g' w'. sync_likes E g False likes ps w = ((st, None, g'), w')"
proof -
  obtain init w1 where r: "PlaylistTrackIDs E (eg_playlist g) w = (Inr init, w1)"
    using PlaylistTrackIDs_well [OF wl qu len] by blast
  have R: "reads E w w1" by (rule PlaylistTrackIDs_result(1) [OF r])
  then have db1: "s_db w1 = s_db w" and pl1: "playlists w1 = playlists w" and tx1: "\<not> s_tx w1"
    using qu tx by (simp_all add: reads_def)
  let ?ps = "ps\<lparr>ps_stats := (ps_stats ps)\<lparr>Fetched := int (length likes)\<rparr>, ps_in := init\<rparr>"
  have inv1: "loop_inv E g init w1 [] ?ps w1" by (rule fresh_loop_inv [OF fr])
  obtain ps2 w2 where l: "process_likes E g False likes ?ps w1 = (Next ps2, w2)" and cl2: "ps_clean ps2"
    using process_likes_well [OF wl _ inv1, where ls = likes] ex db1 cl by auto
  have inv2: "loop_inv E g init w1 likes ps2 w2" using process_likes_inv [OF inv1 l] by simp
  then have w2: "\<not> s_tx w2" "playlists w2 = playlists w" "account_exists (A_ID (eg_account g)) (s_db w2)"
    using tx1 pl1 ex db1 qu reviews_grow_frame(5) by (auto simp: loop_inv_def grown_def)
  obtain n w3 where p: "post_pending E g ps2 w2 = (Next (ps2\<lparr>ps_stats := (ps_stats ps2)\<lparr>Added := n\<rparr>\<rparr>), w3)"
    using post_pending_well [OF wl qu] len w2(2) by metis
  let ?ps3 = "ps2\<lparr>ps_stats := (ps_stats ps2)\<lparr>Added := n\<rparr>\<rparr>"
  have db3: "s_db w3 = s_db w2" by (rule post_pending_result(2) [OF inv2 p])
  have "\<exists>st g' w'. commit_pass E g ?ps3 w3 = ((st, None, g'), w')"
    by (rule commit_pass_well [OF wl])
      (use post_pending_tx [OF p] w2 cl2 inv2 db3 in \<open>simp_all add: loop_inv_def\<close>)
  with r l p show ?thesis by (simp add: sync_likes_def Let_def)
qed

lemma pass_well:
  assumes wl: "all_well E" and qu: "quiet E" and len: "length (playlists w (eg_playlist g)) \<le> maxOffset"
    and tx: "\<not> s_tx w" and f: "List.find (\<lambda>a. ar_label a = A_Label (eg_account g)) (accounts (s_db w)) = Some row"
    and fetch: "\<And>n. snd (ListLikedTracks (eg_difm g) (e_now E n) (n_http_date E) (d_pages E n)
      (A_WatermarkLikedAt (toAccount row))) = None"
  shows "\<exists>st g' w'. pass E g False w = ((st, None, g'), w')"
proof -
  let ?a = "toAccount row" and ?w1 = "w\<lparr>s_tick := Suc (s_tick w)\<rparr>"
  have a: "GetAccount E (A_Label (eg_account g)) w = (Inr ?a, ?w1)"
    using f wl by (simp add: GetAccount_def query_well getAccountByLabel_def)
  have ex: "account_exists (A_ID ?a) (s_db ?w1)"
    using f by (auto simp: account_exists_def toAccount_def find_Some_iff)
  obtain i w2 where s: "StartRun E (A_ID ?a) False ?w1 = (Inr i, w2)"
    using ex wl by (simp add: StartRun_def query_well startSyncRun_def Let_def)
  have S: "same_rest ?w1 w2" "runs_only (s_db ?w1) (s_db w2)" using StartRun_result(1,2) [OF s] by simp_all
  let ?g = "g\<lparr>eg_account := ?a\<rparr>"
  obtain likes where l: "fetch_likes E ?g w2 = ((likes, None), w2\<lparr>s_tick := s_tick w2 + 1\<rparr>)"
    using fetch by (simp add: fetch_likes_def) (metis prod.collapse)
  have pl: "playlists w2 = playlists w" using S(1) playlists_more [of w2 w] by (simp add: same_rest_def)
  have "\<exists>st g' w'. sync_likes E ?g False likes (start_state ?g) (w2\<lparr>s_tick := s_tick w2 + 1\<rparr>) = ((st, None, g'), w')"
    by (rule sync_likes_well [OF wl qu])
      (use len tx S pl ex runs_only_frame(6) [OF S(2)] in
        \<open>simp_all add: same_rest_def fresh_state_def start_state_def err_inv_def zero_stats_def\<close>)
  then have "\<exists>st g' w'. run_pass E ?g False w2 = ((st, None, g'), w')" using l by (simp add: run_pass_def)
  with a s show ?thesis by (auto simp: pass_def Let_def)
qed

text \<open>
  C7: a pass succeeds when it can. If the database and the two services answer, DI.fm's list can be
  read, the account exists, nobody else writes to the playlist and it is no longer than the client
  can page through, a real pass returns no error: nothing the pass finds makes it fail by itself.
\<close>

theorem pass_succeeds:
  assumes "all_well E" and "quiet E" and "length (playlists w (eg_playlist g)) \<le> maxOffset" and "\<not> s_tx w"
    and "List.find (\<lambda>a. ar_label a = A_Label (eg_account g)) (accounts (s_db w)) = Some row"
    and "\<And>n. snd (ListLikedTracks (eg_difm g) (e_now E n) (n_http_date E) (d_pages E n)
      (A_WatermarkLikedAt (toAccount row))) = None"
  shows "case pass E g False w of ((st, err, g'), w') \<Rightarrow> err = None"
proof -
  obtain st g' w' where "pass E g False w = ((st, None, g'), w')"
    using pass_well [OF assms] by blast
  then show ?thesis by simp
qed

subsection \<open>A concrete pass\<close>

text \<open>
  A member with two votes for one recording, a catalog that knows it by its ISRC, and a playlist
  that holds another track.
\<close>

definition song :: "int \<Rightarrow> string \<Rightarrow> row" where
  "song i created =
     Decoded \<lparr>w_id = i, w_track_id = 100 + i, w_channel_id = 1, w_created_at = created, w_up = True,
              w_episode = None,
              w_track = Some \<lparr>wt_id = 100 + i, wt_title = lit ''Saltwater'', wt_display_title = lit ''Saltwater'',
                wt_display_artist = lit ''Chicane'', wt_length = 240, wt_mix = False, wt_isrc = lit ''GB1'',
                wt_details_url = []\<rparr>\<rparr>"

definition serve_songs :: "string \<Rightarrow> row list reply" where
  "serve_songs url =
     (if url = page_url member 1
      then Reply 200 [] [] (Inr [song 2 ''2024-03-02T10:00:00Z'', song 1 ''2024-03-01T10:00:00Z''])
      else Reply 200 [] [] (Inr []))"

definition studio :: eng_env where
  "studio =
     \<lparr>e_fault = \<lambda>_. None, e_now = \<lambda>_. 63845000000000000000,
      n_fail = \<lambda>_. None, n_acted = \<lambda>_. False, n_arrive = \<lambda>_ _. [],
      n_catalog = \<lambda>_ _. [\<lparr>to_id = ''sp'', to_name = lit ''Saltwater'', to_duration_ms = 240000,
                            to_artists = [lit ''Chicane''], to_isrc = lit ''gb1''\<rparr>],
      n_name = \<lambda>_. [], n_http_date = \<lambda>_. None, n_ucd = ascii_ucd,
      d_pages = \<lambda>_. serve_songs, c_err = \<lambda>_. None\<rparr>"

definition robot :: Engine where
  "robot = \<lparr>eg_difm = member, eg_account = toAccount default_row, eg_playlist = ''PL'', eg_auto = 9 / 10, eg_review = 1 / 2\<rparr>"

definition shelf :: world where
  "shelf = \<lparr>s_db = one_account, s_tick = 0, s_tx = False, playlists = \<lambda>pl. if pl = ''PL'' then [''old''] else []\<rparr>"

lemma studio: "all_well studio" "quiet studio" "length (playlists shelf (eg_playlist robot)) \<le> maxOffset" "\<not> s_tx shelf"
  "List.find (\<lambda>a. ar_label a = A_Label (eg_account robot)) (accounts (s_db shelf)) = Some default_row"
  by (simp_all add: all_well_def quiet_def studio_def shelf_def robot_def maxOffset_def one_account
      default_row_def toAccount_def)

lemma studio_likes:
  "map (\<lambda>l. (L_TrackID l, L_VoteID l)) (fst (ListLikedTracks (eg_difm robot) (e_now studio n) (n_http_date studio)
     (d_pages studio n) (A_WatermarkLikedAt (toAccount default_row)))) = [(101, 1), (102, 2)]"
  "snd (ListLikedTracks (eg_difm robot) (e_now studio n) (n_http_date studio)
     (d_pages studio n) (A_WatermarkLikedAt (toAccount default_row))) = None"
proof -
  have "map (\<lambda>l. (L_TrackID l, L_VoteID l)) (fst (ListLikedTracks member 63845000000000000000 (\<lambda>_. None) serve_songs 0))
      = [(101, 1), (102, 2)]"
    "snd (ListLikedTracks member 63845000000000000000 (\<lambda>_. None) serve_songs 0) = None" by code_simp+
  then show "map (\<lambda>l. (L_TrackID l, L_VoteID l)) (fst (ListLikedTracks (eg_difm robot) (e_now studio n)
     (n_http_date studio) (d_pages studio n) (A_WatermarkLikedAt (toAccount default_row)))) = [(101, 1), (102, 2)]"
    "snd (ListLikedTracks (eg_difm robot) (e_now studio n) (n_http_date studio)
     (d_pages studio n) (A_WatermarkLikedAt (toAccount default_row))) = None"
    by (simp_all add: robot_def studio_def default_row_def toAccount_def)
qed

theorem pass_succeeds_witness: "fst (snd (fst (pass studio robot False shelf))) = None"
  using pass_succeeds [OF studio studio_likes(2)] by (simp split: prod.splits)


theorem pass_no_duplicates_witness: "distinct (playlists (snd (pass studio robot False shelf)) ''PL'')"
  using pass_no_duplicates [OF studio(2), of shelf robot False]
  by (simp add: studio_def shelf_def robot_def)

lemma studio_pass: "\<exists>st g' w'. pass studio robot False shelf = ((st, None, g'), w')"
  by (rule pass_well [OF studio studio_likes(2)])

theorem clean_pass_loses_nothing_witness:
  "\<exists>r w'. pass studio robot False shelf = (r, w') \<and>
     (synced (s_db w') (1, 101, ''PL'') \<or> queued (s_db w') 1 101) \<and>
     (synced (s_db w') (1, 102, ''PL'') \<or> queued (s_db w') 1 102)"
proof -
  obtain st g' w' where p: "pass studio robot False shelf = ((st, None, g'), w')" using studio_pass by blast
  from clean_pass_loses_nothing [OF p] obtain row likes n where
    row: "row \<in> set (accounts (s_db shelf))" and
    l: "ListLikedTracks (eg_difm robot) (e_now studio n) (n_http_date studio) (d_pages studio n)
          (A_WatermarkLikedAt (toAccount row)) = (likes, None)" and
    d: "\<forall>l\<in>set likes. synced (s_db w') (ar_id row, L_TrackID l, eg_playlist robot) \<or> queued (s_db w') (ar_id row) (L_TrackID l)"
    by blast
  have row: "row = default_row" using row by (simp add: shelf_def one_account)
  then have "map (\<lambda>l. (L_TrackID l, L_VoteID l)) likes = [(101, 1), (102, 2)]"
    using studio_likes(1) [of n] l by simp
  then obtain a b where "likes = [a, b]" "L_TrackID a = 101" "L_TrackID b = 102" by auto
  with d row show ?thesis using p by (simp add: robot_def default_row_def)
qed

lemma clean_pass_run:
  assumes "pass E g False w = ((st, None, g'), w')"
  shows "length (sync_runs (s_db w')) = Suc (length (sync_runs (s_db w)))"
  using assms
proof (cases rule: pass_cases)
  case (ran row run w1 w2)
  have "account_exists (A_ID (eg_account (g\<lparr>eg_account := toAccount row\<rparr>))) (s_db w1)"
    using ran(5) by (simp add: toAccount_def)
  from run_pass_result [OF ran(8) this] have r2: "sync_runs (s_db w2) = sync_runs (s_db w) @ [run]"
    using ran(6) by (auto simp: settled_def)
  then show ?thesis using ran(9) by (simp add: close_run_frame(3))
qed simp

theorem run_row_tells_witness:
  "\<exists>r w'. pass studio robot False shelf = (r, w') \<and> ru_kind (last (sync_runs (s_db w'))) = [] \<and>
     ru_finished (last (sync_runs (s_db w'))) \<noteq> None"
proof -
  obtain st g' w' where p: "pass studio robot False shelf = ((st, None, g'), w')" using studio_pass by blast
  have "sync_runs (s_db w') \<noteq> sync_runs (s_db shelf)" using clean_pass_run [OF p] by auto
  moreover have "e_fault studio (s_tick w' - 1) = None" by (simp add: studio_def)
  ultimately have "ru_finished (last (sync_runs (s_db w'))) \<noteq> None \<and> ru_kind (last (sync_runs (s_db w'))) = []"
    using run_row_tells [OF p] by (simp add: Let_def)
  then show ?thesis using p by blast
qed

theorem post_pending_no_repost_witness:
  "\<exists>k. playlists (snd (post_pending studio robot ((start_state robot)\<lparr>ps_ids := [''old'', ''sp'']\<rparr>) shelf)) ''PL''
     = ''old'' # take k [''sp'']"
proof -
  obtain S w1 where r: "PlaylistTrackIDs studio ''PL'' shelf = (Inr S, w1)"
    using PlaylistTrackIDs_well [OF studio(1-3)] by (auto simp: robot_def)
  have "playlists w1 = playlists shelf"
    using PlaylistTrackIDs_result(1) [OF r] studio(2) by (simp add: reads_def)
  with post_pending_no_repost [of "(start_state robot)\<lparr>ps_ids := [''old'', ''sp'']\<rparr>" studio robot shelf] r studio(2)
  show ?thesis by (auto simp: robot_def shelf_def appends_def)
qed

end
