(* ===== verification/Loop.thy ===== *)
theory Loop
  imports Backup Liveness
begin

text \<open>
  The daemon's scheduling: \<open>RunOnce\<close> and \<open>housekeep\<close> of \<open>internal/syncer/engine.go\<close>, and
  \<open>nextDelay\<close> and \<open>Loop\<close> of \<open>internal/syncer/loop.go\<close>.

  The loop is a step relation on \<open>loop_conf\<close>: it waits for a duration, and from there either the
  context is done or the timer fires and a pass runs. Which of the two the \<open>select\<close> takes is not
  determined, and the jitter of the first wait is any duration the code can draw.
\<close>

subsection \<open>One run\<close>

record daemon =
  dm_engine :: Engine
  dm_backups :: "Backups option"
  dm_folder :: folder

definition RunsRetention :: duration where "RunsRetention = 90 * (24 * hour)"
definition KeepRuns :: int where "KeepRuns = 20"

text \<open>What \<open>take\<close> and \<open>PruneRuns\<close> return is only logged.\<close>

definition take_backup ::
  "'e env_scheme \<Rightarrow> (nat \<Rightarrow> disk) \<Rightarrow> daemon \<Rightarrow> 'z world_scheme \<Rightarrow> daemon" where
  "take_backup E k dm w =
     (case dm_backups dm of
        None \<Rightarrow> dm
      | Some b \<Rightarrow>
          if bk_Dir b = [] then dm
          else (case run_backup (k (s_tick w)) (e_now E (s_tick w)) (s_tx w) (s_db w)
                       (A_Label (eg_account (dm_engine dm))) b (dm_folder dm) of
                  (r, b', fo') \<Rightarrow> dm\<lparr>dm_backups := Some b', dm_folder := fo'\<rparr>))"

definition housekeep ::
  "'e env_scheme \<Rightarrow> (nat \<Rightarrow> disk) \<Rightarrow> daemon \<Rightarrow> 'z world_scheme \<Rightarrow> daemon \<times> 'z world_scheme" where
  "housekeep E k dm w =
     (let dm = take_backup E k dm w;
          cutoff = e_now E (s_tick w) - RunsRetention
      in (dm, snd (PruneRuns E (A_ID (eg_account (dm_engine dm))) cutoff KeepRuns w)))"

definition RunOnce ::
  "'e eng_env_scheme \<Rightarrow> (nat \<Rightarrow> disk) \<Rightarrow> bool \<Rightarrow> daemon \<Rightarrow> 'z world_scheme \<Rightarrow>
   (RunStats \<times> gerr option) \<times> daemon \<times> 'z world_scheme" where
  "RunOnce E k dryRun dm w =
     (case pass E (dm_engine dm) dryRun w of
        ((stats, err, g'), w') \<Rightarrow>
          (let dm = dm\<lparr>dm_engine := g'\<rparr>
           in if err = None \<and> \<not> dryRun \<and> c_err E (s_tick w') = None
              then ((stats, err), housekeep E k dm w')
              else ((stats, err), dm, w')))"

subsection \<open>When the next pass runs\<close>

definition MinInterval :: duration where "MinInterval = minute"
definition maxRetryDelay :: duration where "maxRetryDelay = 24 * hour"

definition nextDelay :: "gerr option \<Rightarrow> duration \<Rightarrow> duration" where
  "nextDelay err interval =
     (let retryAfter =
            (case err of
               None \<Rightarrow> 0
             | Some e \<Rightarrow>
                 (case as_spotify_rate_limit e of
                    Some d \<Rightarrow> d
                  | None \<Rightarrow> (case as_difm_rate_limit e of Some d \<Rightarrow> d | None \<Rightarrow> 0)))
      in if retryAfter \<le> 0 then interval else min (max retryAfter MinInterval) maxRetryDelay)"

text \<open>
  The daemon is neither pushy nor stuck. With an interval of at least a minute the next pass is
  at least a minute away, and at most the interval or, after a rate limit, a day; a rate limit's hint
  between a minute and a day is honoured exactly; without a hint the interval is kept.
\<close>

theorem nextDelay_bounds:
  assumes "MinInterval \<le> interval"
  shows "MinInterval \<le> nextDelay err interval \<and> nextDelay err interval \<le> max interval maxRetryDelay \<and>
    (case err of
       Some (SpRateLimit d status) \<Rightarrow>
         if d \<le> 0 then nextDelay err interval = interval
         else if MinInterval \<le> d \<and> d \<le> maxRetryDelay then nextDelay err interval = d
         else nextDelay err interval \<in> {MinInterval, maxRetryDelay}
     | Some e \<Rightarrow> as_spotify_rate_limit e = None \<and> as_difm_rate_limit e = None \<longrightarrow> nextDelay err interval = interval
     | None \<Rightarrow> nextDelay err interval = interval)"
  using assms
  by (auto simp: nextDelay_def Let_def MinInterval_def maxRetryDelay_def minute_def hour_def second_def
      split: option.split gerr.split)

text \<open>
  The hint is a 64-bit duration: a \<open>Retry-After\<close> in seconds is multiplied by \<open>time.Second\<close> without
  a check.
\<close>

lemma atoi_digits:
  assumes "ds \<noteq> []" "list_all rune_dig ds" "0 \<le> fold (\<lambda>d n. n * 10 + (d - 48)) ds 0"
    "fold (\<lambda>d n. n * 10 + (d - 48)) ds 0 < 2 ^ 63"
  shows "atoi ds = Some (fold (\<lambda>d n. n * 10 + (d - 48)) ds 0)"
proof -
  obtain c r where ds: "ds = c # r" using assms(1) by (cases ds) auto
  then have "c \<noteq> 45" "c \<noteq> 43" using assms(2) by (auto simp: rune_dig_def)
  with ds assms show ?thesis by (simp add: atoi_def Let_def int64_def)
qed

lemma nat_digits_dig: "nat_digits n \<noteq> []" "list_all rune_dig (nat_digits n)"
    "fold (\<lambda>d n. n * 10 + (d - 48)) (nat_digits n) 0 = int n"
proof (induction n rule: nat_digits.induct)
  case (1 n)
  {
    case 1
    show ?case by (subst nat_digits.simps) simp
  next
    case 2
    show ?case using "1.IH"(2) by (subst nat_digits.simps) (auto simp: rune_dig_def [abs_def])
  next
    case 3
    show ?case using "1.IH"(3) by (subst nat_digits.simps) (auto simp: zdiv_int zmod_int)
  }
qed

lemma atoi_itoa: "0 \<le> n \<Longrightarrow> n < 2 ^ 63 \<Longrightarrow> atoi (itoa n) = Some n"
  using atoi_digits [OF nat_digits_dig(1,2), of "nat n"] nat_digits_dig(3) [of "nat n"] by (simp add: itoa_def)

lemma trim_nat_digits: "trim_space (nat_digits n) = nat_digits n"
proof -
  have d: "\<not> is_space r" if "rune_dig r" for r
    using that by (auto simp: rune_dig_def is_space_def)
  have "\<forall>r\<in>set (nat_digits n). \<not> is_space r" using nat_digits_dig(2) [of n] d by (auto simp: list_all_iff)
  then show ?thesis unfolding trim_space_def
    by (metis (no_types, lifting) dropWhile_eq_self_iff hd_in_set list.set_sel(1) rev_rev_ident set_rev)
qed

text \<open>
  C9: the hint is exact up to 292 years, and then it is not a hint any more. A \<open>Retry-After\<close> of up
  to 9223372036 seconds becomes that duration; one second more wraps around to a negative one, and a
  still larger one (here 18446744074 seconds) can come out as a third of a second, so the pass it
  should have put off for the longest allowed time, a day, runs after a minute.
\<close>

theorem retry_after_exact:
  "(if 0 \<le> n \<and> n \<le> 9223372036 then parseRetryAfter now http_date (itoa n) = n * second
    else 0 \<le> n \<and> n < 2 ^ 63 \<longrightarrow> parseRetryAfter now http_date (itoa n) \<noteq> n * second) \<and>
   nextDelay (Some (SpRateLimit (parseRetryAfter now http_date (itoa 9223372037)) 429)) (15 * minute) = 15 * minute \<and>
   nextDelay (Some (SpRateLimit (parseRetryAfter now http_date (itoa 18446744074)) 429)) (15 * minute) = minute"
proof -
  have p: "parseRetryAfter now http_date (itoa n) = wrap64 (n * second)" if "0 \<le> n" "n < 2 ^ 63" for n
    using that atoi_itoa [OF that] trim_nat_digits nat_digits_dig(1)
    by (simp add: parseRetryAfter_def itoa_def mul_duration_def)
  have exact: "wrap64 (n * second) = n * second" if "0 \<le> n" "n \<le> 9223372036" for n
    by (rule wrap64_id) (use that in \<open>simp add: int64_def second_def\<close>)
  have not: "wrap64 (n * second) \<noteq> n * second" if "9223372036 < n" for n
    using wrap64_range [of "n * second"] that by (auto simp: int64_def second_def)
  have "wrap64 (9223372037 * second) = - 9223372036709551616" "wrap64 (18446744074 * second) = 290448384"
    by (simp_all add: wrap64_def second_def)
  then have "nextDelay (Some (SpRateLimit (parseRetryAfter now http_date (itoa 9223372037)) 429)) (15 * minute) = 15 * minute"
    "nextDelay (Some (SpRateLimit (parseRetryAfter now http_date (itoa 18446744074)) 429)) (15 * minute) = minute"
    by (simp_all add: p nextDelay_def MinInterval_def maxRetryDelay_def minute_def hour_def second_def)
  then show ?thesis using p exact not by auto
qed

subsection \<open>The loop\<close>

text \<open>
  \<open>Waiting d\<close>: the timer was armed for \<open>d\<close>. Steps go by while the daemon sleeps; then either
  the context is done, or the timer fires and a pass runs.
\<close>

datatype loop_state = Waiting duration | Returned "gerr option"

definition clamp_interval :: "duration \<Rightarrow> duration" where
  "clamp_interval interval = (if interval < MinInterval then MinInterval else interval)"

definition done_result :: "gerr \<Rightarrow> gerr option" where
  "done_result e = (if errors_is e CtxCanceled then None else Some e)"

definition revoked :: "gerr option \<Rightarrow> bool" where
  "revoked err \<longleftrightarrow> (case err of Some e \<Rightarrow> errors_is e SpErrGrantRevoked | None \<Rightarrow> False)"

inductive loop_step ::
  "'e eng_env_scheme \<Rightarrow> (nat \<Rightarrow> disk) \<Rightarrow> duration \<Rightarrow> bool \<Rightarrow>
   loop_state \<times> daemon \<times> 'z world_scheme \<Rightarrow> loop_state \<times> daemon \<times> 'z world_scheme \<Rightarrow> bool"
  for E :: "'e eng_env_scheme" and k and interval and dryRun where
  sleeps: "s_tick w \<le> t \<Longrightarrow> loop_step E k interval dryRun (Waiting d, dm, w) (Waiting d, dm, w\<lparr>s_tick := t\<rparr>)"
| stopped: "c_err E (s_tick w) = Some e \<Longrightarrow>
    loop_step E k interval dryRun (Waiting d, dm, w) (Returned (done_result e), dm, w)"
| gives_up: "RunOnce E k dryRun dm w = ((st, err), dm', w') \<Longrightarrow> revoked err \<Longrightarrow>
    loop_step E k interval dryRun (Waiting d, dm, w) (Returned err, dm', w')"
| goes_on: "RunOnce E k dryRun dm w = ((st, err), dm', w') \<Longrightarrow> \<not> revoked err \<Longrightarrow>
    loop_step E k interval dryRun (Waiting d, dm, w) (Waiting (nextDelay err (clamp_interval interval)), dm', w')"

inductive_cases loop_stepE: "loop_step E k interval dryRun (Waiting d, dm, w) c"
inductive_cases returned_stepE: "loop_step E k interval dryRun (Returned r, dm, w) c"

text \<open>Everything \<open>Loop\<close> can be at; \<open>j\<close> is the jitter, \<open>rand.Int64N(interval / 4)\<close>.\<close>

inductive Loop ::
  "'e eng_env_scheme \<Rightarrow> (nat \<Rightarrow> disk) \<Rightarrow> duration \<Rightarrow> bool \<Rightarrow> daemon \<times> 'z world_scheme \<Rightarrow>
   loop_state \<times> daemon \<times> 'z world_scheme \<Rightarrow> bool"
  for E :: "'e eng_env_scheme" and k and interval and dryRun and start where
  armed: "start = (dm, w) \<Longrightarrow> 0 \<le> j \<Longrightarrow> j < clamp_interval interval div 4 \<Longrightarrow>
    Loop E k interval dryRun start (Waiting j, dm, w)"
| moved: "Loop E k interval dryRun start c \<Longrightarrow> loop_step E k interval dryRun c c' \<Longrightarrow> Loop E k interval dryRun start c'"

subsection \<open>One run is its pass\<close>

lemma playlist_kept:
  assumes "pass E g dry w = ((st, err, g'), w')"
  shows "eg_playlist g' = eg_playlist g" "A_Label (eg_account g') = A_Label (eg_account g)"
proof -
  have c: "eg_playlist g2 = eg_playlist g1 \<and> A_Label (eg_account g2) = A_Label (eg_account g1)"
    if "commit_pass E g1 ps w1 = ((st, err, g2), w2)" for g1 ps w1 st err g2 w2
    using that by (auto simp: commit_pass_def Let_def split: prod.splits sum.splits option.splits if_splits)
  have s: "eg_playlist g2 = eg_playlist g1 \<and> A_Label (eg_account g2) = A_Label (eg_account g1)"
    if "sync_likes E g1 dry likes ps w1 = ((st, err, g2), w2)" for g1 likes ps w1 st err g2 w2
    using that by (auto simp: sync_likes_def dry_result_def Let_def simp del: lit_simps dest: c
        split: prod.splits sum.splits outcome.splits if_splits)
  have r: "eg_playlist g2 = eg_playlist g1 \<and> A_Label (eg_account g2) = A_Label (eg_account g1)"
    if "run_pass E g1 dry w1 = ((st, err, g2), w2)" for g1 w1 st err g2 w2
    using that by (auto simp: run_pass_def Let_def simp del: lit_simps dest: s split: prod.splits option.splits if_splits)
  have "eg_playlist g' = eg_playlist g \<and> A_Label (eg_account g') = A_Label (eg_account g)"
    using assms
  proof (cases rule: pass_cases)
    case (ran row run w1 w2)
    from r [OF ran(8)] ran(2) show ?thesis by (simp add: toAccount_def)
  next
    case (early e)
    show ?thesis
    proof (cases "GetAccount E (A_Label (eg_account g)) w")
      case (Pair q w1)
      show ?thesis
      proof (cases q)
        case (Inl x)
        with Pair assms show ?thesis by (auto simp: pass_def simp del: lit_simps)
      next
        case (Inr a)
        then obtain row where "ar_label row = A_Label (eg_account g)" "a = toAccount row"
          using GetAccount_result(3) [OF Pair] by blast
        then have "A_Label a = A_Label (eg_account g)" by (simp add: toAccount_def)
        then show ?thesis using Pair Inr assms
          by (auto simp: pass_def Let_def dest: r split: sum.splits prod.splits)
      qed
    qed
  qed
  then show "eg_playlist g' = eg_playlist g" "A_Label (eg_account g') = A_Label (eg_account g)" by blast+
qed

lemma PruneRuns_result:
  assumes "PruneRuns E acct cutoff keep w = (r, w')"
  shows "same_rest w w'" "runs_only (s_db w) (s_db w')"
    "s_db w' = s_db w \<or> s_db w' = snd (pruneSyncRuns acct (format_time cutoff) keep (s_db w))"
proof -
  let ?q = "\<lambda>_. pruneSyncRuns acct (format_time cutoff) keep"
  note W = write_op [OF assms [unfolded PruneRuns_def]]
  have err: "fails_clean ?q" by (simp add: fails_clean_def pruneSyncRuns_def)
  show "same_rest w w'" by (rule W(1) [OF err])
  have ro: "runs_only d (snd (?q now d))" for now d
    unfolding runs_only_def pruneSyncRuns_def
    by (auto intro!: exI [of _ "delete_where (prunable acct (format_time cutoff) keep d) (sync_runs d)"] exI [of _ "next_run d"])
  show q: "s_db w' = s_db w \<or> s_db w' = snd (?q () (s_db w))"
    using W(6) [OF err] by (auto dest: arg_cong [of _ _ snd])
  then show "runs_only (s_db w) (s_db w')" using ro by auto
qed

lemma housekeep_result:
  assumes "housekeep E k dm w = (dm', w')"
  shows "same_rest w w'" "runs_only (s_db w) (s_db w')" "dm_engine dm' = dm_engine dm"
    "s_db w' = s_db w \<or> (\<exists>cutoff. s_db w' = snd (pruneSyncRuns (A_ID (eg_account (dm_engine dm))) cutoff KeepRuns (s_db w)))"
proof -
  have e: "dm_engine (take_backup E k dm w) = dm_engine dm"
    by (auto simp: take_backup_def split: option.split prod.split)
  then obtain r cutoff where
    p: "PruneRuns E (A_ID (eg_account (dm_engine dm))) cutoff KeepRuns w = (r, w')" and
    dm': "dm' = take_backup E k dm w"
    using assms by (auto simp: housekeep_def Let_def) (metis prod.collapse)
  show "same_rest w w'" "runs_only (s_db w) (s_db w')"
    "s_db w' = s_db w \<or> (\<exists>cutoff. s_db w' = snd (pruneSyncRuns (A_ID (eg_account (dm_engine dm))) cutoff KeepRuns (s_db w)))"
    using PruneRuns_result [OF p] by blast+
  show "dm_engine dm' = dm_engine dm" using e dm' by simp
qed

lemma RunOnce_frame:
  assumes "pass E (dm_engine dm) dry w = ((st, err, g'), w1)" and "RunOnce E k dry dm w = (r, dm', w')"
  shows "r = (st, err)" "playlists w' = playlists w1" "dm_engine dm' = g'" "runs_only (s_db w1) (s_db w')"
    "err \<noteq> None \<or> dry \<Longrightarrow> w' = w1 \<and> dm_folder dm' = dm_folder dm"
    "s_db w' = s_db w1 \<or> (\<exists>cutoff. s_db w' = snd (pruneSyncRuns (A_ID (eg_account g')) cutoff KeepRuns (s_db w1)))"
proof -
  let ?dm = "dm\<lparr>dm_engine := g'\<rparr>"
  have "r = (st, err) \<and> playlists w' = playlists w1 \<and> dm_engine dm' = g' \<and> runs_only (s_db w1) (s_db w') \<and>
    (err \<noteq> None \<or> dry \<longrightarrow> w' = w1 \<and> dm_folder dm' = dm_folder dm) \<and>
    (s_db w' = s_db w1 \<or> (\<exists>cutoff. s_db w' = snd (pruneSyncRuns (A_ID (eg_account g')) cutoff KeepRuns (s_db w1))))"
  proof (cases "err = None \<and> \<not> dry \<and> c_err E (s_tick w1) = None")
    case False
    then have "r = (st, err)" "dm' = ?dm" "w' = w1"
      using assms by (auto simp: RunOnce_def Let_def split: if_splits)
    then show ?thesis by simp
  next
    case True
    then have "r = (st, err)" and h: "housekeep E k ?dm w1 = (dm', w')"
      using assms by (auto simp: RunOnce_def Let_def split: prod.splits)
    moreover have "playlists w' = playlists w1"
      using housekeep_result(1) [OF h] playlists_more [of w' w1] by (simp add: same_rest_def)
    ultimately show ?thesis using True housekeep_result [OF h] by simp
  qed
  then show "r = (st, err)" "playlists w' = playlists w1" "dm_engine dm' = g'" "runs_only (s_db w1) (s_db w')"
    "err \<noteq> None \<or> dry \<Longrightarrow> w' = w1 \<and> dm_folder dm' = dm_folder dm"
    "s_db w' = s_db w1 \<or> (\<exists>cutoff. s_db w' = snd (pruneSyncRuns (A_ID (eg_account g')) cutoff KeepRuns (s_db w1)))"
    by blast+
qed

text \<open>
  Housekeeping is invisible to the sync. A run returns the counts and the error of its pass;
  nothing runs after a pass that failed or was dry; and after a clean one the ledger, the review
  queue, the accounts and the playlists are the pass's: of the runs only finished ones beyond the
  20 newest are gone.
\<close>

theorem run_is_its_pass:
  assumes "pass E (dm_engine dm) dry w = ((st, err, g'), w1)" and "RunOnce E k dry dm w = (r, dm', w')"
  shows "r = (st, err) \<and> playlists w' = playlists w1 \<and> dm_engine dm' = g' \<and>
    accounts (s_db w') = accounts (s_db w1) \<and> synced_tracks (s_db w') = synced_tracks (s_db w1) \<and>
    review_queue (s_db w') = review_queue (s_db w1) \<and>
    (err \<noteq> None \<or> dry \<longrightarrow> w' = w1 \<and> dm_folder dm' = dm_folder dm) \<and>
    set (sync_runs (s_db w')) \<subseteq> set (sync_runs (s_db w1)) \<and>
    (\<forall>run\<in>set (sync_runs (s_db w1)).
       ru_finished run = None \<or> run \<in> set (take 20 (newest_runs (A_ID (eg_account g')) (s_db w1))) \<longrightarrow>
       run \<in> set (sync_runs (s_db w')))"
proof -
  note R = RunOnce_frame [OF assms]
  have "set (sync_runs (s_db w')) \<subseteq> set (sync_runs (s_db w1)) \<and>
      (\<forall>run\<in>set (sync_runs (s_db w1)).
         ru_finished run = None \<or> run \<in> set (take 20 (newest_runs (A_ID (eg_account g')) (s_db w1))) \<longrightarrow>
         run \<in> set (sync_runs (s_db w')))"
    using R(6) by (auto simp: pruneSyncRuns_def delete_where_def prunable_def limit_def KeepRuns_def)
  with R(1-3,5) runs_only_frame [OF R(4)] show ?thesis by simp
qed

subsection \<open>Any number of passes\<close>

definition ledger_backed :: "string \<Rightarrow> 'z world_scheme \<Rightarrow> bool" where
  "ledger_backed pl w \<longleftrightarrow>
     (\<forall>row\<in>set (synced_tracks (s_db w)). sr_playlist row = pl \<longrightarrow> sr_spotify row \<in> set (playlists w pl))"

definition wait_ok :: "duration \<Rightarrow> duration \<Rightarrow> bool" where
  "wait_ok interval d \<longleftrightarrow>
     0 \<le> d \<and> d < clamp_interval interval div 4 \<or>
     MinInterval \<le> d \<and> d \<le> max (clamp_interval interval) maxRetryDelay"

lemma nextDelay_ok: "wait_ok interval (nextDelay err (clamp_interval interval))"
  by (auto simp: wait_ok_def clamp_interval_def nextDelay_def Let_def MinInterval_def maxRetryDelay_def
      minute_def hour_def second_def split: option.split)

lemma dry_pass_mono:
  assumes "pass E g True w = ((st, err, g'), w')"
  shows "set (playlists w p) \<subseteq> set (playlists w' p)"
  using assms
proof (cases rule: pass_cases)
  case (early e)
  then show ?thesis using playlists_more [of w' w] by simp
next
  case (ran row run w1 w2)
  have "playlists w' = playlists w2" "playlists w1 = playlists w"
    using playlists_more close_run_frame(1) [where E = E and i = "ru_id run" and st = st and w = w2] ran(3,9)
    by (auto simp: same_rest_def)
  then show ?thesis using grown_mono [of E w1 w2 p] dry_run_pass [OF ran(8)] by (simp add: looks_def)
qed

lemma pass_backed:
  assumes p: "pass E g dry w = ((st, err, g'), w')" and b: "ledger_backed (eg_playlist g) w"
  shows "ledger_backed (eg_playlist g) w'"
proof (cases dry)
  case False
  with p have "pass E g False w = ((st, err, g'), w')" by simp
  then show ?thesis
  proof (cases rule: real_pass)
    case (ran row likes n)
    have "set (playlists w (eg_playlist g)) \<subseteq> set (playlists w' (eg_playlist g))" by (rule posts_mono [OF ran(3)])
    with ran(4) b show ?thesis unfolding ledger_backed_def by blast
  qed (use b in \<open>simp add: ledger_backed_def\<close>)
next
  case True
  with p have d: "pass E g True w = ((st, err, g'), w')" by simp
  have s: "synced_tracks (s_db w') = synced_tracks (s_db w)"
    by (rule runs_only_frame(2) [OF dry_pass(1) [OF d]])
  have "set (playlists w (eg_playlist g)) \<subseteq> set (playlists w' (eg_playlist g))"
    by (rule dry_pass_mono [OF d])
  with s b show ?thesis by (auto simp: ledger_backed_def)
qed

text \<open>What holds of a daemon between passes.\<close>

definition daemon_inv :: "string \<Rightarrow> daemon \<Rightarrow> 'z world_scheme \<Rightarrow> bool" where
  "daemon_inv pl dm w \<longleftrightarrow> eg_playlist (dm_engine dm) = pl \<and> distinct (playlists w pl) \<and> ledger_backed pl w"

lemma RunOnce_inv:
  assumes q: "quiet E" and ids: "\<And>i. known_id E i \<Longrightarrow> i \<noteq> []"
    and r: "RunOnce E k dry dm w = ((st, err), dm', w')" and inv: "daemon_inv pl dm w"
  shows "daemon_inv pl dm' w'"
proof -
  obtain st1 err1 g1 w1 where p: "pass E (dm_engine dm) dry w = ((st1, err1, g1), w1)" by (metis prod_cases3 surj_pair)
  have "playlists w' = playlists w1 \<and> dm_engine dm' = g1 \<and> synced_tracks (s_db w') = synced_tracks (s_db w1)"
    using RunOnce_frame(2,3) [OF p r] runs_only_frame(2) [OF RunOnce_frame(4) [OF p r]] by simp
  moreover have "distinct (playlists w1 pl)"
  proof (cases dry)
    case True
    then show ?thesis using dry_pass(2) [of E "dm_engine dm" w st1 err1 g1 w1] p q inv by (simp add: daemon_inv_def)
  next
    case False
    then show ?thesis using pass_distinct [OF q ids, where w = w and g = "dm_engine dm"] p inv by (auto simp: daemon_inv_def)
  qed
  ultimately show ?thesis using inv pass_backed [OF p] playlist_kept [OF p]
    by (simp add: daemon_inv_def ledger_backed_def)
qed

lemma loop_step_inv:
  assumes "loop_step E k interval dry (s, dm, w) (s', dm', w')" and "quiet E" and "\<And>i. known_id E i \<Longrightarrow> i \<noteq> []"
    and "daemon_inv pl dm w"
  shows "daemon_inv pl dm' w'"
proof -
  obtain d where s: "s = Waiting d" using assms(1) by (cases s) (auto elim: returned_stepE)
  have step: "loop_step E k interval dry (Waiting d, dm, w) (s', dm', w')" using assms(1) s by simp
  have slept: "daemon_inv pl dm (w\<lparr>s_tick := t\<rparr>)" for t
    using assms(4) by (simp add: daemon_inv_def ledger_backed_def)
  show ?thesis
    by (rule loop_stepE [OF step]) (use assms(4) slept RunOnce_inv [OF assms(2,3) _ assms(4)] in auto)
qed

text \<open>
  C8: the invariants hold for good. However many passes the daemon runs, with whatever errors, and
  wherever it is in its loop: the playlist has no track twice, every ledger row for the playlist is
  for a track that is in it, and the daemon is waiting for its first pass for less than a quarter
  of the interval, or for a later one for at least a minute and at most the interval or a day.
\<close>

theorem loop_invariant:
  assumes "quiet E" and "\<And>n q t. t \<in> set (n_catalog E n q) \<Longrightarrow> to_id t \<noteq> []"
    and "distinct (playlists w (eg_playlist (dm_engine dm)))"
    and "\<And>row. row \<in> set (synced_tracks (s_db w)) \<Longrightarrow> sr_playlist row = eg_playlist (dm_engine dm) \<Longrightarrow>
      sr_spotify row \<in> set (playlists w (eg_playlist (dm_engine dm)))"
    and "Loop E k interval dry (dm, w) (s, dm', w')"
  shows "distinct (playlists w' (eg_playlist (dm_engine dm))) \<and>
    (\<forall>row\<in>set (synced_tracks (s_db w')). sr_playlist row = eg_playlist (dm_engine dm) \<longrightarrow>
       sr_spotify row \<in> set (playlists w' (eg_playlist (dm_engine dm)))) \<and>
    (case s of Waiting d \<Rightarrow> wait_ok interval d | Returned r \<Rightarrow> True)"
proof -
  have ids: "known_id E i \<Longrightarrow> i \<noteq> []" for i using assms(2) by (auto simp: known_id_def)
  have "daemon_inv (eg_playlist (dm_engine dm)) (fst (snd c)) (snd (snd c)) \<and>
      (case fst c of Waiting d \<Rightarrow> wait_ok interval d | Returned r \<Rightarrow> True)"
    if "Loop E k interval dry (dm, w) c" for c
    using that
  proof (induction rule: Loop.induct)
    case (armed dm1 w1 j)
    then show ?case using assms(3,4) by (auto simp: daemon_inv_def ledger_backed_def wait_ok_def)
  next
    case (moved c c')
    obtain s1 dm1 w1 where c: "c = (s1, dm1, w1)" by (cases c)
    obtain s2 dm2 w2 where c': "c' = (s2, dm2, w2)" by (cases c')
    from moved(2) c obtain d where s1: "s1 = Waiting d" by (cases s1) (auto elim: returned_stepE)
    have "case s2 of Waiting d \<Rightarrow> wait_ok interval d | Returned r \<Rightarrow> True"
      using moved(2,3) unfolding c c' s1
      by (cases rule: loop_stepE) (auto intro: nextDelay_ok)
    with loop_step_inv [OF moved(2) [unfolded c c'] assms(1) ids] moved(3) c c' show ?case by simp
  qed
  from this [OF assms(5)] show ?thesis by (auto simp: daemon_inv_def ledger_backed_def)
qed

text \<open>
  The daemon does not die of an error. \<open>Loop\<close> returns in two cases: its context is done (with
  nothing on a cancellation, else with the context's error), or the last pass found the Spotify
  grant revoked; any other error of a pass, and there may be as many as there are passes, is
  followed by the next wait. While it waits it can always go on.
\<close>

theorem loop_returns_only:
  "(loop_step E k interval dry (Waiting d, dm, w) (Returned r, dm', w') \<longrightarrow>
      (\<exists>e. c_err E (s_tick w) = Some e \<and> r = (if errors_is e CtxCanceled then None else Some e) \<and> w' = w) \<or>
      (\<exists>st e. RunOnce E k dry dm w = ((st, Some e), dm', w') \<and> r = Some e \<and> errors_is e SpErrGrantRevoked)) \<and>
   \<not> loop_step E k interval dry (Returned r, dm, w) c \<and>
   (case RunOnce E k dry dm w of ((st, err), dm1, w1) \<Rightarrow>
      (\<forall>e. err = Some e \<longrightarrow> \<not> errors_is e SpErrGrantRevoked) \<longrightarrow>
      loop_step E k interval dry (Waiting d, dm, w) (Waiting (nextDelay err (clamp_interval interval)), dm1, w1))"
proof (intro conjI)
  show "loop_step E k interval dry (Waiting d, dm, w) (Returned r, dm', w') \<longrightarrow>
      (\<exists>e. c_err E (s_tick w) = Some e \<and> r = (if errors_is e CtxCanceled then None else Some e) \<and> w' = w) \<or>
      (\<exists>st e. RunOnce E k dry dm w = ((st, Some e), dm', w') \<and> r = Some e \<and> errors_is e SpErrGrantRevoked)"
    by (auto elim!: loop_stepE simp: done_result_def revoked_def split: option.splits)
  show "\<not> loop_step E k interval dry (Returned r, dm, w) c"
    by (auto elim: returned_stepE)
  obtain st err dm1 w1 where "RunOnce E k dry dm w = ((st, err), dm1, w1)" by (metis prod_cases4 surj_pair)
  then show "case RunOnce E k dry dm w of ((st, err), dm1, w1) \<Rightarrow>
      (\<forall>e. err = Some e \<longrightarrow> \<not> errors_is e SpErrGrantRevoked) \<longrightarrow>
      loop_step E k interval dry (Waiting d, dm, w) (Waiting (nextDelay err (clamp_interval interval)), dm1, w1)"
    using goes_on [of E k dry dm w st err dm1 w1] by (auto simp: revoked_def split: option.splits)
qed

subsection \<open>A daemon at work\<close>

definition butler :: daemon where
  "butler = \<lparr>dm_engine = robot, dm_backups = None, dm_folder = []\<rparr>"

theorem nextDelay_bounds_witness:
  "nextDelay (Some (SpRateLimit (2 * hour) 429)) (15 * minute) = 2 * hour"
  using nextDelay_bounds [of "15 * minute" "Some (SpRateLimit (2 * hour) 429)"]
  by (simp add: MinInterval_def maxRetryDelay_def hour_def minute_def second_def)

theorem retry_after_exact_witness: "parseRetryAfter 0 (\<lambda>_. None) (itoa 3600) = 3600 * second"
  using retry_after_exact [of 3600 0 "\<lambda>_. None"] by simp

lemma butler_run:
  obtains st g' w1 dm' w' where "pass studio robot False shelf = ((st, None, g'), w1)"
    "RunOnce studio (\<lambda>_. good_disk) False butler shelf = ((st, None), dm', w')"
proof -
  obtain st g' w1 where p: "pass studio (dm_engine butler) False shelf = ((st, None, g'), w1)"
    using studio_pass by (auto simp: butler_def)
  obtain r dm' w' where r: "RunOnce studio (\<lambda>_. good_disk) False butler shelf = (r, dm', w')" by (metis prod_cases3)
  show thesis by (rule that [of st g' w1 dm' w']) (use p r RunOnce_frame(1) [OF p r] in \<open>simp_all add: butler_def\<close>)
qed

theorem run_is_its_pass_witness:
  "\<exists>r dm' w' q w1. RunOnce studio (\<lambda>_. good_disk) False butler shelf = (r, dm', w') \<and>
     pass studio robot False shelf = (q, w1) \<and> synced_tracks (s_db w') = synced_tracks (s_db w1)"
proof -
  obtain st g' w1 dm' w' where p: "pass studio robot False shelf = ((st, None, g'), w1)"
    and r: "RunOnce studio (\<lambda>_. good_disk) False butler shelf = ((st, None), dm', w')" by (rule butler_run)
  have "pass studio (dm_engine butler) False shelf = ((st, None, g'), w1)" using p by (simp add: butler_def)
  from run_is_its_pass [OF this r] p r show ?thesis by blast
qed

lemma one_account_empty:
  "synced_tracks one_account = []" "review_queue one_account = []" "sync_runs one_account = []"
  by (simp_all add: one_account_def upsertAccount_def empty_db_def Let_def)

theorem loop_invariant_witness:
  "\<exists>dm' w'. Loop studio (\<lambda>_. good_disk) (15 * minute) False (butler, shelf) (Waiting (15 * minute), dm', w') \<and>
     distinct (playlists w' ''PL'')"
proof -
  obtain st g' w1 dm' w' where r: "RunOnce studio (\<lambda>_. good_disk) False butler shelf = ((st, None), dm', w')"
    by (rule butler_run)
  have delay: "nextDelay None (clamp_interval (15 * minute)) = 15 * minute"
    by (simp add: nextDelay_def clamp_interval_def MinInterval_def minute_def second_def)
  have "Loop studio (\<lambda>_. good_disk) (15 * minute) False (butler, shelf) (Waiting 0, butler, shelf)"
    by (rule armed) (simp_all add: clamp_interval_def MinInterval_def minute_def second_def)
  moreover have "loop_step studio (\<lambda>_. good_disk) (15 * minute) False (Waiting 0, butler, shelf) (Waiting (15 * minute), dm', w')"
    using goes_on [OF r, of "15 * minute" 0] by (simp add: revoked_def delay)
  ultimately have l: "Loop studio (\<lambda>_. good_disk) (15 * minute) False (butler, shelf) (Waiting (15 * minute), dm', w')"
    by (rule moved)
  have "distinct (playlists w' (eg_playlist (dm_engine butler)))"
    using one_account_empty loop_invariant [OF studio(2) _ _ _ l]
    by (simp add: studio_def butler_def robot_def shelf_def)
  with l show ?thesis by (auto simp: butler_def robot_def)
qed

theorem loop_returns_only_witness:
  "let E = studio\<lparr>c_err := \<lambda>_. Some (Sentinel CtxCanceled)\<rparr>
   in loop_step E (\<lambda>_. good_disk) (15 * minute) False (Waiting 0, butler, shelf) (Returned None, butler, shelf) \<and>
     (\<exists>e. c_err E 0 = Some e \<and> errors_is e CtxCanceled)"
proof -
  let ?E = "studio\<lparr>c_err := \<lambda>_. Some (Sentinel CtxCanceled)\<rparr>"
  have "loop_step ?E (\<lambda>_. good_disk) (15 * minute) False (Waiting 0, butler, shelf)
      (Returned (done_result (Sentinel CtxCanceled)), butler, shelf)"
    by (rule stopped) simp
  then have s: "loop_step ?E (\<lambda>_. good_disk) (15 * minute) False (Waiting 0, butler, shelf) (Returned None, butler, shelf)"
    by (simp add: done_result_def)
  from loop_returns_only [of ?E "\<lambda>_. good_disk" "15 * minute" False 0 butler shelf None butler shelf] s
  show ?thesis by (auto simp: Let_def split: prod.splits)
qed

end
