(* ===== verification/Urls.thy ===== *)
theory Urls
  imports GoError
begin

text \<open>
  What the consent flow uses of \<open>path\<close>, \<open>net/url\<close> and \<open>net\<close>: cleaning and joining slash-separated
  paths, percent-encoding and query strings, and the host and port of an address.

  Strings are sequences of bytes here. The result of \<open>url.Parse\<close> is a \<open>purl\<close>: the fields the
  program reads, and in \<open>u_rest\<close> what it only passes on.
\<close>

subsection \<open>Splitting\<close>

fun split_on :: "'a \<Rightarrow> 'a list \<Rightarrow> 'a list list" where
  "split_on c [] = [[]]"
| "split_on c (x # xs) =
     (if x = c then [] # split_on c xs
      else case split_on c xs of [] \<Rightarrow> [[x]] | s # ss \<Rightarrow> (x # s) # ss)"

text \<open>\<open>strings.Cut\<close> and \<open>strings.Index\<close> of one byte: before and after the first.\<close>

definition cut_at :: "'a \<Rightarrow> 'a list \<Rightarrow> 'a list \<times> 'a list" where
  "cut_at c s = (takeWhile (\<lambda>x. x \<noteq> c) s, tl (dropWhile (\<lambda>x. x \<noteq> c) s))"

lemma split_on_not_Nil [simp]: "split_on c s \<noteq> []"
  by (induction s) (auto split: list.split)

lemma split_on_none: "c \<notin> set s \<Longrightarrow> split_on c s = [s]"
  by (induction s) auto

lemma split_on_append: "c \<notin> set s \<Longrightarrow> split_on c (s @ c # t) = s # split_on c t"
  by (induction s) auto

lemma split_on_join: "ss \<noteq> [] \<Longrightarrow> \<forall>s\<in>set ss. c \<notin> set s \<Longrightarrow> split_on c (join [c] ss) = ss"
  by (induction "[c]" ss rule: join.induct) (simp_all add: split_on_none split_on_append)

lemma cut_at_append: "c \<notin> set s \<Longrightarrow> cut_at c (s @ c # t) = (s, t)"
  by (induction s) (auto simp: cut_at_def)

lemma cut_at_none: "c \<notin> set s \<Longrightarrow> cut_at c s = (s, [])"
  by (induction s) (auto simp: cut_at_def)

subsection \<open>Paths\<close>

text \<open>\<open>path.Clean\<close>: one element after the other; the kept ones are on a stack.\<close>

fun clean_segs :: "bool \<Rightarrow> string list \<Rightarrow> string list \<Rightarrow> string list" where
  "clean_segs rooted out [] = rev out"
| "clean_segs rooted out (s # ss) =
     (if s = [] \<or> s = ''.'' then clean_segs rooted out ss
      else if s = ''..'' then
        (if out \<noteq> [] \<and> hd out \<noteq> ''..'' then clean_segs rooted (tl out) ss
         else if rooted then clean_segs rooted out ss
         else clean_segs rooted (s # out) ss)
      else clean_segs rooted (s # out) ss)"

definition path_clean :: "string \<Rightarrow> string" where
  "path_clean p =
     (if p = [] then ''.''
      else let rooted = (hd p = CHR ''/'');
               q = (if rooted then ''/'' else []) @ join ''/'' (clean_segs rooted [] (split_on CHR ''/'' p))
           in if q = [] then ''.'' else q)"

definition path_dir :: "string \<Rightarrow> string" where
  "path_dir p = path_clean (rev (dropWhile (\<lambda>c. c \<noteq> CHR ''/'') (rev p)))"

definition path_base :: "string \<Rightarrow> string" where
  "path_base p =
     (if p = [] then ''.''
      else let q = rev (takeWhile (\<lambda>c. c \<noteq> CHR ''/'') (dropWhile (\<lambda>c. c = CHR ''/'') (rev p)))
           in if q = [] then ''/'' else q)"

definition path_join :: "string list \<Rightarrow> string" where
  "path_join elems =
     (let es = filter (\<lambda>e. e \<noteq> []) elems in if es = [] then [] else path_clean (join ''/'' es))"

text \<open>A clean absolute path is a list of proper names.\<close>

definition name_ok :: "string \<Rightarrow> bool" where
  "name_ok s \<longleftrightarrow> s \<noteq> [] \<and> s \<noteq> ''.'' \<and> s \<noteq> ''..'' \<and> CHR ''/'' \<notin> set s"

definition abs_path :: "string list \<Rightarrow> string" where
  "abs_path ss = CHR ''/'' # join ''/'' ss"

lemma split_parts: "s \<in> set (split_on c p) \<Longrightarrow> c \<notin> set s"
  by (induction p arbitrary: s) (auto split: list.splits if_splits)

lemma clean_segs_ok:
  assumes "\<forall>s\<in>set ss. CHR ''/'' \<notin> set s" and "list_all name_ok out"
  shows "list_all name_ok (clean_segs True out ss)"
  using assms
proof (induction ss arbitrary: out)
  case (Cons s ss)
  have "list_all name_ok (tl out)" using Cons.prems(2) by (cases out) simp_all
  moreover have "s \<noteq> [] \<Longrightarrow> s \<noteq> ''.'' \<Longrightarrow> s \<noteq> ''..'' \<Longrightarrow> name_ok s"
    using Cons.prems(1) by (simp add: name_ok_def)
  ultimately show ?case using Cons by simp
qed (simp add: list_all_iff)

lemma clean_segs_names: "list_all name_ok ss \<Longrightarrow> clean_segs r out ss = rev out @ ss"
  by (induction ss arbitrary: out) (auto simp: name_ok_def)

lemma join_names: "list_all name_ok ss \<Longrightarrow> ss \<noteq> [] \<Longrightarrow> split_on CHR ''/'' (join ''/'' ss) = ss"
  by (rule split_on_join) (auto simp: list_all_iff name_ok_def)

lemma path_clean_abs: "list_all name_ok ss \<Longrightarrow> path_clean (abs_path ss) = abs_path ss"
  by (cases "ss = []")
    (simp_all add: path_clean_def abs_path_def join_names clean_segs_names)

lemma clean_is_abs:
  assumes "hd p = CHR ''/''" and "p \<noteq> []"
  obtains ss where "list_all name_ok ss" "path_clean p = abs_path ss"
proof -
  let ?ss = "clean_segs True [] (split_on CHR ''/'' p)"
  have "list_all name_ok ?ss" by (rule clean_segs_ok) (auto dest: split_parts)
  moreover have "path_clean p = abs_path ?ss" using assms by (simp add: path_clean_def abs_path_def)
  ultimately show thesis by (rule that)
qed

lemma join_snoc: "ss \<noteq> [] \<Longrightarrow> join sep (ss @ [s]) = join sep ss @ sep @ s"
  by (induction sep ss rule: join.induct) auto

lemma abs_path_snoc: "abs_path (ss @ [s]) = (if ss = [] then [] else abs_path ss) @ CHR ''/'' # s"
  by (simp add: abs_path_def join_snoc)

lemma abs_path_inj: "list_all name_ok ss \<Longrightarrow> list_all name_ok ts \<Longrightarrow> ss \<noteq> [] \<Longrightarrow> ts \<noteq> [] \<Longrightarrow>
    abs_path ss = abs_path ts \<longleftrightarrow> ss = ts"
  unfolding abs_path_def by (metis join_names list.inject)

lemma dirname_snoc:
  assumes "CHR ''/'' \<notin> set s"
  shows "rev (dropWhile (\<lambda>c. c \<noteq> CHR ''/'') (rev (p @ CHR ''/'' # s))) = p @ ''/''"
proof -
  have "dropWhile (\<lambda>c. c \<noteq> CHR ''/'') (rev s @ CHR ''/'' # rev p) = CHR ''/'' # rev p"
    using assms by (subst dropWhile_append2) auto
  then show ?thesis by simp
qed

lemma path_dir_abs:
  assumes "list_all name_ok (ss @ [s])"
  shows "path_dir (abs_path (ss @ [s])) = abs_path ss"
proof -
  have s: "CHR ''/'' \<notin> set s" using assms by (simp add: name_ok_def)
  have d: "path_dir (abs_path (ss @ [s])) = path_clean ((if ss = [] then [] else abs_path ss) @ ''/'')"
    unfolding path_dir_def abs_path_snoc dirname_snoc [OF s] ..
  show ?thesis
  proof (cases "ss = []")
    case True
    then show ?thesis unfolding d by (simp add: path_clean_def abs_path_def)
  next
    case False
    have "list_all name_ok ss" using assms by simp
    then have "split_on CHR ''/'' (join ''/'' ss @ ''/'') = ss @ [[]]"
      using split_on_join [of "ss @ [[]]" "CHR ''/''"] False
      by (auto simp: join_snoc list_all_iff name_ok_def)
    moreover have "clean_segs True out (ss @ [[]]) = rev out @ ss" for out
      using \<open>list_all name_ok ss\<close> by (induction ss arbitrary: out) (auto simp: name_ok_def)
    ultimately show ?thesis using False unfolding d by (simp add: path_clean_def abs_path_def)
  qed
qed

lemma path_join_abs:
  assumes "list_all name_ok ss" and "name_ok s"
  shows "path_join [abs_path ss, s] = abs_path (ss @ [s])"
proof (cases "ss = []")
  case True
  have "split_on CHR ''/'' s = [s]" using assms by (intro split_on_none) (simp add: name_ok_def)
  then show ?thesis using True assms by (simp add: path_join_def abs_path_def path_clean_def name_ok_def)
next
  case False
  have "abs_path ss @ CHR ''/'' # s = abs_path (ss @ [s])" using False by (simp add: abs_path_snoc)
  then show ?thesis using assms path_clean_abs [of "ss @ [s]"]
    by (simp add: path_join_def name_ok_def abs_path_def)
qed

lemma path_base_abs:
  assumes "list_all name_ok (ss @ [s])"
  shows "path_base (abs_path (ss @ [s])) = s"
proof -
  have s: "CHR ''/'' \<notin> set s" "s \<noteq> []" using assms by (simp_all add: name_ok_def)
  have r: "rev (abs_path (ss @ [s])) = rev s @ CHR ''/'' # rev (if ss = [] then [] else abs_path ss)"
    by (simp add: abs_path_snoc)
  have "dropWhile (\<lambda>c. c = CHR ''/'') (rev s @ t) = rev s @ t" for t
  proof (cases "rev s")
    case (Cons c cs)
    then have "c \<in> set s" by (metis list.set_intros(1) set_rev)
    with s Cons show ?thesis by auto
  qed (use s in simp)
  moreover have "takeWhile (\<lambda>c. c \<noteq> CHR ''/'') (rev s @ CHR ''/'' # t) = rev s" for t
    using s by (subst takeWhile_append2) auto
  ultimately show ?thesis unfolding path_base_def r Let_def using s by (simp add: abs_path_def)
qed

subsection \<open>Query strings\<close>

definition unreserved :: "char \<Rightarrow> bool" where
  "unreserved c \<longleftrightarrow>
     (let n = of_char c :: nat
      in 48 \<le> n \<and> n \<le> 57 \<or> 65 \<le> n \<and> n \<le> 90 \<or> 97 \<le> n \<and> n \<le> 122 \<or> n = 45 \<or> n = 95 \<or> n = 46 \<or> n = 126)"

definition hex_char :: "nat \<Rightarrow> char" where
  "hex_char n = char_of (if n < 10 then 48 + n else 55 + n)"

definition hex_value :: "char \<Rightarrow> nat option" where
  "hex_value c =
     (let n = of_char c :: nat
      in if 48 \<le> n \<and> n \<le> 57 then Some (n - 48)
         else if 97 \<le> n \<and> n \<le> 102 then Some (n - 87)
         else if 65 \<le> n \<and> n \<le> 70 then Some (n - 55) else None)"

text \<open>\<open>url.QueryEscape\<close> and \<open>url.QueryUnescape\<close>.\<close>

definition escape_char :: "char \<Rightarrow> string" where
  "escape_char c =
     (if unreserved c then [c] else if c = CHR '' '' then ''+''
      else [CHR ''%'', hex_char (of_char c div 16), hex_char (of_char c mod 16)])"

definition query_escape :: "string \<Rightarrow> string" where
  "query_escape s = concat (map escape_char s)"

definition bad_escape :: "string \<Rightarrow> gerr" where
  "bad_escape s = Msg (lit ''invalid URL escape '' @ [34] @ lit (take 3 s) @ [34])"

fun query_unescape :: "string \<Rightarrow> gerr + string" where
  "query_unescape [] = Inr []"
| "query_unescape (c # cs) =
     (if c = CHR ''%'' then
        (case cs of
           a # b # r \<Rightarrow>
             (case (hex_value a, hex_value b) of
                (Some x, Some y) \<Rightarrow> map_sum id (\<lambda>t. char_of (16 * x + y) # t) (query_unescape r)
              | _ \<Rightarrow> Inl (bad_escape (c # cs)))
         | _ \<Rightarrow> Inl (bad_escape (c # cs)))
      else map_sum id (\<lambda>t. (if c = CHR ''+'' then CHR '' '' else c) # t) (query_unescape cs))"

text \<open>
  \<open>url.ParseQuery\<close>: the values in order, and the error: the first of an escape, unless a
  semicolon overrides it. \<open>Values.Get\<close> is the first value of a key.
\<close>

type_synonym url_values = "(string \<times> string) list"

fun parse_pieces :: "string list \<Rightarrow> url_values \<Rightarrow> gerr option \<Rightarrow> url_values \<times> gerr option" where
  "parse_pieces [] vs err = (rev vs, err)"
| "parse_pieces (p # ps) vs err =
     (if CHR '';'' \<in> set p then parse_pieces ps vs (Some (Msg (lit ''invalid semicolon separator in query'')))
      else if p = [] then parse_pieces ps vs err
      else case cut_at CHR ''='' p of
             (k, v) \<Rightarrow>
               (case query_unescape k of
                  Inl e \<Rightarrow> parse_pieces ps vs (case err of None \<Rightarrow> Some e | Some e \<Rightarrow> Some e)
                | Inr k \<Rightarrow>
                    (case query_unescape v of
                       Inl e \<Rightarrow> parse_pieces ps vs (case err of None \<Rightarrow> Some e | Some e \<Rightarrow> Some e)
                     | Inr v \<Rightarrow> parse_pieces ps ((k, v) # vs) err)))"

definition parse_query :: "string \<Rightarrow> url_values \<times> gerr option" where
  "parse_query q = parse_pieces (split_on CHR ''&'' q) [] None"

definition values_get :: "url_values \<Rightarrow> string \<Rightarrow> string" where
  "values_get vs k = (case map_of vs k of None \<Rightarrow> [] | Some v \<Rightarrow> v)"

definition query_pair :: "string \<times> string \<Rightarrow> string" where
  "query_pair kv = query_escape (fst kv) @ CHR ''='' # query_escape (snd kv)"

definition query_encode :: "url_values \<Rightarrow> string" where
  "query_encode vs = join ''&'' (map query_pair vs)"

lemma char_nat: "(of_char c :: nat) < 256"
  by simp

lemma hex_round: "n < 16 \<Longrightarrow> hex_value (hex_char n) = Some n"
  by (auto simp: hex_value_def hex_char_def Let_def)

lemma unescape_char: "query_unescape (escape_char c @ s) = map_sum id (\<lambda>t. c # t) (query_unescape s)"
proof (cases "unreserved c \<or> c = CHR '' ''")
  case True
  have "unreserved c \<Longrightarrow> c \<noteq> CHR ''%'' \<and> c \<noteq> CHR ''+''" by (auto simp: unreserved_def Let_def)
  with True show ?thesis by (auto simp: escape_char_def)
next
  case False
  have "char_of (16 * (of_char c div 16) + of_char c mod 16 :: nat) = c" by simp
  moreover have "(of_char c :: nat) div 16 < 16" using char_nat [of c] by linarith
  ultimately show ?thesis using False by (simp add: escape_char_def hex_round)
qed

lemma unescape_escape: "query_unescape (query_escape s) = Inr s"
  by (induction s) (simp_all add: query_escape_def unescape_char)

lemma escape_alphabet:
  assumes "x \<in> set (query_escape s)"
  shows "unreserved x \<or> x = CHR ''%'' \<or> x = CHR ''+''"
proof -
  obtain c where c: "x \<in> set (escape_char c)" using assms by (auto simp: query_escape_def)
  have h: "unreserved (hex_char n)" if "n < 16" for n
    using that by (auto simp: hex_char_def unreserved_def Let_def)
  have "unreserved (hex_char (of_char c div 16))" by (rule h) (use char_nat [of c] in linarith)
  moreover have "unreserved (hex_char (of_char c mod 16))" by (rule h) simp
  ultimately show ?thesis using c by (auto simp: escape_char_def split: if_splits)
qed

lemma escape_avoids:
  "CHR ''&'' \<notin> set (query_escape s)" "CHR ''='' \<notin> set (query_escape s)" "CHR '';'' \<notin> set (query_escape s)"
  "CHR ''#'' \<notin> set (query_escape s)" "CHR ''?'' \<notin> set (query_escape s)"
  using escape_alphabet [of _ s] by (fastforce simp: unreserved_def Let_def)+

lemma parse_pairs: "parse_pieces (map query_pair vs) us err = (rev us @ vs, err)"
proof (induction vs arbitrary: us)
  case (Cons kv vs)
  obtain k v where kv: "kv = (k, v)" by (cases kv)
  have "CHR '';'' \<notin> set (query_pair kv)" "query_pair kv \<noteq> []"
    "cut_at CHR ''='' (query_pair kv) = (query_escape k, query_escape v)"
    using escape_avoids by (simp_all add: kv query_pair_def cut_at_append)
  then show ?case using Cons by (simp add: kv unescape_escape)
qed simp

lemma parse_encode: "vs \<noteq> [] \<Longrightarrow> parse_query (query_encode vs) = (vs, None)"
  using escape_avoids(1) split_on_join [of "map query_pair vs" "CHR ''&''"]
  by (simp add: parse_query_def query_encode_def query_pair_def parse_pairs)

text \<open>The bytes of a text.\<close>

definition utf8_rune :: "rune \<Rightarrow> string" where
  "utf8_rune r =
     (let n = nat r; tail = (\<lambda>k. char_of (128 + n div 64 ^ k mod 64))
      in if n < 0x80 then [char_of n]
         else if n < 0x800 then [char_of (0xC0 + n div 64), tail 0]
         else if n < 0x10000 then [char_of (0xE0 + n div 64 ^ 2), tail 1, tail 0]
         else [char_of (0xF0 + n div 64 ^ 3), tail 2, tail 1, tail 0])"

definition utf8 :: "runes \<Rightarrow> string" where
  "utf8 s = concat (map utf8_rune s)"

lemma utf8_lit: "\<forall>c\<in>set s. (of_char c :: nat) < 128 \<Longrightarrow> utf8 (lit s) = s"
proof (induction s)
  case (Cons c s)
  have "nat (of_char c) = (of_char c :: nat)" using of_nat_of_char [of c, where 'a = int] by (metis nat_int)
  then have "utf8_rune (of_char c) = [c]" using Cons.prems by (simp add: utf8_rune_def Let_def)
  with Cons show ?case by (simp add: utf8_def)
qed (simp add: utf8_def)

subsection \<open>Hosts and ports\<close>

record purl =
  u_Scheme :: string
  u_Host :: string
  u_Path :: string
  u_RawQuery :: string
  u_rest :: string

definition is_digit :: "char \<Rightarrow> bool" where
  "is_digit c \<longleftrightarrow> (let n = of_char c :: nat in 48 \<le> n \<and> n \<le> 57)"

text \<open>Before and after the last occurrence of a byte.\<close>

definition cut_last :: "'a \<Rightarrow> 'a list \<Rightarrow> ('a list \<times> 'a list) option" where
  "cut_last c s =
     (if c \<in> set s
      then Some (rev (tl (dropWhile (\<lambda>x. x \<noteq> c) (rev s))), rev (takeWhile (\<lambda>x. x \<noteq> c) (rev s)))
      else None)"

text \<open>\<open>URL.Hostname\<close> and \<open>URL.Port\<close>: a port is digits only, brackets around the host go.\<close>

definition host_and_port :: "string \<Rightarrow> string \<times> string" where
  "host_and_port hp =
     (let (host, port) = (case cut_last CHR '':'' hp of
                            Some (h, p) \<Rightarrow> if list_all is_digit p then (h, p) else (hp, [])
                          | None \<Rightarrow> (hp, []))
      in (if host \<noteq> [] \<and> hd host = CHR ''['' \<and> last host = CHR '']'' then butlast (tl host) else host, port))"

text \<open>\<open>net.SplitHostPort\<close>, of which the program reads the port.\<close>

definition port_of_addr :: "string \<Rightarrow> string option" where
  "port_of_addr hp =
     (case cut_last CHR '':'' hp of
        None \<Rightarrow> None
      | Some (front, port) \<Rightarrow>
          if hd hp = CHR ''['' then
            (case cut_at CHR '']'' hp of
               (inner, after) \<Rightarrow>
                 if CHR '']'' \<notin> set hp \<or> front \<noteq> inner @ '']'' \<or> CHR ''['' \<in> set (tl hp)
                    \<or> CHR '']'' \<in> set after then None
                 else Some port)
          else if CHR '':'' \<in> set front \<or> CHR ''['' \<in> set hp \<or> CHR '']'' \<in> set hp then None
          else Some port)"

definition join_host_port :: "string \<Rightarrow> string \<Rightarrow> string" where
  "join_host_port host port =
     (if CHR '':'' \<in> set host then CHR ''['' # host @ '']:'' @ port else host @ CHR '':'' # port)"

text \<open>\<open>net.IP.IsLoopback\<close> on the 16 bytes \<open>net.ParseIP\<close> returns.\<close>

definition is_loopback :: "int list \<Rightarrow> bool" where
  "is_loopback ip \<longleftrightarrow>
     (if take 12 ip = replicate 10 0 @ [255, 255] then ip ! 12 = 127 else ip = replicate 15 0 @ [1])"

end
