(* ===== verification/Status.thy ===== *)
theory Status
  imports Backup StoreOps
begin

text \<open>
  The operator's view, \<open>internal/status\<close>: \<open>health\<close>, \<open>consecutiveFailures\<close> and the report of
  \<open>status.go\<close>, and the two HTTP endpoints of \<open>http.go\<close> with the JSON they publish. The freshness
  window comes from \<open>effectiveMaxAge\<close> of \<open>cmd/difmsync/main.go\<close>.

  What the endpoints answer is a value of type \<open>response\<close>, so that what they can disclose is a
  statement about that value.
\<close>

subsection \<open>Durations and instants in reports\<close>

text \<open>\<open>Duration.Round(m)\<close>: to the nearest multiple, halves away from zero, saturating.\<close>

definition round_duration :: "duration \<Rightarrow> duration \<Rightarrow> duration" where
  "round_duration d m =
     (if m \<le> 0 then d
      else let r = abs d mod m
           in if d < 0 then
                (if r + r < m then d + r
                 else let d1 = wrap64 (d - m + r) in if d1 < d then d1 else - (2 ^ 63))
              else if r + r < m then d - r
              else let d1 = wrap64 (d + m - r) in if d1 > d then d1 else 2 ^ 63 - 1)"

text \<open>\<open>t.UTC().Format(time.RFC3339)\<close>.\<close>

definition format_rfc3339 :: "gotime \<Rightarrow> string" where
  "format_rfc3339 t =
     (let sec = t mod day_ns div 10 ^ 9
      in format_day t @ CHR ''T'' # digits 2 (sec div 3600) @ CHR '':'' # digits 2 (sec div 60 mod 60) @
         CHR '':'' # digits 2 (sec mod 60) @ ''Z'')"

text \<open>\<open>max-age\<close> as set by the operator, else three times the clamped interval.\<close>

definition effectiveMaxAge :: "duration option \<Rightarrow> duration \<Rightarrow> duration \<Rightarrow> duration" where
  "effectiveMaxAge maxAge minInterval interval =
     (case maxAge of Some d \<Rightarrow> d | None \<Rightarrow> mul_duration 3 (max interval minInterval))"

subsection \<open>The report\<close>

definition DefaultRunLimit :: int where "DefaultRunLimit = 5"
definition HealthScanLimit :: int where "HealthScanLimit = 20"

record Run =
  Rn_ID :: int
  Rn_StartedAt :: string
  Rn_FinishedAt :: string
  Rn_DryRun :: bool
  Rn_Fetched :: int
  Rn_Added :: int
  Rn_Queued :: int
  Rn_Skipped :: int
  Rn_Failed :: bool
  Rn_ErrorKind :: string
  Rn_Error :: runes

record Report =
  Rp_Account :: string
  Rp_Playlist :: string
  Rp_Synced :: int
  Rp_Pending :: int
  Rp_Skipped :: int
  Rp_Watermark :: string
  Rp_Runs :: "Run list"
  Rp_Authorized :: bool
  Rp_Healthy :: bool
  Rp_Reason :: runes
  Rp_Version :: string
  Rp_LastSuccessAt :: string
  Rp_ConsecutiveFailures :: int
  Rp_LastBackupAt :: string

definition newRun :: "SyncRun \<Rightarrow> Run" where
  "newRun r =
     \<lparr>Rn_ID = Ru_ID r, Rn_StartedAt = Ru_StartedAt r, Rn_FinishedAt = Ru_FinishedAt r, Rn_DryRun = Ru_DryRun r,
      Rn_Fetched = Ru_Fetched r, Rn_Added = Ru_Added r, Rn_Queued = Ru_Queued r, Rn_Skipped = Ru_Skipped r,
      Rn_Failed = (Ru_Error r \<noteq> []), Rn_ErrorKind = (if Known (Ru_ErrorKind r) then Ru_ErrorKind r else []),
      Rn_Error = Ru_Error r\<rparr>"

subsection \<open>The verdict\<close>

definition describe :: "SyncRun \<Rightarrow> runes" where
  "describe run =
     (if Ru_ErrorKind run = KindSpotifyGrantRevoked then
        lit ''newest run found the Spotify grant revoked; if consent has not been re-given, open the consent URL from the daemon log or run difmsync auth''
      else if Ru_ErrorKind run = KindDiFMUnauthorized then
        lit ''newest run had its DI.fm API key rejected '' @ [8212] @
        lit '' set a fresh DIFMSYNC_API_KEY; the README Credentials section says where to find it''
      else if Ru_ErrorKind run = KindRateLimited then
        lit ''newest run was rate limited by an API; the daemon backs off before retrying''
      else if Ru_Error run \<noteq> [] then
        lit ''newest run errored '' @ [8212] @ lit '' run `difmsync status` for the error text''
      else if Ru_FinishedAt run = [] then lit ''newest run is still in flight or was killed mid-pass''
      else if Ru_DryRun run then lit ''newest run was a dry run''
      else lit ''newest run has an unreadable timestamp'')"

text \<open>The loop of \<open>health\<close>: the first row that counts, and when it finished.\<close>

fun first_clean :: "SyncRun list \<Rightarrow> (SyncRun \<times> gotime) option" where
  "first_clean [] = None"
| "first_clean (run # runs) =
     (if Ru_DryRun run \<or> Ru_FinishedAt run = [] \<or> Ru_Error run \<noteq> [] then first_clean runs
      else case parse_time (Ru_FinishedAt run) of
             None \<Rightarrow> first_clean runs
           | Some finished \<Rightarrow> Some (run, finished))"

definition health :: "SyncRun list \<Rightarrow> duration \<Rightarrow> gotime \<Rightarrow> bool \<times> runes \<times> SyncRun option" where
  "health runs maxAge now =
     (case runs of
        [] \<Rightarrow> (False, lit ''no sync pass has run yet'', None)
      | newest # older \<Rightarrow>
          (case first_clean runs of
             Some (run, finished) \<Rightarrow>
               (let age = sub_time now finished
                in if age > maxAge then
                     (False, lit ''last clean pass finished '' @ duration_text (round_duration age second) @
                             lit '' ago (max '' @ duration_text maxAge @ lit '')'', Some run)
                   else (True, [], Some run))
           | None \<Rightarrow>
               (False, lit ''no clean pass in the last '' @ itoa (int (length runs)) @ lit '' run(s): '' @ describe newest,
                None)))"

fun consecutiveFailures :: "SyncRun list \<Rightarrow> SyncRun option \<Rightarrow> int" where
  "consecutiveFailures [] accepted = 0"
| "consecutiveFailures (run # runs) accepted =
     (if accepted \<noteq> None \<and> Ru_ID run = Ru_ID (the accepted) then 0
      else (if Ru_DryRun run \<or> Ru_FinishedAt run = [] \<or> Ru_Error run = [] then 0 else 1)
           + consecutiveFailures runs accepted)"

subsection \<open>Backups on disk\<close>

text \<open>The package's own \<open>snapshotDate\<close> returns the date as text.\<close>

definition snapshot_day :: "string \<Rightarrow> string option" where
  "snapshot_day name =
     (let n = length snapshotPrefix; m = length snapshotSuffix; mid = take (length name - n - m) (drop n name)
      in if take n name \<noteq> snapshotPrefix \<or> drop (length name - m) name \<noteq> snapshotSuffix then None
         else if parse_day mid = None then None else Some mid)"

definition lastBackupAt :: "disk \<Rightarrow> string \<Rightarrow> folder \<Rightarrow> string" where
  "lastBackupAt k backupDir fo =
     (if backupDir = [] \<or> k_readdir k \<noteq> None then []
      else let days = List.map_filter (\<lambda>(n, f). if f = Dir then None else snapshot_day n) fo
           in if days = [] then [] else last (sort days))"

subsection \<open>Building it\<close>

record counts =
  ct_synced :: int
  ct_pending :: int
  ct_actionable :: int

definition no_account :: "string \<Rightarrow> gerr \<Rightarrow> gerr" where
  "no_account label e =
     Wrap (lit ''no account '' @ [34] @ lit label @ [34] @ lit '' yet '' @ [8212] @ lit '' run `difmsync auth` first: '') e []"

text \<open>Five reads, one after the other; the first error ends them.\<close>

definition read_store :: "'e env_scheme \<Rightarrow> string \<Rightarrow> int \<Rightarrow> ('z, Account \<times> counts \<times> SyncRun list) op" where
  "read_store E label scan =
     bind_op (\<lambda>s. map_res (no_account label) id (GetAccount E label s)) (\<lambda>account.
     bind_op (CountSynced E (A_ID account)) (\<lambda>n.
     bind_op (CountReview E (A_ID account) ''pending'') (\<lambda>p.
     bind_op (CountActionableReview E (A_ID account)) (\<lambda>a.
     bind_op (ListRuns E (A_ID account) scan) (\<lambda>runs s.
       (Inr (account, \<lparr>ct_synced = n, ct_pending = p, ct_actionable = a\<rparr>, runs), s))))))"

definition assemble ::
  "Account \<Rightarrow> counts \<Rightarrow> SyncRun list \<Rightarrow> bool \<Rightarrow> bool \<Rightarrow> runes \<Rightarrow> string \<Rightarrow> SyncRun option \<Rightarrow> int \<Rightarrow> string \<Rightarrow> Report" where
  "assemble account c runs authorized healthy reason version accepted failures backup =
     \<lparr>Rp_Account = A_Label account, Rp_Playlist = A_SpotifyPlaylistID account, Rp_Synced = ct_synced c,
      Rp_Pending = ct_actionable c, Rp_Skipped = ct_pending c - ct_actionable c,
      Rp_Watermark = (if A_WatermarkLikedAt account = 0 then [] else format_rfc3339 (A_WatermarkLikedAt account)),
      Rp_Runs = map newRun runs, Rp_Authorized = authorized, Rp_Healthy = healthy, Rp_Reason = reason,
      Rp_Version = version,
      Rp_LastSuccessAt = (case accepted of None \<Rightarrow> [] | Some run \<Rightarrow> Ru_FinishedAt run),
      Rp_ConsecutiveFailures = failures, Rp_LastBackupAt = backup\<rparr>"

definition awaiting_consent :: runes where
  "awaiting_consent = lit ''awaiting Spotify consent '' @ [8212] @ lit '' open the authorization URL from the daemon log''"

text \<open>From what was read to the report.\<close>

definition judge ::
  "Account \<Rightarrow> counts \<Rightarrow> SyncRun list \<Rightarrow> duration \<Rightarrow> int \<Rightarrow> gotime \<Rightarrow> string \<Rightarrow> string \<Rightarrow> Report" where
  "judge account c runs maxAge runLimit now version backup =
     (let window = take (nat HealthScanLimit) runs;
          (healthy, reason, accepted) = health window maxAge now;
          authorized = (A_SpotifyRefreshToken account \<noteq> []);
          healthy = (healthy \<and> authorized);
          reason = (if authorized then reason else awaiting_consent);
          failures = consecutiveFailures window accepted
      in assemble account c (take (nat runLimit) runs) authorized healthy reason version accepted failures backup)"

definition Build ::
  "'e env_scheme \<Rightarrow> disk \<Rightarrow> folder \<Rightarrow> string \<Rightarrow> duration \<Rightarrow> int \<Rightarrow> string \<Rightarrow> string \<Rightarrow> ('z, Report) op" where
  "Build E k fo label maxAge runLimit version backupDir =
     (let runLimit = (if runLimit \<le> 0 then DefaultRunLimit else runLimit)
      in bind_op (read_store E label (max runLimit HealthScanLimit)) (\<lambda>(account, c, runs) s.
           (Inr (judge account c runs maxAge runLimit (e_now E (s_tick s)) version (lastBackupAt k backupDir fo)), s)))"

subsection \<open>The endpoints\<close>

datatype json = JStr runes | JNum int | JBool bool | JArr "json list" | JObj "(string \<times> json) list"

datatype response = TextResponse int runes | JsonResponse int json

datatype route = Healthz | StatusJson

text \<open>\<open>omitempty\<close>.\<close>

definition unless_empty :: "string \<Rightarrow> runes \<Rightarrow> (string \<times> json) list" where
  "unless_empty key v = (if v = [] then [] else [(key, JStr v)])"

text \<open>\<open>Error\<close> is tagged \<open>json:"-"\<close> and has no entry.\<close>

definition encode_run :: "Run \<Rightarrow> json" where
  "encode_run r =
     JObj ([(''id'', JNum (Rn_ID r)), (''started_at'', JStr (lit (Rn_StartedAt r))),
            (''finished_at'', JStr (lit (Rn_FinishedAt r))), (''dry_run'', JBool (Rn_DryRun r)),
            (''fetched'', JNum (Rn_Fetched r)), (''added'', JNum (Rn_Added r)), (''queued'', JNum (Rn_Queued r)),
            (''skipped'', JNum (Rn_Skipped r)), (''failed'', JBool (Rn_Failed r))]
           @ unless_empty ''error_kind'' (lit (Rn_ErrorKind r)))"

definition encode_report :: "Report \<Rightarrow> json" where
  "encode_report r =
     JObj ([(''account'', JStr (lit (Rp_Account r))), (''playlist'', JStr (lit (Rp_Playlist r))),
            (''synced'', JNum (Rp_Synced r)), (''pending'', JNum (Rp_Pending r)), (''skipped'', JNum (Rp_Skipped r)),
            (''watermark'', JStr (lit (Rp_Watermark r))), (''runs'', JArr (map encode_run (Rp_Runs r))),
            (''authorized'', JBool (Rp_Authorized r)), (''healthy'', JBool (Rp_Healthy r))]
           @ unless_empty ''reason'' (Rp_Reason r)
           @ [(''version'', JStr (lit (Rp_Version r)))]
           @ unless_empty ''last_success_at'' (lit (Rp_LastSuccessAt r))
           @ [(''consecutive_failures'', JNum (Rp_ConsecutiveFailures r))]
           @ unless_empty ''last_backup_at'' (lit (Rp_LastBackupAt r)))"

definition Handler ::
  "'e env_scheme \<Rightarrow> disk \<Rightarrow> folder \<Rightarrow> string \<Rightarrow> duration \<Rightarrow> string \<Rightarrow> string \<Rightarrow> route \<Rightarrow>
   'z store_scheme \<Rightarrow> response \<times> 'z store_scheme" where
  "Handler E k fo label maxAge version backupDir route s =
     (case Build E k fo label maxAge DefaultRunLimit version backupDir s of
        (r, s') \<Rightarrow>
          ((case (route, r) of
              (Healthz, Inl e) \<Rightarrow> TextResponse 503 (err_text e @ [10])
            | (Healthz, Inr rep) \<Rightarrow>
                if Rp_Healthy rep then TextResponse 200 (lit ''ok'' @ [10]) else TextResponse 503 (Rp_Reason rep @ [10])
            | (StatusJson, Inl e) \<Rightarrow> JsonResponse 503 (JObj [(''error'', JStr (err_text e))])
            | (StatusJson, Inr rep) \<Rightarrow> JsonResponse 200 (encode_report rep)), s'))"

text \<open>\<open>difmsync status --check\<close>: the container's health check.\<close>

definition status_check ::
  "'e env_scheme \<Rightarrow> disk \<Rightarrow> folder \<Rightarrow> string \<Rightarrow> duration \<Rightarrow> int \<Rightarrow> string \<Rightarrow> string \<Rightarrow> 'z store_scheme \<Rightarrow>
   gerr option \<times> 'z store_scheme" where
  "status_check E k fo label maxAge runLimit version backupDir s =
     (case Build E k fo label maxAge runLimit version backupDir s of
        (Inl e, s') \<Rightarrow> (Some e, s')
      | (Inr rep, s') \<Rightarrow> (if Rp_Healthy rep then None else Some (Msg (Rp_Reason rep)), s'))"

end
