(* ===== verification/StatusLaws.thy ===== *)
theory StatusLaws
  imports Status
begin

text \<open>
  What the report and the endpoints promise: the verdict is the rule its comment states, no caller
  can change it by asking for more or less detail, the probes agree, and neither the recorded
  error texts nor the refresh token reach a response.
\<close>

subsection \<open>The rule\<close>

definition counts_as_clean :: "SyncRun \<Rightarrow> gotime \<Rightarrow> bool" where
  "counts_as_clean run t \<longleftrightarrow>
     \<not> Ru_DryRun run \<and> Ru_FinishedAt run \<noteq> [] \<and> Ru_Error run = [] \<and> parse_time (Ru_FinishedAt run) = Some t"

definition failed_run :: "SyncRun \<Rightarrow> bool" where
  "failed_run run \<longleftrightarrow> \<not> Ru_DryRun run \<and> Ru_FinishedAt run \<noteq> [] \<and> Ru_Error run \<noteq> []"

definition newest_clean :: "SyncRun list \<Rightarrow> SyncRun list \<Rightarrow> SyncRun \<Rightarrow> gotime \<Rightarrow> bool" where
  "newest_clean window newer run t \<longleftrightarrow>
     (\<exists>older. window = newer @ run # older) \<and> counts_as_clean run t \<and> (\<forall>x\<in>set newer. \<forall>u. \<not> counts_as_clean x u)"

lemma first_clean_Some:
  "first_clean runs = Some (r, t) \<longleftrightarrow> (\<exists>newer. newest_clean runs newer r t)"
proof (induction runs)
  case Nil
  then show ?case by (simp add: newest_clean_def)
next
  case (Cons run runs)
  show ?case
  proof (cases "\<exists>u. counts_as_clean run u")
    case True
    then obtain u where u: "counts_as_clean run u" by blast
    then have "first_clean (run # runs) = Some (run, u)" by (simp add: counts_as_clean_def)
    moreover have "newest_clean (run # runs) newer r t \<longleftrightarrow> newer = [] \<and> r = run \<and> t = u" for newer
    proof (cases newer)
      case Nil
      have "counts_as_clean run v \<longleftrightarrow> v = u" for v using u by (auto simp: counts_as_clean_def)
      with Nil show ?thesis by (auto simp: newest_clean_def)
    next
      case (Cons a n)
      then have "\<not> newest_clean (run # runs) newer r t" using u unfolding newest_clean_def by auto
      then show ?thesis using Cons by simp
    qed
    ultimately show ?thesis by (simp del: first_clean.simps) blast
  next
    case False
    then have "first_clean (run # runs) = first_clean runs"
      by (auto simp: counts_as_clean_def split: option.split)
    moreover have "newest_clean (run # runs) newer r t \<longleftrightarrow> (\<exists>n. newer = run # n \<and> newest_clean runs n r t)" for newer
    proof (cases newer)
      case Nil
      then have "\<not> newest_clean (run # runs) newer r t" using False unfolding newest_clean_def by auto
      then show ?thesis using Nil by simp
    next
      case (Cons a n)
      have "newest_clean (run # runs) (a # n) r t \<longleftrightarrow> a = run \<and> newest_clean runs n r t"
        using False unfolding newest_clean_def by (metis append_Cons list.inject list.set_intros(1) set_ConsD list.set_intros(2))
      then show ?thesis using Cons by auto
    qed
    ultimately show ?thesis using Cons by simp
  qed
qed

lemma first_clean_None: "first_clean runs = None \<longleftrightarrow> (\<forall>x\<in>set runs. \<forall>u. \<not> counts_as_clean x u)"
  by (induction runs) (auto simp: counts_as_clean_def split: option.split)

lemma consecutiveFailures_None: "consecutiveFailures runs None = int (length (filter failed_run runs))"
  by (induction runs) (auto simp: failed_run_def)

lemma consecutiveFailures_Some:
  "Ru_ID r \<notin> Ru_ID ` set newer \<Longrightarrow>
   consecutiveFailures (newer @ r # older) (Some r) = int (length (filter failed_run newer))"
  by (induction newer) (auto simp: failed_run_def)

subsection \<open>What was read\<close>

lemma bind_op_Inr:
  "bind_op m k s = (Inr x, s') \<longleftrightarrow> (\<exists>y s1. m s = (Inr y, s1) \<and> k y s1 = (Inr x, s'))"
  by (auto simp: bind_op_def split: prod.splits sum.splits)

lemma CountSynced_result:
  assumes "CountSynced E acct w = (r, w')"
  shows "s_db w' = s_db w" "s_tick w' = Suc (s_tick w)"
    "\<And>n. r = Inr n \<Longrightarrow> n = count_where (\<lambda>x. sr_account x = acct) (synced_tracks (s_db w))"
proof -
  note R = read_op [OF assms [unfolded CountSynced_def]]
  have s: "snd (countSyncedTracks acct d) = d" for d by (simp add: countSyncedTracks_def)
  show "s_db w' = s_db w" "s_tick w' = Suc (s_tick w)" using R(2,3) s by simp_all
  show "n = count_where (\<lambda>x. sr_account x = acct) (synced_tracks (s_db w))" if "r = Inr n" for n
    using R(4) [OF s that] by (auto simp: countSyncedTracks_def)
qed

lemma CountReview_result:
  assumes "CountReview E acct st w = (r, w')"
  shows "s_db w' = s_db w"
    "\<And>n. r = Inr n \<Longrightarrow> n = count_where (\<lambda>x. rr_account x = acct \<and> rr_status x = st) (review_queue (s_db w))"
proof -
  note R = read_op [OF assms [unfolded CountReview_def]]
  have s: "snd (countReviewQueue acct st d) = d" for d by (simp add: countReviewQueue_def)
  show "s_db w' = s_db w" using R(2) s by simp
  show "n = count_where (\<lambda>x. rr_account x = acct \<and> rr_status x = st) (review_queue (s_db w))" if "r = Inr n" for n
    using R(4) [OF s that] by (auto simp: countReviewQueue_def)
qed

lemma CountActionableReview_result:
  assumes "CountActionableReview E acct w = (r, w')"
  shows "s_db w' = s_db w"
    "\<And>n. r = Inr n \<Longrightarrow> n = count_where
       (\<lambda>x. rr_account x = acct \<and> rr_status x = ''pending'' \<and> rr_reason x \<noteq> ''skipped'') (review_queue (s_db w))"
proof -
  note R = read_op [OF assms [unfolded CountActionableReview_def]]
  have s: "snd (countReviewQueueActionable acct d) = d" for d by (simp add: countReviewQueueActionable_def)
  show "s_db w' = s_db w" using R(2) s by simp
  show "n = count_where (\<lambda>x. rr_account x = acct \<and> rr_status x = ''pending'' \<and> rr_reason x \<noteq> ''skipped'')
      (review_queue (s_db w))" if "r = Inr n" for n
    using R(4) [OF s that] by (auto simp: countReviewQueueActionable_def)
qed

lemma ListRuns_result:
  assumes "ListRuns E acct n w = (r, w')"
  shows "s_db w' = s_db w"
    "\<And>runs. r = Inr runs \<Longrightarrow> runs = map toSyncRun (limit n (newest_runs acct (s_db w)))"
proof -
  note R = read_op [OF assms [unfolded ListRuns_def]]
  have s: "snd (listSyncRuns acct n d) = d" for d by (simp add: listSyncRuns_def)
  show "s_db w' = s_db w" using R(2) s by simp
  show "runs = map toSyncRun (limit n (newest_runs acct (s_db w)))" if "r = Inr runs" for runs
    using R(4) [OF s that] by (auto simp: listSyncRuns_def)
qed

definition pending_rows :: "int \<Rightarrow> db \<Rightarrow> int" where
  "pending_rows acct d = count_where (\<lambda>x. rr_account x = acct \<and> rr_status x = ''pending'') (review_queue d)"

definition actionable_rows :: "int \<Rightarrow> db \<Rightarrow> int" where
  "actionable_rows acct d =
     count_where (\<lambda>x. rr_account x = acct \<and> rr_status x = ''pending'' \<and> rr_reason x \<noteq> ''skipped'') (review_queue d)"

lemma read_store_result:
  assumes "read_store E label n w = (Inr (account, c, runs), w')"
  shows "\<exists>row\<in>set (accounts (s_db w)). ar_label row = label \<and> account = toAccount row \<and>
      c = \<lparr>ct_synced = count_where (\<lambda>x. sr_account x = ar_id row) (synced_tracks (s_db w)),
           ct_pending = pending_rows (ar_id row) (s_db w), ct_actionable = actionable_rows (ar_id row) (s_db w)\<rparr> \<and>
      runs = map toSyncRun (limit n (newest_runs (ar_id row) (s_db w)))"
proof -
  from assms obtain w1 k1 w2 k2 w3 k3 w4 where
    a: "map_res (no_account label) id (GetAccount E label w) = (Inr account, w1)" and
    n: "CountSynced E (A_ID account) w1 = (Inr k1, w2)" and
    p: "CountReview E (A_ID account) ''pending'' w2 = (Inr k2, w3)" and
    q: "CountActionableReview E (A_ID account) w3 = (Inr k3, w4)" and
    r: "ListRuns E (A_ID account) n w4 = (Inr runs, w')" and
    c: "c = \<lparr>ct_synced = k1, ct_pending = k2, ct_actionable = k3\<rparr>"
    by (auto simp: read_store_def bind_op_Inr)
  from map_res_result [OF a] obtain r0 where g: "GetAccount E label w = (r0, w1)" "Inr account = map_sum (no_account label) id r0"
    by blast
  then have "r0 = Inr account" by (cases r0) auto
  with g obtain row where row: "row \<in> set (accounts (s_db w))" "ar_label row = label" "account = toAccount row"
    using GetAccount_result(3) [OF g(1)] by blast
  have id: "A_ID account = ar_id row" using row by (simp add: toAccount_def)
  have "s_db w1 = s_db w" by (rule GetAccount_result(2) [OF g(1)])
  moreover have "s_db w2 = s_db w1" "k1 = count_where (\<lambda>x. sr_account x = A_ID account) (synced_tracks (s_db w1))"
    using CountSynced_result(1,3) [OF n] by simp_all
  moreover have "s_db w3 = s_db w2" "k2 = pending_rows (A_ID account) (s_db w2)"
    using CountReview_result [OF p] by (simp_all add: pending_rows_def)
  moreover have "s_db w4 = s_db w3" "k3 = actionable_rows (A_ID account) (s_db w3)"
    using CountActionableReview_result [OF q] by (simp_all add: actionable_rows_def)
  moreover have "runs = map toSyncRun (limit n (newest_runs (A_ID account) (s_db w4)))"
    using ListRuns_result(2) [OF r] by simp
  ultimately show ?thesis using row id c by auto
qed

subsection \<open>The verdict\<close>

definition window_of :: "int \<Rightarrow> db \<Rightarrow> SyncRun list" where
  "window_of acct d = map toSyncRun (take 20 (newest_runs acct d))"

lemma Build_Inr:
  assumes "Build E k fo label maxAge n version dir w = (Inr rep, w')"
  obtains row c runs where "row \<in> set (accounts (s_db w))" "ar_label row = label"
    "c = \<lparr>ct_synced = count_where (\<lambda>x. sr_account x = ar_id row) (synced_tracks (s_db w)),
          ct_pending = pending_rows (ar_id row) (s_db w), ct_actionable = actionable_rows (ar_id row) (s_db w)\<rparr>"
    "runs = map toSyncRun (take (nat (max (if n \<le> 0 then 5 else n) 20)) (newest_runs (ar_id row) (s_db w)))"
    "rep = judge (toAccount row) c runs maxAge (if n \<le> 0 then 5 else n) (e_now E (s_tick w')) version (lastBackupAt k dir fo)"
    "take 20 runs = window_of (ar_id row) (s_db w)"
proof -
  let ?n = "if n \<le> 0 then 5 else n"
  from assms obtain account c runs where
    r: "read_store E label (max ?n HealthScanLimit) w = (Inr (account, c, runs), w')" and
    rep: "rep = judge account c runs maxAge ?n (e_now E (s_tick w')) version (lastBackupAt k dir fo)"
    unfolding Build_def Let_def DefaultRunLimit_def bind_op_Inr by (auto split: prod.splits)
  from read_store_result [OF r] obtain row where row: "row \<in> set (accounts (s_db w))" "ar_label row = label"
    "account = toAccount row" "c = \<lparr>ct_synced = count_where (\<lambda>x. sr_account x = ar_id row) (synced_tracks (s_db w)),
          ct_pending = pending_rows (ar_id row) (s_db w), ct_actionable = actionable_rows (ar_id row) (s_db w)\<rparr>"
    "runs = map toSyncRun (take (nat (max ?n 20)) (newest_runs (ar_id row) (s_db w)))"
    by (auto simp: limit_def HealthScanLimit_def)
  have "take 20 runs = window_of (ar_id row) (s_db w)"
  proof -
    have "min 20 (nat (max ?n 20)) = 20" by simp
    then show ?thesis by (simp add: row(5) window_of_def take_map)
  qed
  with row rep show thesis by (intro that [of row c runs]) simp_all
qed

lemma window_distinct:
  assumes "distinct (map ru_id (sync_runs d))"
  shows "distinct (map Ru_ID (window_of acct d))"
proof -
  have "distinct (map ru_id (newest_runs acct d))"
    using assms by (simp add: newest_runs_def distinct_map inj_on_def)
  then have "distinct (map ru_id (take 20 (newest_runs acct d)))" by (metis distinct_take take_map)
  moreover have "map Ru_ID (window_of acct d) = map ru_id (take 20 (newest_runs acct d))"
    by (simp add: window_of_def toSyncRun_def)
  ultimately show ?thesis by simp
qed

text \<open>
  C35: the verdict is the stated rule. A report says healthy exactly if there is a refresh token and
  the newest run that finished without an error, not dry and with a readable time, among the 20
  newest, is no older than \<open>maxAge\<close>. \<open>last_success_at\<close> is that same run's time, fresh or stale, and
  \<open>consecutive_failures\<close> counts the finished failures newer than it, or all of them if there is none.
\<close>

theorem health_verdict:
  assumes "Build E k fo label maxAge n version dir w = (Inr rep, w')" and "db_ok (s_db w)"
  shows "\<exists>row\<in>set (accounts (s_db w)). ar_label row = label \<and>
    (let window = window_of (ar_id row) (s_db w); now = e_now E (s_tick w') in
       (\<forall>newer run t. newest_clean window newer run t \<longrightarrow>
          (Rp_Healthy rep \<longleftrightarrow> ar_token row \<noteq> [] \<and> sub_time now t \<le> maxAge) \<and>
          Rp_LastSuccessAt rep = Ru_FinishedAt run \<and>
          Rp_ConsecutiveFailures rep = int (length (filter failed_run newer))) \<and>
       ((\<forall>run\<in>set window. \<forall>t. \<not> counts_as_clean run t) \<longrightarrow>
          \<not> Rp_Healthy rep \<and> Rp_LastSuccessAt rep = [] \<and>
          Rp_ConsecutiveFailures rep = int (length (filter failed_run window))))"
proof -
  let ?now = "e_now E (s_tick w')"
  from assms(1) obtain row c runs where row: "row \<in> set (accounts (s_db w))" "ar_label row = label" and
    rep: "rep = judge (toAccount row) c runs maxAge (if n \<le> 0 then 5 else n) ?now version (lastBackupAt k dir fo)" and
    win: "take 20 runs = window_of (ar_id row) (s_db w)" by (rule Build_Inr) blast
  let ?W = "window_of (ar_id row) (s_db w)"
  have tok: "A_SpotifyRefreshToken (toAccount row) = ar_token row" by (simp add: toAccount_def)
  have dist: "distinct (map Ru_ID ?W)" by (rule window_distinct) (use assms(2) in \<open>simp add: db_ok_def\<close>)
  have none: "\<not> Rp_Healthy rep \<and> Rp_LastSuccessAt rep = [] \<and>
      Rp_ConsecutiveFailures rep = int (length (filter failed_run ?W))"
    if "\<forall>run\<in>set ?W. \<forall>t. \<not> counts_as_clean run t"
  proof -
    have "\<exists>reason. health ?W maxAge ?now = (False, reason, None)"
      using that first_clean_None [of ?W] by (auto simp: health_def split: list.split)
    then show ?thesis
      using win by (auto simp: rep judge_def assemble_def Let_def HealthScanLimit_def consecutiveFailures_None)
  qed
  have some: "(Rp_Healthy rep \<longleftrightarrow> ar_token row \<noteq> [] \<and> sub_time ?now t \<le> maxAge) \<and>
          Rp_LastSuccessAt rep = Ru_FinishedAt run \<and>
          Rp_ConsecutiveFailures rep = int (length (filter failed_run newer))"
    if nc: "newest_clean ?W newer run t" for newer run t
  proof -
    have f: "first_clean ?W = Some (run, t)" using nc first_clean_Some by blast
    obtain older where W: "?W = newer @ run # older" using nc by (auto simp: newest_clean_def)
    have h: "\<exists>reason. health ?W maxAge ?now = (sub_time ?now t \<le> maxAge, reason, Some run)"
      using f W by (auto simp: health_def Let_def not_less split: list.split)
    have "Ru_ID run \<notin> Ru_ID ` set newer" using dist W by auto
    then have "consecutiveFailures ?W (Some run) = int (length (filter failed_run newer))"
      unfolding W by (rule consecutiveFailures_Some)
    with h show ?thesis
      using win tok by (auto simp: rep judge_def assemble_def Let_def HealthScanLimit_def)
  qed
  show ?thesis unfolding Let_def using row none some by blast
qed

subsection \<open>How much was asked for\<close>

lemma ListRuns_scan:
  assumes "0 \<le> n"
  shows "ListRuns E acct n s = map_res id (take (nat n)) (ListRuns E acct (- 1) s)"
  using assms
  by (simp add: ListRuns_def query_def listSyncRuns_def limit_def take_map split: option.split)

lemma read_store_scan:
  assumes "0 \<le> n"
  shows "read_store E label n s = map_res id (\<lambda>(a, c, runs). (a, c, take (nat n) runs)) (read_store E label (- 1) s)"
  unfolding read_store_def ListRuns_scan [OF assms]
  by (auto simp: bind_op_def split: prod.split sum.split)

text \<open>What a report says when its list of runs is left out.\<close>

definition headline :: "Report \<Rightarrow> Report" where
  "headline rep = rep\<lparr>Rp_Runs := []\<rparr>"

lemma Build_read:
  "Build E k fo label maxAge n version dir s =
     (case read_store E label (- 1) s of
        (Inl e, s1) \<Rightarrow> (Inl e, s1)
      | (Inr (a, c, runs), s1) \<Rightarrow>
          (let m = (if n \<le> 0 then 5 else n)
           in (Inr (judge a c (take (nat (max m 20)) runs) maxAge m (e_now E (s_tick s1)) version (lastBackupAt k dir fo)), s1)))"
proof -
  define m where "m = (if n \<le> 0 then 5 else n)"
  have "0 \<le> max m 20" by simp
  note scan = read_store_scan [OF this, of E label s]
  show ?thesis
  proof (cases "read_store E label (- 1) s")
    case (Pair r s1)
    show ?thesis
      unfolding Build_def Let_def DefaultRunLimit_def HealthScanLimit_def m_def [symmetric] bind_op_def scan Pair
      by (cases r) auto
  qed
qed

lemma judge_headline:
  assumes "20 \<le> i" "20 \<le> j"
  shows "headline (judge a c (take i runs) maxAge n now version backup) =
    headline (judge a c (take j runs) maxAge m now version backup)"
  using assms
  by (simp add: judge_def headline_def assemble_def HealthScanLimit_def min_def Let_def split: prod.split)

text \<open>
  Asking for more or less detail changes no verdict. Whatever number of runs two callers ask
  for at the same moment, they get the same error or the same report up to its list of runs, which
  is cut to the number asked for.
\<close>

theorem verdict_ignores_detail:
  "map_sum id headline (fst (Build E k fo label maxAge n version dir s)) =
     map_sum id headline (fst (Build E k fo label maxAge m version dir s)) \<and>
   (case fst (Build E k fo label maxAge n version dir s) of
      Inl e \<Rightarrow> True
    | Inr rep \<Rightarrow> int (length (Rp_Runs rep)) \<le> (if n \<le> 0 then 5 else n))"
proof (cases "fst (read_store E label (- 1) s)")
  case (Inl e)
  then obtain s1 where r: "read_store E label (- 1) s = (Inl e, s1)" by (metis prod.collapse)
  have "Build E k fo label maxAge i version dir s = (Inl e, s1)" for i by (simp add: Build_read r)
  then show ?thesis by simp
next
  case (Inr q)
  obtain a c runs s1 where r: "read_store E label (- 1) s = (Inr (a, c, runs), s1)"
    using Inr by (metis prod.collapse)
  define rep where "rep i = judge a c (take (nat (max (if i \<le> 0 then 5 else i) 20)) runs) maxAge (if i \<le> 0 then 5 else i)
      (e_now E (s_tick s1)) version (lastBackupAt k dir fo)" for i
  have b: "Build E k fo label maxAge i version dir s = (Inr (rep i), s1)" for i
    using r by (simp add: Build_read Let_def rep_def)
  have twenty: "20 \<le> nat (max (if i \<le> 0 then 5 else i) 20)" for i :: int by simp
  have "headline (rep n) = headline (rep m)" unfolding rep_def by (rule judge_headline [OF twenty twenty])
  moreover have "int (length (Rp_Runs (rep n))) \<le> (if n \<le> 0 then 5 else n)"
    by (auto simp: rep_def judge_def assemble_def Let_def split: prod.split)
  ultimately show ?thesis by (simp add: b)
qed

text \<open>
  The probes cannot disagree. At the same moment \<open>difmsync status --check\<close>, with any
  \<open>--limit\<close>, exits with 0 exactly when \<open>/healthz\<close> answers 200 and \<open>/status.json\<close> reports
  \<open>healthy\<close>; and when it does not, the line it prints is the text \<open>/healthz\<close> serves.
\<close>

theorem probes_agree:
  "case (fst (status_check E k fo label maxAge n version dir s), fst (Handler E k fo label maxAge version dir Healthz s),
         fst (Build E k fo label maxAge m version dir s)) of
     (None, TextResponse code txt, Inr rep) \<Rightarrow> code = 200 \<and> Rp_Healthy rep
   | (Some e, TextResponse code txt, Inr rep) \<Rightarrow> code = 503 \<and> txt = err_text e @ [10] \<and> \<not> Rp_Healthy rep
   | (Some e, TextResponse code txt, Inl e') \<Rightarrow> code = 503 \<and> txt = err_text e @ [10] \<and> e' = e
   | x \<Rightarrow> False"
proof (cases "fst (read_store E label (- 1) s)")
  case (Inl e)
  then obtain s1 where r: "read_store E label (- 1) s = (Inl e, s1)" by (metis prod.collapse)
  have "Build E k fo label maxAge i version dir s = (Inl e, s1)" for i by (simp add: Build_read r)
  then show ?thesis by (simp add: status_check_def Handler_def)
next
  case (Inr q)
  obtain a c runs s1 where r: "read_store E label (- 1) s = (Inr (a, c, runs), s1)"
    using Inr by (metis prod.collapse)
  define rep where "rep i = judge a c (take (nat (max (if i \<le> 0 then 5 else i) 20)) runs) maxAge (if i \<le> 0 then 5 else i)
      (e_now E (s_tick s1)) version (lastBackupAt k dir fo)" for i
  have b: "Build E k fo label maxAge i version dir s = (Inr (rep i), s1)" for i
    using r by (simp add: Build_read Let_def rep_def)
  have twenty: "20 \<le> nat (max (if i \<le> 0 then 5 else i) 20)" for i :: int by simp
  have "headline (rep i) = headline (rep j)" for i j unfolding rep_def by (rule judge_headline [OF twenty twenty])
  then have same: "Rp_Healthy (rep i) = Rp_Healthy (rep j)" "Rp_Reason (rep i) = Rp_Reason (rep j)" for i j
    by (metis headline_def Report.select_convs(9,10) Report.surjective Report.update_convs(7))+
  from same [of DefaultRunLimit n] same(1) [of m n] show ?thesis by (simp add: status_check_def Handler_def b)
qed

subsection \<open>What gets out\<close>

text \<open>
  \<open>scrub\<close> replaces what is secret: the refresh tokens, and the recorded error texts (which carry
  request URLs and paths), keeping only whether there is one.
\<close>

definition mask :: "'a list \<Rightarrow> 'a list \<Rightarrow> 'a list" where
  "mask x v = (if v = [] then [] else x)"

definition scrub :: "string \<Rightarrow> runes \<Rightarrow> db \<Rightarrow> db" where
  "scrub tok txt d =
     d\<lparr>accounts := map (\<lambda>a. a\<lparr>ar_token := mask tok (ar_token a)\<rparr>) (accounts d),
       sync_runs := map (\<lambda>r. r\<lparr>ru_error := mask txt (ru_error r)\<rparr>) (sync_runs d)\<rparr>"

definition scrub_run :: "runes \<Rightarrow> SyncRun \<Rightarrow> SyncRun" where
  "scrub_run txt r = r\<lparr>Ru_Error := mask txt (Ru_Error r)\<rparr>"

definition scrub_account :: "string \<Rightarrow> Account \<Rightarrow> Account" where
  "scrub_account tok a = a\<lparr>A_SpotifyRefreshToken := mask tok (A_SpotifyRefreshToken a)\<rparr>"

lemma mask_Nil [simp]: "x \<noteq> [] \<Longrightarrow> mask x v = [] \<longleftrightarrow> v = []"
  by (simp add: mask_def)

lemma scrub_run_simps [simp]:
  "Ru_ID (scrub_run txt r) = Ru_ID r" "Ru_DryRun (scrub_run txt r) = Ru_DryRun r"
  "Ru_FinishedAt (scrub_run txt r) = Ru_FinishedAt r" "Ru_ErrorKind (scrub_run txt r) = Ru_ErrorKind r"
  "txt \<noteq> [] \<Longrightarrow> Ru_Error (scrub_run txt r) = [] \<longleftrightarrow> Ru_Error r = []"
  by (simp_all add: scrub_run_def)

lemma first_clean_scrub:
  "txt \<noteq> [] \<Longrightarrow> first_clean (map (scrub_run txt) runs) = map_option (\<lambda>(r, t). (scrub_run txt r, t)) (first_clean runs)"
  by (induction runs) (auto split: option.split)

lemma consecutiveFailures_scrub:
  "txt \<noteq> [] \<Longrightarrow>
   consecutiveFailures (map (scrub_run txt) runs) (map_option (scrub_run txt) acc) = consecutiveFailures runs acc"
  by (induction runs) (cases acc; auto)+

lemma describe_scrub: "txt \<noteq> [] \<Longrightarrow> describe (scrub_run txt r) = describe r"
  by (simp add: describe_def del: lit_simps)

lemma health_scrub:
  assumes "txt \<noteq> []"
  shows "health (map (scrub_run txt) runs) maxAge now =
     (case health runs maxAge now of (h, reason, acc) \<Rightarrow> (h, reason, map_option (scrub_run txt) acc))"
proof (cases runs)
  case (Cons r rs)
  have f: "first_clean (map (scrub_run txt) (r # rs)) = map_option (\<lambda>(r, t). (scrub_run txt r, t)) (first_clean (r # rs))"
    by (rule first_clean_scrub [OF assms])
  show ?thesis
    by (cases "first_clean (r # rs)")
      (use f describe_scrub [OF assms] in
        \<open>auto simp: Cons health_def Let_def simp del: lit_simps first_clean.simps\<close>)
qed (simp add: health_def)

lemma encode_run_scrub: "txt \<noteq> [] \<Longrightarrow> encode_run (newRun (scrub_run txt r)) = encode_run (newRun r)"
  by (simp add: encode_run_def newRun_def scrub_run_def)

text \<open>What the two endpoints serve of a report.\<close>

definition served :: "Report \<Rightarrow> json \<times> bool \<times> runes" where
  "served rep = (encode_report rep, Rp_Healthy rep, Rp_Reason rep)"

lemma judge_scrub:
  assumes "txt \<noteq> []" "tok \<noteq> []"
  shows "served (judge (scrub_account tok a) c (map (scrub_run txt) runs) maxAge n now version backup) =
    served (judge a c runs maxAge n now version backup)"
proof -
  obtain h reason acc where j: "health (take (nat HealthScanLimit) runs) maxAge now = (h, reason, acc)"
    by (metis prod_cases3)
  have map: "map (encode_run \<circ> (newRun \<circ> scrub_run txt)) xs = map (encode_run \<circ> newRun) xs" for xs
    using encode_run_scrub [OF assms(1)] by simp
  show ?thesis
    using j assms
    by (simp add: judge_def served_def encode_report_def assemble_def take_map health_scrub consecutiveFailures_scrub
        Let_def scrub_account_def map split: option.split)
qed

subsection \<open>Reading a scrubbed store\<close>

lemma find_map: "List.find P (map f xs) = map_option f (List.find (P \<circ> f) xs)"
  by (induction xs) auto

lemma GetAccount_scrub:
  "GetAccount E label (s\<lparr>s_db := scrub tok txt (s_db s)\<rparr>) =
     (case GetAccount E label s of
        (r, s') \<Rightarrow> (map_sum id (scrub_account tok) r, s'\<lparr>s_db := scrub tok txt (s_db s')\<rparr>))"
proof -
  have "List.find (\<lambda>a. ar_label a = label) (accounts (scrub tok txt d)) =
      map_option (\<lambda>a. a\<lparr>ar_token := mask tok (ar_token a)\<rparr>) (List.find (\<lambda>a. ar_label a = label) (accounts d))" for d
    by (simp add: scrub_def find_map comp_def)
  then show ?thesis
    by (auto simp: GetAccount_def query_def getAccountByLabel_def toAccount_def scrub_account_def
        simp del: lit_simps split: option.split)
qed

lemma newest_runs_scrub:
  "newest_runs acct (scrub tok txt d) = map (\<lambda>r. r\<lparr>ru_error := mask txt (ru_error r)\<rparr>) (newest_runs acct d)"
proof -
  let ?f = "\<lambda>r. r\<lparr>ru_error := mask txt (ru_error r)\<rparr>" and ?k = "\<lambda>r. (Desc (ru_started r), Desc (ru_id r))"
  have ins: "insort_key ?k (?f x) (map ?f xs) = map ?f (insort_key ?k x xs)" for x xs
    by (induction xs) auto
  have "sort_key ?k (map ?f xs) = map ?f (sort_key ?k xs)" for xs
    by (induction xs) (simp_all add: ins)
  then show ?thesis by (simp add: newest_runs_def scrub_def filter_map comp_def)
qed

lemma reads_scrub:
  "CountSynced E acct (s\<lparr>s_db := scrub tok txt (s_db s)\<rparr>) =
     (case CountSynced E acct s of (r, s') \<Rightarrow> (r, s'\<lparr>s_db := scrub tok txt (s_db s')\<rparr>))"
  "CountReview E acct st (s\<lparr>s_db := scrub tok txt (s_db s)\<rparr>) =
     (case CountReview E acct st s of (r, s') \<Rightarrow> (r, s'\<lparr>s_db := scrub tok txt (s_db s')\<rparr>))"
  "CountActionableReview E acct (s\<lparr>s_db := scrub tok txt (s_db s)\<rparr>) =
     (case CountActionableReview E acct s of (r, s') \<Rightarrow> (r, s'\<lparr>s_db := scrub tok txt (s_db s')\<rparr>))"
  "ListRuns E acct n (s\<lparr>s_db := scrub tok txt (s_db s)\<rparr>) =
     (case ListRuns E acct n s of
        (r, s') \<Rightarrow> (map_sum id (map (scrub_run txt)) r, s'\<lparr>s_db := scrub tok txt (s_db s')\<rparr>))"
  by (auto simp: CountSynced_def countSyncedTracks_def CountReview_def countReviewQueue_def
      CountActionableReview_def countReviewQueueActionable_def ListRuns_def listSyncRuns_def query_def
      newest_runs_scrub limit_def take_map toSyncRun_def scrub_run_def simp del: lit_simps split: option.split)
     (simp_all add: scrub_def)

lemma read_store_scrub:
  "read_store E label n (s\<lparr>s_db := scrub tok txt (s_db s)\<rparr>) =
     (case read_store E label n s of
        (r, s') \<Rightarrow> (map_sum id (\<lambda>(a, c, runs). (scrub_account tok a, c, map (scrub_run txt) runs)) r,
                   s'\<lparr>s_db := scrub tok txt (s_db s')\<rparr>))"
proof -
  have id: "A_ID (scrub_account tok a) = A_ID a" for a by (simp add: scrub_account_def)
  obtain r1 s1 where 1: "GetAccount E label s = (r1, s1)" by fastforce
  show ?thesis
  proof (cases r1)
    case (Inl e)
    with 1 show ?thesis by (simp add: read_store_def bind_op_def GetAccount_scrub)
  next
    case (Inr a)
    note a = 1 [unfolded Inr]
    obtain r2 s2 where 2: "CountSynced E (A_ID a) s1 = (r2, s2)" by fastforce
    obtain r3 s3 where 3: "CountReview E (A_ID a) ''pending'' s2 = (r3, s3)" by fastforce
    obtain r4 s4 where 4: "CountActionableReview E (A_ID a) s3 = (r4, s4)" by fastforce
    obtain r5 s5 where 5: "ListRuns E (A_ID a) n s4 = (r5, s5)" by fastforce
    show ?thesis
      by (cases r2; cases r3; cases r4; cases r5)
        (simp_all add: read_store_def bind_op_def GetAccount_scrub reads_scrub id a 2 3 4 5)
  qed
qed

lemma read_store_frame:
  assumes "read_store E label n s = (r, s')"
  shows "s_db s' = s_db s"
proof -
  have g: "s_db s1 = s_db s0" if "map_res (no_account label) id (GetAccount E label s0) = (x, s1)" for x s0 s1
    using GetAccount_result(2) map_res_result [OF that] by metis
  show ?thesis
    using assms
    by (auto simp: read_store_def bind_op_def split: prod.splits sum.splits
        dest!: g CountSynced_result(1) CountReview_result(1) CountActionableReview_result(1) ListRuns_result(1))
qed

text \<open>
  C36: the endpoints are read-only and disclose neither secrets nor error texts. No request changes
  the database; and if every refresh token were replaced by another one and every recorded error
  text by any other text, every response would be the same, byte for byte.
\<close>

theorem endpoints_keep_secrets:
  assumes "tok \<noteq> []" and "txt \<noteq> []"
  shows "s_db (snd (Handler E k fo label maxAge version dir route s)) = s_db s \<and>
    fst (Handler E k fo label maxAge version dir route
           (s\<lparr>s_db := (s_db s)\<lparr>accounts := map (\<lambda>a. if ar_token a = [] then a else a\<lparr>ar_token := tok\<rparr>) (accounts (s_db s)),
                     sync_runs := map (\<lambda>r. if ru_error r = [] then r else r\<lparr>ru_error := txt\<rparr>) (sync_runs (s_db s))\<rparr>\<rparr>)) =
    fst (Handler E k fo label maxAge version dir route s)"
proof -
  have eq: "(s_db s)\<lparr>accounts := map (\<lambda>a. if ar_token a = [] then a else a\<lparr>ar_token := tok\<rparr>) (accounts (s_db s)),
      sync_runs := map (\<lambda>r. if ru_error r = [] then r else r\<lparr>ru_error := txt\<rparr>) (sync_runs (s_db s))\<rparr> = scrub tok txt (s_db s)"
    by (simp add: scrub_def mask_def)
  obtain r s1 where r: "read_store E label (- 1) s = (r, s1)" by fastforce
  show ?thesis
  proof (cases r)
    case (Inl e)
    with r show ?thesis
      unfolding eq using read_store_frame [OF r]
      by (simp add: Handler_def Build_read read_store_scrub split: route.split)
  next
    case (Inr q)
    obtain a c runs where q: "q = (a, c, runs)" by (cases q)
    have j: "served (judge (scrub_account tok a) c (map (scrub_run txt) (take m runs)) maxAge n now version backup) =
        served (judge a c (take m runs) maxAge n now version backup)" for m n now backup
      by (rule judge_scrub [OF assms(2,1)])
    then have j': "encode_report (judge (scrub_account tok a) c (map (scrub_run txt) (take m runs)) maxAge n now version backup) =
        encode_report (judge a c (take m runs) maxAge n now version backup)"
      "Rp_Healthy (judge (scrub_account tok a) c (map (scrub_run txt) (take m runs)) maxAge n now version backup) =
        Rp_Healthy (judge a c (take m runs) maxAge n now version backup)"
      "Rp_Reason (judge (scrub_account tok a) c (map (scrub_run txt) (take m runs)) maxAge n now version backup) =
        Rp_Reason (judge a c (take m runs) maxAge n now version backup)" for m n now backup
      by (simp_all add: served_def)
    show ?thesis
      unfolding eq using read_store_frame [OF r] r
      by (simp add: Handler_def Build_read read_store_scrub Inr q take_map j' Let_def split: route.split)
  qed
qed


subsection \<open>Examples\<close>

definition good_run :: run_row where
  "good_run =
     \<lparr>ru_id = 1, ru_account = 1, ru_started = ''2024-03-01T10:00:00.000Z'', ru_finished = Some ''2024-03-01T10:00:05.000Z'',
      ru_dry = 0, ru_fetched = 2, ru_added = 1, ru_queued = 0, ru_skipped = 0, ru_error = [], ru_kind = []\<rparr>"

definition desk :: store where
  "desk =
     \<lparr>s_db = empty_db\<lparr>accounts := [default_row\<lparr>ar_token := ''t''\<rparr>], next_account := 2, sync_runs := [good_run], next_run := 2\<rparr>,
      s_tick = 0, s_tx = False\<rparr>"

definition noon :: env where
  "noon = \<lparr>e_fault = \<lambda>_. None, e_now = \<lambda>_. the (parse_time ''2024-03-01T10:30:00.000Z'')\<rparr>"

lemma desk_ok: "db_ok (s_db desk)"
  by (simp add: db_ok_def desk_def empty_db_def account_exists_def default_row_def good_run_def)

lemma desk_read:
  "\<exists>w'. Build noon good_disk [] ''default'' (45 * minute) 5 ''v1'' [] desk =
     (Inr (judge (toAccount (default_row\<lparr>ar_token := ''t''\<rparr>)) \<lparr>ct_synced = 0, ct_pending = 0, ct_actionable = 0\<rparr>
        [toSyncRun good_run] (45 * minute) 5 (the (parse_time ''2024-03-01T10:30:00.000Z'')) ''v1'' []), w')"
  by (simp add: Build_read read_store_def bind_op_def GetAccount_def CountSynced_def CountReview_def
      CountActionableReview_def ListRuns_def query_def getAccountByLabel_def countSyncedTracks_def
      countReviewQueue_def countReviewQueueActionable_def listSyncRuns_def newest_runs_def count_where_def limit_def
      desk_def noon_def empty_db_def default_row_def toAccount_def good_run_def lastBackupAt_def Let_def)

lemma desk_clean:
  "newest_clean (window_of 1 (s_db desk)) [] (toSyncRun good_run) (the (parse_time ''2024-03-01T10:00:05.000Z''))"
  "sub_time (the (parse_time ''2024-03-01T10:30:00.000Z'')) (the (parse_time ''2024-03-01T10:00:05.000Z'')) \<le> 45 * minute"
proof -
  have p: "parse_time ''2024-03-01T10:00:05.000Z'' = Some (the (parse_time ''2024-03-01T10:00:05.000Z''))" by code_simp
  then show "newest_clean (window_of 1 (s_db desk)) [] (toSyncRun good_run) (the (parse_time ''2024-03-01T10:00:05.000Z''))"
    by (simp add: newest_clean_def window_of_def newest_runs_def desk_def counts_as_clean_def toSyncRun_def good_run_def)
  show "sub_time (the (parse_time ''2024-03-01T10:30:00.000Z'')) (the (parse_time ''2024-03-01T10:00:05.000Z'')) \<le> 45 * minute"
    by code_simp
qed

theorem health_verdict_witness:
  "\<exists>rep w'. Build noon good_disk [] ''default'' (45 * minute) 5 ''v1'' [] desk = (Inr rep, w') \<and>
     Rp_Healthy rep \<and> Rp_LastSuccessAt rep = ''2024-03-01T10:00:05.000Z''"
proof -
  obtain rep w' where b: "Build noon good_disk [] ''default'' (45 * minute) 5 ''v1'' [] desk = (Inr rep, w')"
    using desk_read by blast
  from health_verdict [OF b desk_ok] desk_clean
  have "Rp_Healthy rep \<and> Rp_LastSuccessAt rep = Ru_FinishedAt (toSyncRun good_run)"
    by (auto simp: Let_def desk_def default_row_def noon_def)
  with b show ?thesis by (auto simp: toSyncRun_def good_run_def)
qed


theorem endpoints_keep_secrets_witness:
  "fst (Handler noon good_disk [] ''default'' (45 * minute) ''v1'' [] StatusJson
      (desk\<lparr>s_db := (s_db desk)\<lparr>accounts := [default_row\<lparr>ar_token := ''other''\<rparr>]\<rparr>\<rparr>)) =
   fst (Handler noon good_disk [] ''default'' (45 * minute) ''v1'' [] StatusJson desk)"
  using endpoints_keep_secrets [of "''other''" "[120]" noon good_disk "[]" "''default''" "45 * minute" "''v1''" "[]" StatusJson desk]
  by (simp add: desk_def empty_db_def good_run_def default_row_def)

end
