(* ===== verification/Commands.thy ===== *)
theory Commands
  imports StatusLaws Liveness
begin

text \<open>
  The operator's commands, \<open>cmd/difmsync\<close>: \<open>resync\<close> (\<open>resync.go\<close>), \<open>review\<close> with \<open>approveReview\<close>
  (\<open>main.go\<close>) and the JSON of its listing (\<open>reviewjson.go\<close>), \<open>backup\<close> (\<open>backup.go\<close>), and the checks
  they share, \<open>requireFlags\<close> and \<open>requireAccount\<close>. The flags are arguments; what a command prints
  is left out, except for the JSON.
\<close>

subsection \<open>Checks\<close>

definition requireFlags :: "(string \<times> runes) list \<Rightarrow> gerr option" where
  "requireFlags flags =
     (let missing = map (\<lambda>(n, v). lit ''--'' @ lit n) (filter (\<lambda>(n, v). trim_space v = []) flags)
      in if missing = [] then None
         else Some (Msg (lit ''missing required configuration: '' @ join (lit '', '') missing)))"

definition requireAccount :: "'e env_scheme \<Rightarrow> string \<Rightarrow> ('z, Account) op" where
  "requireAccount E label s = map_res (no_account label) id (GetAccount E label s)"

subsection \<open>resync\<close>

text \<open>
  The loop over \<open>--forget\<close>: \<open>missed\<close> and \<open>earliest\<close> are its variables; the zero time stands for
  none.
\<close>

fun forget_each :: "'e env_scheme \<Rightarrow> int \<Rightarrow> int list \<Rightarrow> nat \<Rightarrow> gotime \<Rightarrow> ('z, nat \<times> gotime) op" where
  "forget_each E acct [] missed earliest s = (Inr (missed, earliest), s)"
| "forget_each E acct (i # ids) missed earliest s =
     (case SyncedTrackLikedAt E acct i s of
        (Inl e, s) \<Rightarrow> (Inl e, s)
      | (Inr liked, s) \<Rightarrow>
          (let earliest = (case liked of
                             Some t \<Rightarrow> if earliest = 0 \<or> t < earliest then t else earliest
                           | None \<Rightarrow> earliest)
           in case ForgetTrack E acct i s of
                (Inl e, s) \<Rightarrow> (Inl e, s)
              | (Inr found, s) \<Rightarrow> forget_each E acct ids (if found then missed else missed + 1) earliest s))"

definition nothing_to_do :: gerr where
  "nothing_to_do = Msg (lit ''nothing to do: pass --all, --forget=<track-id>, or --forget-all'')"

definition none_in_ledger :: "nat \<Rightarrow> gerr" where
  "none_in_ledger missed =
     Msg (lit ''none of the '' @ itoa (int missed) @ lit '' track id(s) were in the ledger; ''
          @ lit ''check `difmsync status` or the synced_tracks table for the right ids'')"

text \<open>The arm of \<open>--forget\<close>.\<close>

definition forget_tracks :: "'e env_scheme \<Rightarrow> Account \<Rightarrow> int list \<Rightarrow> bool \<Rightarrow> ('z, unit) op" where
  "forget_tracks E account ids clearMark s =
     (case forget_each E (A_ID account) ids 0 0 s of
        (Inl e, s) \<Rightarrow> (Inl e, s)
      | (Inr (missed, earliest), s) \<Rightarrow>
          if missed = length ids \<and> \<not> clearMark then (Inl (none_in_ledger missed), s)
          else if \<not> clearMark \<and> earliest \<noteq> 0 \<and> \<not> A_WatermarkLikedAt account < earliest
          then SetWatermark E (A_ID account) (earliest - second) s
          else (Inr (), s))"

definition resync :: "'e env_scheme \<Rightarrow> string \<Rightarrow> bool \<Rightarrow> int list \<Rightarrow> bool \<Rightarrow> ('z, unit) op" where
  "resync E label all forget forgetAll =
     bind_op (requireAccount E label) (\<lambda>account.
       let clearMark = (all \<or> forgetAll)
       in if \<not> clearMark \<and> forget = [] then (\<lambda>s. (Inl nothing_to_do, s))
          else bind_op
            (if forgetAll then ForgetAllTracks E (A_ID account)
             else if forget \<noteq> [] then forget_tracks E account forget clearMark
             else (\<lambda>s. (Inr (), s)))
            (\<lambda>_. if clearMark then ClearWatermark E (A_ID account) else (\<lambda>s. (Inr (), s))))"

subsection \<open>review\<close>

definition no_queued :: "int \<Rightarrow> runes" where
  "no_queued trackID = lit ''no queued track with DI.fm id '' @ itoa trackID"

definition rejectReview :: "'e env_scheme \<Rightarrow> Account \<Rightarrow> int \<Rightarrow> ('z, unit) op" where
  "rejectReview E account trackID s =
     (case ResolveReview E (A_ID account) trackID ''rejected'' s of
        (Inl e, s) \<Rightarrow> (Inl e, s)
      | (Inr False, s) \<Rightarrow> (Inl (Msg (no_queued trackID)), s)
      | (Inr True, s) \<Rightarrow> (Inr (), s))"

text \<open>\<open>Authenticator.Client\<close>: only a blank token is refused.\<close>

definition auth_client :: "string \<Rightarrow> gerr option" where
  "auth_client refreshToken = (if trim_space (lit refreshToken) = [] then Some (Sentinel SpErrNoCredentials) else None)"

definition approved_track :: "Account \<Rightarrow> ReviewItem \<Rightarrow> Scored \<Rightarrow> SyncedTrack" where
  "approved_track account item chosen =
     \<lparr>S_AccountID = A_ID account, S_DifmTrackID = R_DifmTrackID item, S_DifmVoteID = R_DifmVoteID item,
      S_SpotifyTrackID = C_ID (Cand chosen), S_PlaylistID = A_SpotifyPlaylistID account, S_Artist = R_Artist item,
      S_Title = R_Title item, S_MatchScore = SScore chosen, S_LikedAt = R_LikedAt item\<rparr>"

text \<open>The playlist is read and, if the track is not in it, written.\<close>

definition add_approved :: "'e net_env_scheme \<Rightarrow> string \<Rightarrow> string \<Rightarrow> ('z, unit) wop" where
  "add_approved E pl i w =
     (case PlaylistTrackIDs E pl w of
        (Inl e, w) \<Rightarrow> (Inl (Wrap (lit ''read playlist before approving: '') e []), w)
      | (Inr inPlaylist, w) \<Rightarrow> if i \<in> inPlaylist then (Inr (), w) else AddToPlaylist E pl [i] w)"

definition no_candidates :: "int \<Rightarrow> string \<Rightarrow> gerr" where
  "no_candidates trackID reason =
     Msg (lit ''track '' @ itoa trackID @ lit '' has no candidates to approve (reason='' @ lit reason
          @ lit ''); nothing on Spotify was matched to it'')"

definition out_of_range :: "int \<Rightarrow> int \<Rightarrow> int \<Rightarrow> gerr" where
  "out_of_range n trackID len =
     Msg (lit ''--candidate='' @ itoa n @ lit '' out of range; track '' @ itoa trackID @ lit '' has ''
          @ itoa len @ lit '' candidate(s)'')"

definition row_vanished :: "int \<Rightarrow> gerr" where
  "row_vanished trackID =
     Msg (lit ''review row for track '' @ itoa trackID @ lit '' disappeared before it could be approved ''
          @ lit ''(the track was added to the playlist and recorded in the ledger)'')"

definition approve_chosen :: "'e net_env_scheme \<Rightarrow> Account \<Rightarrow> int \<Rightarrow> ReviewItem \<Rightarrow> Scored \<Rightarrow> ('z, unit) wop" where
  "approve_chosen E account trackID item chosen =
     bind_op (add_approved E (A_SpotifyPlaylistID account) (C_ID (Cand chosen))) (\<lambda>_.
     bind_op (RecordSynced E (approved_track account item chosen)) (\<lambda>_.
     bind_op (ResolveReview E (A_ID account) trackID ''approved'') (\<lambda>found w.
       (if found then Inr () else Inl (row_vanished trackID), w))))"

definition approveReview ::
  "'e net_env_scheme \<Rightarrow> runes \<Rightarrow> runes \<Rightarrow> Account \<Rightarrow> int \<Rightarrow> int \<Rightarrow> ('z, unit) wop" where
  "approveReview E clientID clientSecret account trackID n w =
     (case requireFlags [(''spotify-client-id'', clientID), (''spotify-client-secret'', clientSecret)] of
        Some e \<Rightarrow> (Inl (Wrap (lit ''approving adds to Spotify, so credentials are needed: '') e []), w)
      | None \<Rightarrow>
          (case GetReviewItem E (A_ID account) trackID w of
             (Inl e, w) \<Rightarrow> (Inl (Wrap (no_queued trackID @ lit '': '') e []), w)
           | (Inr item, w) \<Rightarrow>
               if R_Candidates item = [] then (Inl (no_candidates trackID (R_Reason item)), w)
               else if n < 1 \<or> n > int (length (R_Candidates item)) then
                 (Inl (out_of_range n trackID (int (length (R_Candidates item)))), w)
               else case auth_client (A_SpotifyRefreshToken account) of
                      Some e \<Rightarrow> (Inl e, w)
                    | None \<Rightarrow> approve_chosen E account trackID item (R_Candidates item ! nat (n - 1)) w))"

subsection \<open>review --json\<close>

record reviewCandidateJSON =
  j_spotify_id :: string
  j_artist :: runes
  j_title :: runes
  j_duration_sec :: int
  j_isrc :: runes
  j_score :: score
  j_why :: runes

record reviewItemJSON =
  j_difm_track_id :: int
  j_difm_vote_id :: int
  j_item_artist :: runes
  j_item_title :: runes
  j_item_duration_sec :: int
  j_details_url :: string
  j_best_score :: score
  j_reason :: string
  j_status :: string
  j_liked_at :: string
  j_candidates :: "reviewCandidateJSON list"

definition newReviewItemJSON :: "ReviewItem \<Rightarrow> reviewItemJSON" where
  "newReviewItemJSON it =
     \<lparr>j_difm_track_id = R_DifmTrackID it, j_difm_vote_id = R_DifmVoteID it, j_item_artist = R_Artist it,
      j_item_title = R_Title it, j_item_duration_sec = R_DurationSec it, j_details_url = R_DetailsURL it,
      j_best_score = R_BestScore it, j_reason = R_Reason it, j_status = R_Status it,
      j_liked_at = format_time (R_LikedAt it),
      j_candidates =
        map (\<lambda>c. \<lparr>j_spotify_id = C_ID (Cand c), j_artist = C_Artist (Cand c), j_title = C_Title (Cand c),
                   j_duration_sec = C_DurationSec (Cand c), j_isrc = C_ISRC (Cand c), j_score = SScore c, j_why = Why c\<rparr>)
          (R_Candidates it)\<rparr>"

definition newReviewItemsJSON :: "ReviewItem list \<Rightarrow> reviewItemJSON list" where
  "newReviewItemsJSON items = map newReviewItemJSON items"

text \<open>The action of the command: the flags \<open>--approve\<close> and \<open>--reject\<close> are 0 when they are not given.\<close>

definition review ::
  "'e net_env_scheme \<Rightarrow> runes \<Rightarrow> runes \<Rightarrow> string \<Rightarrow> int \<Rightarrow> int \<Rightarrow> int \<Rightarrow> string \<Rightarrow> int \<Rightarrow> ('z, reviewItemJSON list) wop" where
  "review E clientID clientSecret label approve candidate reject status n =
     bind_op (requireAccount E label) (\<lambda>account.
       if approve \<noteq> 0 then
         bind_op (approveReview E clientID clientSecret account approve candidate) (\<lambda>_ w. (Inr [], w))
       else if reject \<noteq> 0 then bind_op (rejectReview E account reject) (\<lambda>_ w. (Inr [], w))
       else bind_op (ListReview E (A_ID account) status n) (\<lambda>items w. (Inr (newReviewItemsJSON items), w)))"

subsection \<open>backup\<close>

definition backup_command :: "disk \<Rightarrow> bool \<Rightarrow> db \<Rightarrow> string \<Rightarrow> string \<Rightarrow> folder \<Rightarrow> gerr option \<times> folder" where
  "backup_command k inTx d dest label fo = SnapshotTo k inTx d dest label fo"

end
