(* ===== verification/Listeners.thy ===== *)
theory Listeners
  imports GoError
begin

text \<open>
  The HTTP listeners, \<open>cmd/difmsync/httpserve.go\<close>, and \<open>serveWhile\<close> of \<open>main.go\<close>, which serves the status
  endpoints for as long as the sync loop runs. What the handlers answer is modelled where they are
  declared; here a request is one more open connection.

  A \<open>listener\<close> is an \<open>http.Server\<close> with the goroutine in \<open>serveHTTP\<close>; \<open>Serve\<close> returns \<open>ErrServerClosed\<close>
  only once \<open>Shutdown\<close> was called, and \<open>Shutdown\<close> first closes the listening socket and then waits, as
  \<open>net/http\<close> documents. \<open>serveWhile\<close> is a step relation over two goroutines, the clock and the listener;
  its argument \<open>work\<close> is a step relation too, told whether its context is canceled.
\<close>

subsection \<open>A listener\<close>

datatype serve_loop = Accepting | Closing | Finished

record listener =
  ln_loop :: serve_loop
  ln_open :: nat
  ln_err :: "gerr option option"

definition serveHTTP :: "string \<Rightarrow> string \<Rightarrow> gerr option \<Rightarrow> gerr + listener" where
  "serveHTTP addr purpose listen =
     (case listen of
        Some e \<Rightarrow> Inl (Wrap (lit ''listen on '' @ lit addr @ lit '' for '' @ lit purpose @ lit '': '') e [])
      | None \<Rightarrow> Inr \<lparr>ln_loop = Accepting, ln_open = 0, ln_err = None\<rparr>)"

text \<open>What the goroutine sends when \<open>Serve\<close> has returned.\<close>

definition serve_result :: "gerr \<Rightarrow> gerr option" where
  "serve_result e = (if errors_is e HttpErrServerClosed then None else Some e)"

inductive listener_step :: "listener \<Rightarrow> listener \<Rightarrow> bool" where
  accepts: "ln_loop l = Accepting \<Longrightarrow> listener_step l (l\<lparr>ln_open := Suc (ln_open l)\<rparr>)"
| responds: "ln_open l = Suc n \<Longrightarrow> listener_step l (l\<lparr>ln_open := n\<rparr>)"
| dies: "ln_loop l = Accepting \<Longrightarrow> \<not> errors_is e HttpErrServerClosed \<Longrightarrow>
    listener_step l (l\<lparr>ln_loop := Finished, ln_err := Some (serve_result e)\<rparr>)"
| closes: "ln_loop l = Closing \<Longrightarrow> errors_is e HttpErrServerClosed \<Longrightarrow>
    listener_step l (l\<lparr>ln_loop := Finished, ln_err := Some (serve_result e)\<rparr>)"

text \<open>What \<open>Shutdown\<close> does before it waits.\<close>

definition shut :: "listener \<Rightarrow> listener" where
  "shut l = l\<lparr>ln_loop := if ln_loop l = Accepting then Closing else ln_loop l\<rparr>"

text \<open>
  \<open>Err\<close> receives exactly one value: the failure if \<open>Serve\<close> failed, nil if the listener was shut down.
\<close>

definition listener_ok :: "listener \<Rightarrow> bool" where
  "listener_ok l \<longleftrightarrow> (ln_err l \<noteq> None \<longleftrightarrow> ln_loop l = Finished)"

lemma serveHTTP_ok: "serveHTTP addr purpose listen = Inr l \<Longrightarrow> listener_ok l \<and> ln_loop l = Accepting \<and> ln_err l = None"
  by (auto simp: serveHTTP_def listener_ok_def simp del: lit_simps split: option.splits)

lemma listener_step_ok:
  assumes "listener_step l l'" and "listener_ok l"
  shows "listener_ok l'" and "ln_err l \<noteq> None \<Longrightarrow> ln_err l' = ln_err l"
    and "ln_loop l = Accepting \<Longrightarrow> ln_err l' \<noteq> Some None"
    and "ln_loop l \<noteq> Accepting \<Longrightarrow> ln_loop l' \<noteq> Accepting \<and> ln_open l' \<le> ln_open l"
  using assms by (auto elim!: listener_step.cases simp: listener_ok_def serve_result_def)

lemma listener_err: "listener_ok l \<Longrightarrow> ln_err l = Some x \<Longrightarrow> ln_loop l = Finished"
  by (simp add: listener_ok_def)

lemma shut_simps [simp]:
  "ln_err (shut l) = ln_err l" "ln_open (shut l) = ln_open l" "ln_loop (shut l) \<noteq> Accepting"
  "ln_loop (shut l) = Finished \<longleftrightarrow> ln_loop l = Finished" "listener_ok (shut l) \<longleftrightarrow> listener_ok l"
  by (simp_all add: shut_def listener_ok_def)

subsection \<open>serveWhile\<close>

definition workDrainTimeout :: duration where "workDrainTimeout = 30 * second"
definition serveDrainTimeout :: duration where "serveDrainTimeout = 5 * second"

text \<open>
  \<open>Selecting\<close> is the first \<open>select\<close>, \<open>Draining\<close> the second, with what \<open>srv.Err\<close> gave. \<open>Stopping\<close> is
  inside the deferred \<open>stop\<close>, with the time at which it began, and \<open>Served\<close> behind it, where the caller
  closes the store. \<open>sv_cancel\<close> is the time at which \<open>stopWork\<close> was first called.
\<close>

datatype serve_phase =
    Selecting
  | Draining "gerr option"
  | Stopping int "gerr option"
  | Served "gerr option"

record 'w serving =
  sv_now :: int
  sv_listener :: listener
  sv_work :: 'w
  sv_cancel :: "int option"
  sv_phase :: serve_phase

definition serveWhile :: "string \<Rightarrow> gerr option \<Rightarrow> 'w \<Rightarrow> int \<Rightarrow> gerr + 'w serving" where
  "serveWhile addr listen x now =
     (case serveHTTP addr ''the status endpoints'' listen of
        Inl e \<Rightarrow> Inl e
      | Inr l \<Rightarrow> Inr \<lparr>sv_now = now, sv_listener = l, sv_work = x, sv_cancel = None, sv_phase = Selecting\<rparr>)"

definition status_died :: "gerr option \<Rightarrow> gerr option" where
  "status_died err = map_option (\<lambda>e. Wrap (lit ''status server: '') e []) err"

text \<open>The two deferred calls, in the order they run: \<open>stopWork\<close>, then \<open>srv.stop\<close>.\<close>

definition unwind :: "gerr option \<Rightarrow> 'w serving \<Rightarrow> 'w serving" where
  "unwind r s =
     s\<lparr>sv_cancel := (case sv_cancel s of None \<Rightarrow> Some (sv_now s) | Some t \<Rightarrow> Some t),
       sv_listener := shut (sv_listener s), sv_phase := Stopping (sv_now s) r\<rparr>"

text \<open>
  \<open>W\<close> is one move of \<open>work\<close>, given whether its context is canceled; \<open>fin\<close> is what it has returned and
  thereby sent.
\<close>

inductive serve_step :: "(bool \<Rightarrow> 'w \<Rightarrow> 'w \<Rightarrow> bool) \<Rightarrow> ('w \<Rightarrow> gerr option option) \<Rightarrow> 'w serving \<Rightarrow> 'w serving \<Rightarrow> bool"
  for W and fin where
  time_passes: "0 < d \<Longrightarrow> serve_step W fin s (s\<lparr>sv_now := sv_now s + d\<rparr>)"
| listens: "listener_step (sv_listener s) l \<Longrightarrow> serve_step W fin s (s\<lparr>sv_listener := l\<rparr>)"
| works: "fin (sv_work s) = None \<Longrightarrow> W (sv_cancel s \<noteq> None) (sv_work s) x \<Longrightarrow> serve_step W fin s (s\<lparr>sv_work := x\<rparr>)"
| notices_death: "sv_phase s = Selecting \<Longrightarrow> ln_err (sv_listener s) = Some err \<Longrightarrow>
    serve_step W fin s (s\<lparr>sv_cancel := Some (sv_now s), sv_phase := Draining err\<rparr>)"
| work_returns: "sv_phase s = Selecting \<Longrightarrow> fin (sv_work s) = Some r \<Longrightarrow> serve_step W fin s (unwind r s)"
| work_drained: "sv_phase s = Draining err \<Longrightarrow> fin (sv_work s) = Some r \<Longrightarrow> serve_step W fin s (unwind (status_died err) s)"
| drain_timeout: "sv_phase s = Draining err \<Longrightarrow> sv_cancel s = Some t \<Longrightarrow> t + workDrainTimeout \<le> sv_now s \<Longrightarrow>
    serve_step W fin s (unwind (status_died err) s)"
| stop_returns: "sv_phase s = Stopping t r \<Longrightarrow> ln_open (sv_listener s) = 0 \<or> t + serveDrainTimeout \<le> sv_now s \<Longrightarrow>
    serve_step W fin s (s\<lparr>sv_phase := Served r\<rparr>)"

text \<open>What holds at every moment, phase by phase.\<close>

definition wound_up :: "('w \<Rightarrow> gerr option option) \<Rightarrow> 'w serving \<Rightarrow> int \<Rightarrow> gerr option \<Rightarrow> bool" where
  "wound_up fin s t r \<longleftrightarrow> ln_loop (sv_listener s) \<noteq> Accepting \<and> t \<le> sv_now s \<and>
     (\<exists>c. sv_cancel s = Some c \<and> c \<le> t \<and>
        (fin (sv_work s) = Some r \<or>
         (\<exists>e. r = Some (Wrap (lit ''status server: '') e []) \<and> ln_err (sv_listener s) = Some (Some e) \<and>
              (fin (sv_work s) \<noteq> None \<or> c + workDrainTimeout \<le> t))))"

definition serving_ok :: "('w \<Rightarrow> gerr option option) \<Rightarrow> 'w serving \<Rightarrow> bool" where
  "serving_ok fin s \<longleftrightarrow> listener_ok (sv_listener s) \<and>
     (case sv_phase s of
        Selecting \<Rightarrow> sv_cancel s = None \<and> ln_loop (sv_listener s) \<noteq> Closing \<and> ln_err (sv_listener s) \<noteq> Some None
      | Draining err \<Rightarrow> (\<exists>e. err = Some e \<and> ln_err (sv_listener s) = Some (Some e)) \<and>
          (\<exists>c. sv_cancel s = Some c \<and> c \<le> sv_now s) \<and> ln_loop (sv_listener s) = Finished
      | Stopping t r \<Rightarrow> wound_up fin s t r
      | Served r \<Rightarrow> (\<exists>t. wound_up fin s t r \<and> (ln_open (sv_listener s) = 0 \<or> t + serveDrainTimeout \<le> sv_now s)))"

lemma serveWhile_ok: "serveWhile addr listen x now = Inr s \<Longrightarrow> serving_ok fin s"
  using serveHTTP_ok by (fastforce simp: serveWhile_def serving_ok_def split: sum.splits)

lemma wound_up_listens:
  assumes "wound_up fin s t r" and "listener_step (sv_listener s) l" and "listener_ok (sv_listener s)"
  shows "wound_up fin (s\<lparr>sv_listener := l\<rparr>) t r" and "ln_open l \<le> ln_open (sv_listener s)"
  using assms(1) listener_step_ok [OF assms(2,3)] by (auto simp: wound_up_def)

lemma wound_up_later: "wound_up fin s t r \<Longrightarrow> 0 < d \<Longrightarrow> wound_up fin (s\<lparr>sv_now := sv_now s + d\<rparr>) t r"
  by (simp add: wound_up_def)

lemma wound_up_works: "wound_up fin s t r \<Longrightarrow> fin (sv_work s) = None \<Longrightarrow> wound_up fin (s\<lparr>sv_work := x\<rparr>) t r"
  unfolding wound_up_def by simp blast

lemma serve_step_ok:
  assumes "serve_step W fin s s'" and "serving_ok fin s"
  shows "serving_ok fin s'"
  using assms(1)
proof cases
  case (listens l)
  note L = listener_step_ok [OF listens(2)]
  show ?thesis
  proof (cases "sv_phase s")
    case Selecting
    with assms(2) L listens show ?thesis
      by (cases "ln_loop (sv_listener s)") (auto simp: serving_ok_def listener_ok_def elim: listener_step.cases)
  next
    case (Draining err)
    with assms(2) L listens show ?thesis by (auto simp: serving_ok_def listener_ok_def elim: listener_step.cases)
  next
    case (Stopping t r)
    with assms(2) L(1) listens wound_up_listens [OF _ listens(2)] show ?thesis by (auto simp: serving_ok_def)
  next
    case (Served r)
    with assms(2) L(1) listens wound_up_listens [OF _ listens(2)] show ?thesis
      by (fastforce simp: serving_ok_def)
  qed
next
  case (time_passes d)
  show ?thesis
  proof (cases "sv_phase s")
    case (Served r)
    with assms(2) obtain t where "wound_up fin s t r" "ln_open (sv_listener s) = 0 \<or> t + serveDrainTimeout \<le> sv_now s"
      by (auto simp: serving_ok_def)
    with time_passes Served assms(2) wound_up_later [of fin s t r d] show ?thesis by (auto simp: serving_ok_def intro!: exI [of _ t])
  qed (use assms(2) time_passes wound_up_later [where fin = fin and s = s] in \<open>auto simp: serving_ok_def\<close>)
next
  case (works x)
  with assms(2) wound_up_works [where fin = fin and s = s and x = x, OF _ works(2)] show ?thesis by (auto simp: serving_ok_def split: serve_phase.splits)
qed (use assms(2) in \<open>auto simp: serving_ok_def wound_up_def unwind_def status_died_def simp del: lit_simps dest: listener_err split: option.splits\<close>)

lemma serve_run_ok:
  assumes "(serve_step W fin)\<^sup>*\<^sup>* s s'" and "serving_ok fin s"
  shows "serving_ok fin s'"
  using assms by (induction rule: rtranclp_induct) (auto intro: serve_step_ok)

text \<open>
  C17: \<open>serveWhile\<close> winds the work down before it returns. When it has returned, after which its caller
  closes the store, it returned what the work returned; or the listener had failed, and then the error
  says so, the work's context was canceled, and the work was over or had been given thirty seconds to
  end. The listener no longer accepts, and no request is in flight unless the five seconds to drain them
  have passed, too. In particular the branch for a listener that stopped without an error is never taken.
\<close>

theorem store_outlives_work:
  assumes "serveWhile addr listen x now = Inr s0" and "(serve_step W fin)\<^sup>*\<^sup>* s0 s" and "sv_phase s = Served r"
  shows "\<exists>c t. sv_cancel s = Some c \<and> c \<le> t \<and> t \<le> sv_now s \<and>
    (fin (sv_work s) = Some r \<or>
     (\<exists>e. r = Some (Wrap (lit ''status server: '') e []) \<and> ln_err (sv_listener s) = Some (Some e) \<and>
          (fin (sv_work s) \<noteq> None \<or> c + workDrainTimeout \<le> t))) \<and>
    ln_loop (sv_listener s) \<noteq> Accepting \<and>
    (ln_open (sv_listener s) = 0 \<or> t + serveDrainTimeout \<le> sv_now s)"
proof -
  from serve_run_ok [OF assms(2) serveWhile_ok [OF assms(1)]] assms(3) obtain t where
    t: "wound_up fin s t r" "ln_open (sv_listener s) = 0 \<or> t + serveDrainTimeout \<le> sv_now s"
    by (auto simp: serving_ok_def)
  from t(1) show ?thesis unfolding wound_up_def using t(2) by metis
qed

text \<open>While the first \<open>select\<close> waits, the work's context is not canceled by \<open>serveWhile\<close>.\<close>

lemma selecting_not_canceled:
  assumes "serveWhile addr listen x now = Inr s0" and "(serve_step W fin)\<^sup>*\<^sup>* s0 s" and "sv_phase s = Selecting"
  shows "sv_cancel s = None"
  using serve_run_ok [OF assms(2) serveWhile_ok [OF assms(1)]] assms(3) by (simp add: serving_ok_def)

text \<open>Once the work is over and its requests are answered, \<open>serveWhile\<close> returns without waiting.\<close>

lemma finished_work_returns:
  assumes "serveWhile addr listen x now = Inr s0" and "(serve_step W fin)\<^sup>*\<^sup>* s0 s" and "fin (sv_work s) = Some r"
    and "ln_open (sv_listener s) = 0"
  shows "\<exists>s' q. (serve_step W fin)\<^sup>*\<^sup>* s s' \<and> sv_phase s' = Served q \<and> sv_now s' = sv_now s"
proof -
  have stop: "\<exists>s' q. (serve_step W fin)\<^sup>*\<^sup>* z s' \<and> sv_phase s' = Served q \<and> sv_now s' = sv_now z"
    if "sv_phase z = Stopping t q" "ln_open (sv_listener z) = 0" for z :: "'a serving" and t q
    using that by (intro exI [of _ "z\<lparr>sv_phase := Served q\<rparr>"] exI [of _ q]) (auto intro: stop_returns)
  have stops: "\<exists>s' q. (serve_step W fin)\<^sup>*\<^sup>* s s' \<and> sv_phase s' = Served q \<and> sv_now s' = sv_now s"
    if "serve_step W fin s (unwind p s)" for p
  proof -
    obtain s' q where "(serve_step W fin)\<^sup>*\<^sup>* (unwind p s) s'" "sv_phase s' = Served q" "sv_now s' = sv_now s"
      using stop [of "unwind p s" "sv_now s" p] assms(4) by (auto simp: unwind_def)
    with that show ?thesis by (blast intro: converse_rtranclp_into_rtranclp)
  qed
  show ?thesis
  proof (cases "sv_phase s")
    case Selecting
    then show ?thesis using stops work_returns assms(3) by metis
  next
    case (Draining err)
    then show ?thesis using stops work_drained assms(3) by metis
  next
    case (Stopping t q)
    then show ?thesis using stop assms(4) by blast
  next
    case (Served q)
    then show ?thesis by blast
  qed
qed

subsection \<open>A run\<close>

text \<open>Work that never stops: the listener dies at once and the thirty seconds pass.\<close>

lemma stuck_work:
  obtains s :: "unit serving" where
    "serveWhile ''127.0.0.1:8080'' None () 0 = Inr \<lparr>sv_now = 0, sv_listener = \<lparr>ln_loop = Accepting, ln_open = 0, ln_err = None\<rparr>,
       sv_work = (), sv_cancel = None, sv_phase = Selecting\<rparr>"
    "(serve_step (\<lambda>c x y. True) (\<lambda>x. None))\<^sup>*\<^sup>*
       \<lparr>sv_now = 0, sv_listener = \<lparr>ln_loop = Accepting, ln_open = 0, ln_err = None\<rparr>,
        sv_work = (), sv_cancel = None, sv_phase = Selecting\<rparr> s"
    "sv_phase s = Served (Some (Wrap (lit ''status server: '') (Msg []) []))" "sv_cancel s = Some 0"
proof -
  let ?l = "\<lparr>ln_loop = Accepting, ln_open = 0, ln_err = None\<rparr>"
  let ?d = "\<lparr>ln_loop = Finished, ln_open = 0, ln_err = Some (Some (Msg []))\<rparr>"
  let ?S = "\<lambda>now l c p. \<lparr>sv_now = now, sv_listener = l, sv_work = (), sv_cancel = c, sv_phase = p\<rparr>"
  let ?step = "serve_step (\<lambda>c x y. True) (\<lambda>x. None)"
  let ?r = "Some (Wrap (lit ''status server: '') (Msg []) [])"
  have "listener_step ?l ?d" using dies [of ?l "Msg []"] by (simp add: serve_result_def)
  then have 1: "?step (?S 0 ?l None Selecting) (?S 0 ?d None Selecting)" using listens [of "?S 0 ?l None Selecting" ?d] by simp
  have 2: "?step (?S 0 ?d None Selecting) (?S 0 ?d (Some 0) (Draining (Some (Msg []))))"
    using notices_death [of "?S 0 ?d None Selecting"] by simp
  have 3: "?step (?S 0 ?d (Some 0) (Draining (Some (Msg [])))) (?S workDrainTimeout ?d (Some 0) (Draining (Some (Msg []))))"
    using time_passes [of workDrainTimeout _ _ "?S 0 ?d (Some 0) (Draining (Some (Msg [])))"]
    by (simp add: workDrainTimeout_def second_def)
  have 4: "?step (?S workDrainTimeout ?d (Some 0) (Draining (Some (Msg []))))
      (?S workDrainTimeout ?d (Some 0) (Stopping workDrainTimeout ?r))"
    using drain_timeout [where W = "\<lambda>c x y. True" and fin = "\<lambda>x. None" and t = 0 and err = "Some (Msg [])" and
        s = "?S workDrainTimeout ?d (Some 0) (Draining (Some (Msg [])))"]
    by (simp add: unwind_def status_died_def shut_def del: lit_simps)
  have 5: "?step (?S workDrainTimeout ?d (Some 0) (Stopping workDrainTimeout ?r)) (?S workDrainTimeout ?d (Some 0) (Served ?r))"
    using stop_returns [of "?S workDrainTimeout ?d (Some 0) (Stopping workDrainTimeout ?r)"] by (simp del: lit_simps)
  from 1 2 3 4 5 have "?step\<^sup>*\<^sup>* (?S 0 ?l None Selecting) (?S workDrainTimeout ?d (Some 0) (Served ?r))"
    by (meson converse_rtranclp_into_rtranclp rtranclp.rtrancl_refl)
  from that [OF _ this] show thesis by (simp add: serveWhile_def serveHTTP_def del: lit_simps)
qed

theorem store_outlives_work_witness:
  "\<exists>s :: unit serving. sv_phase s = Served (Some (Wrap (lit ''status server: '') (Msg []) [])) \<and>
     workDrainTimeout \<le> sv_now s \<and> ln_loop (sv_listener s) \<noteq> Accepting"
proof -
  obtain s :: "unit serving" where s: "sv_phase s = Served (Some (Wrap (lit ''status server: '') (Msg []) []))" "sv_cancel s = Some 0"
    and run: "serveWhile ''127.0.0.1:8080'' None () 0 = Inr \<lparr>sv_now = 0, sv_listener = \<lparr>ln_loop = Accepting, ln_open = 0, ln_err = None\<rparr>,
       sv_work = (), sv_cancel = None, sv_phase = Selecting\<rparr>"
    "(serve_step (\<lambda>c x y. True) (\<lambda>x. None))\<^sup>*\<^sup>*
       \<lparr>sv_now = 0, sv_listener = \<lparr>ln_loop = Accepting, ln_open = 0, ln_err = None\<rparr>,
        sv_work = (), sv_cancel = None, sv_phase = Selecting\<rparr> s"
    by (rule stuck_work)
  from store_outlives_work [OF run s(1)] s show ?thesis by (auto simp del: lit_simps)
qed

end
