(* ===== verification/Consent.thy ===== *)
theory Consent
  imports Urls Commands Listeners
begin

text \<open>
  The one-time Spotify consent, \<open>cmd/difmsync/consent.go\<close>, \<open>authserver.go\<close> and \<open>auth.go\<close>: the
  exchange every entry point shares (\<open>Complete\<close>), the daemon's consent server with its two routes and
  the wait around it (\<open>awaitConsent\<close>), the loopback listener of \<open>difmsync auth\<close>, and the manual flow
  that reads a pasted URL.

  What is not code of the repository is in the environment: oauth2's \<open>AuthCodeURL\<close> and \<open>Exchange\<close>,
  \<open>url.Parse\<close> with \<open>URL.String\<close>, and \<open>net.ParseIP\<close>. A request is its path, in which nothing is
  percent-encoded, and its raw query; a page is what the browser gets.
\<close>

record consent_env = eng_env +
  x_exchange :: "nat \<Rightarrow> string \<Rightarrow> gerr + string"
  x_auth_url :: "string \<Rightarrow> string"
  x_parse :: "string \<Rightarrow> gerr + purl"
  x_url_string :: "purl \<Rightarrow> string"
  x_parse_ip :: "string \<Rightarrow> int list option"

definition quoted :: "string \<Rightarrow> runes" where
  "quoted s = [34] @ lit s @ [34]"

subsection \<open>The exchange\<close>

definition errStateMismatch :: gerr where
  "errStateMismatch = Msg (lit ''oauth state mismatch '' @ [8212] @ lit '' start the flow again'')"

definition errNoRefreshToken :: gerr where
  "errNoRefreshToken = Msg (lit ''spotify returned no refresh token; revoke the app's access and retry'')"

record consentFlow =
  fl_account :: int
  fl_state :: string

definition AuthURL :: "'e consent_env_scheme \<Rightarrow> consentFlow \<Rightarrow> string" where
  "AuthURL E f = x_auth_url E (fl_state f)"

text \<open>\<open>Authenticator.Exchange\<close>: the refresh token that came with the access token.\<close>

definition Exchange :: "'e consent_env_scheme \<Rightarrow> string \<Rightarrow> ('z, string) op" where
  "Exchange E code w =
     (map_sum (\<lambda>e. Wrap (lit ''spotify: exchange code: '') e []) id (x_exchange E (s_tick w) code),
      w\<lparr>s_tick := s_tick w + 1\<rparr>)"

definition Complete :: "'e consent_env_scheme \<Rightarrow> consentFlow \<Rightarrow> url_values \<Rightarrow> ('z, unit) op" where
  "Complete E f q w =
     (if values_get q ''state'' \<noteq> fl_state f then (Inl errStateMismatch, w)
      else if values_get q ''error'' \<noteq> [] then
        (Inl (Msg (lit ''spotify consent denied: '' @ lit (values_get q ''error''))), w)
      else bind_op (Exchange E (values_get q ''code'')) (\<lambda>tok w.
        if tok = [] then (Inl errNoRefreshToken, w)
        else SetSpotifyRefreshToken E (fl_account f) tok w) w)"

definition tokenStored :: "'e consent_env_scheme \<Rightarrow> consentFlow \<Rightarrow> ('z, bool) op" where
  "tokenStored E f = HasSpotifyRefreshToken E (fl_account f)"

text \<open>\<open>randomToken\<close>: 16 random bytes in hexadecimal.\<close>

definition randomToken :: "nat list \<Rightarrow> string" where
  "randomToken bytes = concat (map (\<lambda>b. map (\<lambda>d. char_of (if d < 10 then 48 + d else 87 + d)) [b div 16, b mod 16]) bytes)"

definition newConsentFlow :: "int \<Rightarrow> gerr + nat list \<Rightarrow> gerr + consentFlow" where
  "newConsentFlow accountID random =
     (case random of
        Inl e \<Rightarrow> Inl (Wrap (lit ''generate oauth state: '') e [])
      | Inr bytes \<Rightarrow> Inr \<lparr>fl_account = accountID, fl_state = randomToken bytes\<rparr>)"

datatype page =
    Page int runes
  | Found string
  | MovedPermanently string
  | NotFound

definition completeConsentRequest ::
  "'e consent_env_scheme \<Rightarrow> consentFlow \<Rightarrow> runes \<Rightarrow> runes \<Rightarrow> string \<Rightarrow> 'z store_scheme \<Rightarrow>
   (page \<times> gerr option) \<times> 'z store_scheme" where
  "completeConsentRequest E f ok hint rawq w =
     (case Complete E f (fst (parse_query rawq)) w of
        (Inl e, w) \<Rightarrow> ((Page 400 (lit ''Consent failed: '' @ err_text e @ hint @ [10]), Some e), w)
      | (Inr _, w) \<Rightarrow> ((Page 200 (ok @ [10]), None), w))"

definition parseRedirect :: "'e consent_env_scheme \<Rightarrow> string \<Rightarrow> gerr + purl" where
  "parseRedirect E redirect =
     (case x_parse E redirect of
        Inl e \<Rightarrow> Inl (Wrap (lit ''parse redirect url '' @ quoted redirect @ lit '': '') e [])
      | Inr u \<Rightarrow>
          if u_Host u = [] then Inl (Msg (lit ''redirect url '' @ quoted redirect @ lit '' has no host'')) else Inr u)"

subsection \<open>The consent server's routes\<close>

definition ends_with :: "'a list \<Rightarrow> 'a list \<Rightarrow> bool" where
  "ends_with suf s \<longleftrightarrow> length suf \<le> length s \<and> drop (length s - length suf) s = suf"

definition trim_suffix :: "'a list \<Rightarrow> 'a list \<Rightarrow> 'a list" where
  "trim_suffix suf s = (if ends_with suf s then take (length s - length suf) s else s)"

definition needs_path :: "string \<Rightarrow> gerr" where
  "needs_path redirect =
     Msg (lit ''redirect url '' @ quoted redirect @ lit '' needs a path (e.g. '' @ lit (trim_suffix ''/'' redirect)
          @ lit ''/difmsync/callback) so the consent routes do not sit at the root'')"

definition ends_in_slash :: "string \<Rightarrow> gerr" where
  "ends_in_slash redirect =
     Msg (lit ''redirect url '' @ quoted redirect @ lit '' must not end in a slash: a trailing slash registers ''
          @ lit ''a subtree pattern that swallows the other consent routes (use '' @ lit redirect @ lit ''callback)'')"

definition ends_in_start :: "string \<Rightarrow> string \<Rightarrow> gerr" where
  "ends_in_start redirect callback =
     Msg (lit ''redirect url '' @ quoted redirect @ lit '' must not end in /start: the consent start page is ''
          @ lit ''derived as the callback's sibling and would collide with it (use a path ending in ''
          @ lit (path_join [path_dir callback, ''callback'']) @ lit '')'')"

definition consentRoutes :: "'e consent_env_scheme \<Rightarrow> string \<Rightarrow> gerr + string \<times> string" where
  "consentRoutes E redirect =
     and_then (parseRedirect E redirect) (\<lambda>u.
       let callback = u_Path u; start = path_join [path_dir callback, ''start'']
       in if callback = [] \<or> callback = ''/'' then Inl (needs_path redirect)
          else if ends_with ''/'' callback then Inl (ends_in_slash redirect)
          else if start = callback then Inl (ends_in_start redirect callback)
          else Inr (start, callback))"

definition consentPortMismatch :: "'e consent_env_scheme \<Rightarrow> string \<Rightarrow> string \<Rightarrow> (string \<times> string) option" where
  "consentPortMismatch E redirect addr =
     (case x_parse E redirect of
        Inl e \<Rightarrow> None
      | Inr u \<Rightarrow>
          if u_Host u = [] then None
          else case x_parse_ip E (fst (host_and_port (u_Host u))) of
                 None \<Rightarrow> None
               | Some ip \<Rightarrow>
                   if \<not> is_loopback ip then None
                   else let port = snd (host_and_port (u_Host u));
                            want = (if port \<noteq> [] then port else if u_Scheme u = ''https'' then ''443'' else ''80'')
                        in case port_of_addr addr of
                             None \<Rightarrow> None
                           | Some got \<Rightarrow>
                               if got = [] \<or> got = ''0'' \<or> got = want then None else Some (want, got))"

record consentServer =
  cs_flow :: consentFlow
  cs_nonce :: string
  cs_startPath :: string
  cs_callbackPath :: string

definition startURL :: "'e consent_env_scheme \<Rightarrow> consentServer \<Rightarrow> string \<Rightarrow> string" where
  "startURL E s redirect =
     (case x_parse E redirect of
        Inl e \<Rightarrow> cs_startPath s @ ''?t='' @ cs_nonce s
      | Inr u \<Rightarrow> x_url_string E (u\<lparr>u_Path := cs_startPath s, u_RawQuery := query_encode [(''t'', cs_nonce s)]\<rparr>))"

text \<open>
  \<open>handler\<close>: the patterns in the order they are registered. \<open>HandleFunc\<close> panics when a pattern is
  registered twice, and when it holds a blank, which separates a method from the path.
\<close>

datatype endpoint = Start | Callback

definition register :: "string \<Rightarrow> endpoint \<Rightarrow> (string \<times> endpoint) list" where
  "register pattern h =
     (pattern, h) # (let base = CHR ''/'' # path_base pattern in if base \<noteq> pattern then [(base, h)] else [])"

definition routes :: "string \<Rightarrow> string \<Rightarrow> (string \<times> endpoint) list" where
  "routes start callback = register start Start @ register callback Callback"

definition mux_panics :: "string list \<Rightarrow> bool" where
  "mux_panics patterns \<longleftrightarrow> \<not> distinct patterns \<or> (\<exists>p\<in>set patterns. CHR '' '' \<in> set p \<or> CHR 0x09 \<in> set p)"

text \<open>\<open>ServeMux\<close> answers an unclean path with a redirect to the clean one, trailing slash kept.\<close>

definition mux_clean :: "string \<Rightarrow> string" where
  "mux_clean p =
     (let p = (if p = [] \<or> hd p \<noteq> CHR ''/'' then CHR ''/'' # p else p); np = path_clean p
      in if last p = CHR ''/'' \<and> np \<noteq> ''/'' then np @ ''/'' else np)"

definition handleStart :: "'e consent_env_scheme \<Rightarrow> consentServer \<Rightarrow> string \<Rightarrow> page" where
  "handleStart E s rawq =
     (if values_get (fst (parse_query rawq)) ''t'' \<noteq> cs_nonce s then NotFound else Found (AuthURL E (cs_flow s)))"

definition authorized_page :: runes where
  "authorized_page = lit ''Authorized. difmsync will begin syncing on its next tick; you can close this tab.''"

definition retry_hint :: runes where
  "retry_hint = [10, 10] @ lit ''Start the flow again from the URL in the container logs.''"

text \<open>The page, and whether \<open>done\<close> is signaled.\<close>

definition handleCallback ::
  "'e consent_env_scheme \<Rightarrow> consentServer \<Rightarrow> string \<Rightarrow> 'z store_scheme \<Rightarrow> (page \<times> bool) \<times> 'z store_scheme" where
  "handleCallback E s rawq w =
     (case completeConsentRequest E (cs_flow s) authorized_page retry_hint rawq w of
        ((pg, err), w) \<Rightarrow> ((pg, err = None), w))"

definition handler ::
  "'e consent_env_scheme \<Rightarrow> consentServer \<Rightarrow> string \<times> string \<Rightarrow> 'z store_scheme \<Rightarrow> (page \<times> bool) \<times> 'z store_scheme" where
  "handler E s req w =
     (let path = mux_clean (fst req)
      in if path \<noteq> fst req then ((MovedPermanently path, False), w)
         else case map_of (routes (cs_startPath s) (cs_callbackPath s)) path of
                None \<Rightarrow> ((NotFound, False), w)
              | Some Start \<Rightarrow> ((handleStart E s (snd req), False), w)
              | Some Callback \<Rightarrow> handleCallback E s (snd req) w)"

subsection \<open>Waiting for consent\<close>

text \<open>
  \<open>awaitConsent\<close> from the moment the listener is bound: requests are answered, the store is polled,
  and one of the four arms of the \<open>select\<close> ends it. \<open>signaled\<close> is whether \<open>done\<close> holds a value.
\<close>

datatype wait = Serving bool | Answered "gerr option"

definition server_stopped :: "gerr option \<Rightarrow> gerr" where
  "server_stopped err =
     (case err of Some e \<Rightarrow> Wrap (lit ''consent server: '') e []
      | None \<Rightarrow> Msg (lit ''consent server stopped before consent completed''))"

inductive await_step ::
  "'e consent_env_scheme \<Rightarrow> consentServer \<Rightarrow> wait \<times> 'z store_scheme \<Rightarrow> wait \<times> 'z store_scheme \<Rightarrow> bool"
  for E :: "'e consent_env_scheme" and s where
  request: "handler E s req w = ((pg, ok), w') \<Longrightarrow> await_step E s (Serving signaled, w) (Serving (signaled \<or> ok), w')"
| idle: "s_tick w \<le> t \<Longrightarrow> await_step E s (Serving signaled, w) (Serving signaled, w\<lparr>s_tick := t\<rparr>)"
| canceled: "c_err E (s_tick w) = Some e \<Longrightarrow> await_step E s (Serving signaled, w) (Answered (Some e), w)"
| server_died: "await_step E s (Serving signaled, w) (Answered (Some (server_stopped err)), w)"
| consented: "await_step E s (Serving True, w) (Answered None, w)"
| poll_finds: "tokenStored E (cs_flow s) w = (Inr True, w') \<Longrightarrow> await_step E s (Serving signaled, w) (Answered None, w')"
| poll_waits: "tokenStored E (cs_flow s) w = (r, w') \<Longrightarrow> r \<noteq> Inr True \<Longrightarrow>
    await_step E s (Serving signaled, w) (Serving signaled, w')"

inductive_cases await_stepE: "await_step E s (Serving signaled, w) c"
inductive_cases answered_stepE: "await_step E s (Answered r, w) c"

inductive awaitConsent ::
  "'e consent_env_scheme \<Rightarrow> consentServer \<Rightarrow> 'z store_scheme \<Rightarrow> wait \<times> 'z store_scheme \<Rightarrow> bool"
  for E :: "'e consent_env_scheme" and s and w where
  listening: "awaitConsent E s w (Serving False, w)"
| served: "awaitConsent E s w c \<Longrightarrow> await_step E s c c' \<Longrightarrow> awaitConsent E s w c'"

text \<open>
  What comes before: the routes, the nonce and the listener. \<open>None\<close> is a panic, \<open>listen\<close> what
  binding the address returns.
\<close>

definition open_consent ::
  "'e consent_env_scheme \<Rightarrow> string \<Rightarrow> string \<Rightarrow> consentFlow \<Rightarrow> gerr + nat list \<Rightarrow> gerr option \<Rightarrow> (gerr + consentServer) option" where
  "open_consent E addr redirect f random listen =
     (case consentRoutes E redirect of
        Inl e \<Rightarrow> Some (Inl e)
      | Inr (start, callback) \<Rightarrow>
          (case random of
             Inl e \<Rightarrow> Some (Inl (Wrap (lit ''generate consent nonce: '') e []))
           | Inr bytes \<Rightarrow>
               if mux_panics (map fst (routes start callback) @ [''/'']) then None
               else case serveHTTP addr ''the consent endpoints'' listen of
                      Inl e \<Rightarrow> Some (Inl e)
                    | Inr l \<Rightarrow> Some (Inr \<lparr>cs_flow = f, cs_nonce = randomToken bytes, cs_startPath = start,
                                         cs_callbackPath = callback\<rparr>)))"

subsection \<open>difmsync auth\<close>

record callback =
  cb_Addr :: string
  cb_Path :: string

definition callbackTarget :: "'e consent_env_scheme \<Rightarrow> string \<Rightarrow> string \<Rightarrow> gerr + callback" where
  "callbackTarget E redirect bind_host =
     and_then (parseRedirect E redirect) (\<lambda>u.
       if u_Scheme u \<noteq> ''http'' then
         Inl (Msg (lit ''redirect url '' @ quoted redirect @ lit '' must be http: the callback listener ''
                   @ lit ''serves plain HTTP on loopback and cannot terminate TLS''))
       else if CHR '':'' \<in> set bind_host \<and> x_parse_ip E bind_host = None then
         Inl (Msg (lit ''auth bind '' @ quoted bind_host @ lit '' must be a host or IP without a port ''
                   @ lit ''(the port comes from the redirect url)''))
       else let (host, port) = host_and_port (u_Host u)
            in Inr \<lparr>cb_Addr = join_host_port (if bind_host \<noteq> [] then bind_host else host) (if port = [] then ''8888'' else port),
                    cb_Path = (if u_Path u = [] then ''/'' else u_Path u)\<rparr>)"

text \<open>The listener of \<open>auth\<close> serves one pattern; \<open>Some r\<close> is the result it sends.\<close>

definition auth_handler ::
  "'e consent_env_scheme \<Rightarrow> consentFlow \<Rightarrow> callback \<Rightarrow> string \<times> string \<Rightarrow> 'z store_scheme \<Rightarrow>
   (page \<times> gerr option option) \<times> 'z store_scheme" where
  "auth_handler E f target req w =
     (let path = mux_clean (fst req)
      in if path \<noteq> fst req then ((MovedPermanently path, None), w)
         else if path = cb_Path target \<or> last (cb_Path target) = CHR ''/'' \<and> take (length (cb_Path target)) path = cb_Path target then
           (case completeConsentRequest E f (lit ''Authorized. You can close this tab and return to the terminal.'') [] (snd req) w of
              ((pg, err), w) \<Rightarrow> ((pg, Some err), w))
         else if path @ ''/'' = cb_Path target then ((MovedPermanently (cb_Path target), None), w)
         else ((NotFound, None), w))"

text \<open>
  The command up to the point where it listens or reads: \<open>flags\<close> are the four it requires, by name. The
  listening flow derives its target before the account is touched.
\<close>

definition auth_begin ::
  "'e consent_env_scheme \<Rightarrow> (string \<times> runes) list \<Rightarrow> string \<Rightarrow> string \<Rightarrow> bool \<Rightarrow> string \<Rightarrow> string \<Rightarrow> string \<Rightarrow>
   gerr + nat list \<Rightarrow> ('z, consentFlow \<times> callback option) op" where
  "auth_begin E flags redirect bind_host manual label mid playlist random w =
     (case requireFlags flags of
        Some e \<Rightarrow> (Inl e, w)
      | None \<Rightarrow>
          (case (if manual then Inr None else map_sum id Some (callbackTarget E redirect bind_host)) of
             Inl e \<Rightarrow> (Inl e, w)
           | Inr target \<Rightarrow>
               bind_op (EnsureAccount E label mid playlist)
                 (\<lambda>account w. (map_sum id (\<lambda>f. (f, target)) (newConsentFlow (A_ID account) random), w)) w))"

definition errAuthTimeout :: gerr where
  "errAuthTimeout = Msg (lit ''timed out waiting for Spotify consent callback'')"

definition listener_stopped :: "gerr option \<Rightarrow> gerr" where
  "listener_stopped err =
     (case err of Some e \<Rightarrow> Wrap (lit ''callback listener: '') e []
      | None \<Rightarrow> Msg (lit ''callback listener stopped before the callback arrived''))"

text \<open>
  The \<open>select\<close> of \<open>auth\<close>. \<open>results\<close> holds one value: the first callback's. A later handler writes its
  page and then blocks on the channel.
\<close>

datatype auth_wait = Listening "gerr option option" | AuthDone "gerr option"

inductive auth_step ::
  "'e consent_env_scheme \<Rightarrow> consentFlow \<Rightarrow> callback \<Rightarrow> auth_wait \<times> 'z store_scheme \<Rightarrow> auth_wait \<times> 'z store_scheme \<Rightarrow> bool"
  for E :: "'e consent_env_scheme" and f and target where
  auth_request: "auth_handler E f target req w = ((pg, res), w') \<Longrightarrow>
    auth_step E f target (Listening held, w) (Listening (case held of None \<Rightarrow> res | Some r \<Rightarrow> Some r), w')"
| auth_idle: "s_tick w \<le> t \<Longrightarrow> auth_step E f target (Listening held, w) (Listening held, w\<lparr>s_tick := t\<rparr>)"
| auth_canceled: "c_err E (s_tick w) = Some e \<Longrightarrow> auth_step E f target (Listening held, w) (AuthDone (Some e), w)"
| auth_timeout: "auth_step E f target (Listening held, w) (AuthDone (Some errAuthTimeout), w)"
| auth_died: "auth_step E f target (Listening held, w) (AuthDone (Some (listener_stopped err)), w)"
| auth_result: "auth_step E f target (Listening (Some r), w) (AuthDone r, w)"

inductive auth_run ::
  "'e consent_env_scheme \<Rightarrow> consentFlow \<Rightarrow> callback \<Rightarrow> auth_wait \<times> 'z store_scheme \<Rightarrow> auth_wait \<times> 'z store_scheme \<Rightarrow> bool"
  for E :: "'e consent_env_scheme" and f and target and c0 where
  auth_here: "auth_run E f target c0 c0"
| auth_more: "auth_run E f target c0 c \<Longrightarrow> auth_step E f target c c' \<Longrightarrow> auth_run E f target c0 c'"

subsection \<open>The manual flow\<close>

definition errNoCallbackPasted :: gerr where
  "errNoCallbackPasted = Msg (lit ''no callback URL was pasted'')"

definition no_code_pasted :: gerr where
  "no_code_pasted =
     Msg (lit ''no code parameter in what you pasted '' @ [8212] @ lit '' paste the whole URL the browser was redirected to, ''
          @ lit ''query string included (it looks like '' @ [8230] @ lit ''/callback?code='' @ [8230] @ lit ''&state='' @ [8230]
          @ lit ''). The code on its own is not enough: the state beside it is what proves the callback belongs to this flow'')"

definition trim_quotes :: "runes \<Rightarrow> runes" where
  "trim_quotes s =
     (let q = (\<lambda>r. r = 34 \<or> r = 39) in rev (dropWhile q (rev (dropWhile q s))))"

definition manualCallbackQuery :: "runes \<Rightarrow> gerr + url_values" where
  "manualCallbackQuery pasted =
     (let inp = trim_quotes (trim_space pasted)
      in if inp = [] then Inl errNoCallbackPasted
         else
           (let raw = (if 63 \<in> set inp then snd (cut_at 63 inp) else inp);
                raw = fst (cut_at 35 raw);
                (q, err) = parse_query (utf8 raw)
            in case err of
                 Some e \<Rightarrow> Inl (Wrap (lit ''could not parse the pasted text as a callback URL: '') e [])
               | None \<Rightarrow>
                   if values_get q ''code'' = [] \<and> values_get q ''error'' = [] then Inl no_code_pasted else Inr q))"

text \<open>\<open>line\<close> is the scanner's first line, or why there is none.\<close>

definition runManualConsent ::
  "'e consent_env_scheme \<Rightarrow> consentFlow \<Rightarrow> gerr option + runes \<Rightarrow> ('z, unit) op" where
  "runManualConsent E f line w =
     (case line of
        Inl (Some e) \<Rightarrow> (Inl (Wrap (lit ''read the pasted callback URL: '') e []), w)
      | Inl None \<Rightarrow> (Inl errNoCallbackPasted, w)
      | Inr pasted \<Rightarrow>
          (case manualCallbackQuery pasted of
             Inl e \<Rightarrow> (Inl e, w)
           | Inr q \<Rightarrow> Complete E f q w))"

end
