(* ===== verification/Runner.thy ===== *)
theory Runner
  imports Loop Consent
begin

text \<open>
  The daemon's outer loop, \<open>syncRunner\<close> of \<open>cmd/difmsync/runloop.go\<close>, with what the \<open>sync\<close> command of
  \<open>main.go\<close> supplies to it: the wait for consent, the construction of an engine (\<open>newEngine\<close>,
  \<open>buildEngine\<close>, \<open>backupsFrom\<close>) and the loop; and the one-shot \<open>sync\<close>.

  \<open>run_step\<close> is one move of the runner. Inside \<open>Asking\<close> it moves as \<open>await_step\<close> does and inside
  \<open>Looping\<close> as \<open>loop_step\<close> does; there Spotify may also rotate the refresh token, between two moves.
  What two processes do at the same time is left to the theory of the system.
\<close>

subsection \<open>Configuration\<close>

record config =
  cf_label :: string
  cf_member :: string
  cf_playlist :: string
  cf_difm :: Client
  cf_auto :: score
  cf_review :: score
  cf_interval :: duration
  cf_dryRun :: bool
  cf_loop :: bool
  cf_authAddr :: string
  cf_redirect :: string
  cf_backupDir :: string
  cf_backupKeep :: int

definition backupsFrom :: "config \<Rightarrow> Backups" where
  "backupsFrom cf =
     \<lparr>bk_Dir = cf_backupDir cf, bk_Keep = (if cf_loop cf then cf_backupKeep cf else 0), bk_lastAttempt = []\<rparr>"

definition buildEngine :: "config \<Rightarrow> folder \<Rightarrow> Account \<Rightarrow> daemon" where
  "buildEngine cf fo account =
     \<lparr>dm_engine = \<lparr>eg_difm = cf_difm cf, eg_account = account, eg_playlist = A_SpotifyPlaylistID account,
                   eg_auto = cf_auto cf, eg_review = cf_review cf\<rparr>,
      dm_backups = Some (backupsFrom cf), dm_folder = fo\<rparr>"

text \<open>
  The probe of the playlist's name is the first use of the token: only a revoked grant ends the
  construction, any other failure is logged.
\<close>

definition newEngine ::
  "'e net_env_scheme \<Rightarrow> config \<Rightarrow> folder \<Rightarrow> Account \<Rightarrow> ('z, daemon) wop" where
  "newEngine E cf fo account w =
     (case auth_client (A_SpotifyRefreshToken account) of
        Some e \<Rightarrow> (Inl e, w)
      | None \<Rightarrow>
          (case PlaylistName E (A_SpotifyPlaylistID account) w of
             (Inl e, w) \<Rightarrow> (if errors_is e SpErrGrantRevoked then Inl e else Inr (buildEngine cf fo account), w)
           | (Inr nm, w) \<Rightarrow> (Inr (buildEngine cf fo account), w)))"

text \<open>The one-shot command.\<close>

definition sync_once ::
  "'e eng_env_scheme \<Rightarrow> (nat \<Rightarrow> disk) \<Rightarrow> config \<Rightarrow> folder \<Rightarrow> 'z world_scheme \<Rightarrow> gerr option \<times> 'z world_scheme" where
  "sync_once E k cf fo w =
     (case bind_op (EnsureAccount E (cf_label cf) (cf_member cf) (cf_playlist cf)) (newEngine E cf fo) w of
        (Inl e, w) \<Rightarrow> (Some e, w)
      | (Inr dm, w) \<Rightarrow> (case RunOnce E k (cf_dryRun cf) dm w of ((stats, err), dm, w) \<Rightarrow> (err, w)))"

text \<open>
  The closure the token source calls with a rotated token: stored first, then remembered as the one the
  engine holds. The source does not call it for an empty token or for the last one it has seen.
\<close>

definition rotated ::
  "'e env_scheme \<Rightarrow> int \<Rightarrow> string \<Rightarrow> string \<Rightarrow> 'z store_scheme \<Rightarrow> string \<times> 'z store_scheme" where
  "rotated E acct tok held w =
     (if tok = [] \<or> tok = held then (held, w)
      else case SetSpotifyRefreshToken E acct tok w of
             (Inl e, w) \<Rightarrow> (held, w)
           | (Inr _, w) \<Rightarrow> (tok, w))"

subsection \<open>The runner\<close>

text \<open>
  \<open>Top\<close> is the head of the \<open>for\<close> loop. \<open>Asking\<close> is inside \<open>await\<close>, \<open>Building\<close> and \<open>Looping\<close> are inside
  \<open>loop\<close> with the token the engine holds, \<open>Stopped\<close> is behind it. \<open>Crashed\<close> is a panic.
\<close>

datatype phase =
    Top
  | Asking consentServer wait
  | Building Account string
  | Looping Account string loop_state daemon
  | Stopped Account string "gerr option"
  | Ended "gerr option"
  | Crashed

definition no_consent_server :: gerr where
  "no_consent_server =
     Wrap [] (Sentinel SpErrNoCredentials) (lit ''; set --auth-http-addr for the daemon to serve consent itself'')"

definition consent_lied :: gerr where
  "consent_lied = Msg (lit ''consent reported complete but no refresh token is stored'')"

text \<open>
  \<open>await\<close> up to the point where it serves: \<open>state\<close> and \<open>nonce\<close> are what the random source gives for
  the two tokens, \<open>listen\<close> what binding the address returns.
\<close>

definition await ::
  "'e consent_env_scheme \<Rightarrow> config \<Rightarrow> Account \<Rightarrow> gerr + nat list \<Rightarrow> gerr + nat list \<Rightarrow> gerr option \<Rightarrow> phase" where
  "await E cf account state nonce listen =
     (let failed = (\<lambda>e. Ended (done_result e))
      in if cf_authAddr cf = [] then failed no_consent_server
         else case newConsentFlow (A_ID account) state of
                Inl e \<Rightarrow> failed e
              | Inr f \<Rightarrow>
                  (case open_consent E (cf_authAddr cf) (cf_redirect cf) f nonce listen of
                     None \<Rightarrow> Crashed
                   | Some (Inl e) \<Rightarrow> failed e
                   | Some (Inr srv) \<Rightarrow> Asking srv (Serving False)))"

inductive run_step ::
  "'e consent_env_scheme \<Rightarrow> (nat \<Rightarrow> disk) \<Rightarrow> config \<Rightarrow>
   phase \<times> folder \<times> 'z world_scheme \<Rightarrow> phase \<times> folder \<times> 'z world_scheme \<Rightarrow> bool"
  for E :: "'e consent_env_scheme" and k and cf where
  unreadable: "GetAccount E (cf_label cf) w = (Inl e, w') \<Longrightarrow>
    run_step E k cf (Top, fo, w) (Ended (done_result e), fo, w')"
| authorized: "GetAccount E (cf_label cf) w = (Inr a, w') \<Longrightarrow> A_SpotifyRefreshToken a \<noteq> [] \<Longrightarrow>
    run_step E k cf (Top, fo, w) (Building a (A_SpotifyRefreshToken a), fo, w')"
| unauthorized: "GetAccount E (cf_label cf) w = (Inr a, w') \<Longrightarrow> A_SpotifyRefreshToken a = [] \<Longrightarrow>
    run_step E k cf (Top, fo, w) (await E cf a state nonce listen, fo, w')"
| waits: "await_step E srv (c, w) (c', w') \<Longrightarrow> run_step E k cf (Asking srv c, fo, w) (Asking srv c', fo, w')"
| await_failed: "run_step E k cf (Asking srv (Answered (Some e)), fo, w) (Ended (done_result e), fo, w)"
| reread_failed: "GetAccount E (cf_label cf) w = (Inl e, w') \<Longrightarrow>
    run_step E k cf (Asking srv (Answered None), fo, w) (Ended (Some e), fo, w')"
| reread_empty: "GetAccount E (cf_label cf) w = (Inr a, w') \<Longrightarrow> A_SpotifyRefreshToken a = [] \<Longrightarrow>
    run_step E k cf (Asking srv (Answered None), fo, w) (Ended (Some consent_lied), fo, w')"
| reread: "GetAccount E (cf_label cf) w = (Inr a, w') \<Longrightarrow> A_SpotifyRefreshToken a \<noteq> [] \<Longrightarrow>
    run_step E k cf (Asking srv (Answered None), fo, w) (Building a (A_SpotifyRefreshToken a), fo, w')"
| not_built: "newEngine E cf fo a w = (Inl e, w') \<Longrightarrow>
    run_step E k cf (Building a held, fo, w) (Stopped a held (Some e), fo, w')"
| built: "newEngine E cf fo a w = (Inr dm, w') \<Longrightarrow> 0 \<le> j \<Longrightarrow> j < clamp_interval (cf_interval cf) div 4 \<Longrightarrow>
    run_step E k cf (Building a held, fo, w) (Looping a held (Waiting j) dm, fo, w')"
| rotates_early: "rotated E (A_ID a) tok held w = (held', w') \<Longrightarrow>
    run_step E k cf (Building a held, fo, w) (Building a held', fo, w')"
| loops: "loop_step E k (cf_interval cf) (cf_dryRun cf) (ls, dm, w) (ls', dm', w') \<Longrightarrow>
    run_step E k cf (Looping a held ls dm, fo, w) (Looping a held ls' dm', fo, w')"
| rotates: "rotated E (A_ID a) tok held w = (held', w') \<Longrightarrow>
    run_step E k cf (Looping a held ls dm, fo, w) (Looping a held' ls dm, fo, w')"
| loop_returns: "run_step E k cf (Looping a held (Returned err) dm, fo, w) (Stopped a held err, dm_folder dm, w)"
| returns: "\<not> revoked err \<Longrightarrow> run_step E k cf (Stopped a held err, fo, w) (Ended err, fo, w)"
| clear_failed: "revoked err \<Longrightarrow> ClearSpotifyRefreshTokenIf E (A_ID a) held w = (Inl e, w') \<Longrightarrow>
    run_step E k cf (Stopped a held err, fo, w) (Ended (Some (Wrap (lit ''clear revoked refresh token: '') e [])), fo, w')"
| cleared: "revoked err \<Longrightarrow> ClearSpotifyRefreshTokenIf E (A_ID a) held w = (Inr True, w') \<Longrightarrow>
    run_step E k cf (Stopped a held err, fo, w) (Top, fo, w')"
| retries: "revoked err \<Longrightarrow> ClearSpotifyRefreshTokenIf E (A_ID a) held w = (Inr False, w') \<Longrightarrow>
    run_step E k cf (Stopped a held err, fo, w) (Top, fo, w')"

inductive_cases stopped_stepE: "run_step E k cf (Stopped a held err, fo, w) c"
inductive_cases asking_stepE: "run_step E k cf (Asking srv c, fo, w) c'"
inductive_cases looping_stepE: "run_step E k cf (Looping a held ls dm, fo, w) c"
inductive_cases building_stepE: "run_step E k cf (Building a held, fo, w) c"
inductive_cases top_stepE: "run_step E k cf (Top, fo, w) c"

end
