(* ===== verification/ConsentLaws.thy ===== *)
theory ConsentLaws
  imports Consent
begin

text \<open>
  What the consent flow guarantees: which redirect URLs give a server that comes up, what a callback
  must carry to change the stored token, that a stranger to the flow changes and learns nothing, and
  that the manual flow reads a pasted callback whatever the shape of the paste.
\<close>

subsection \<open>Routes\<close>

lemma consentRoutes_result:
  assumes "consentRoutes E redirect = Inr (start, callback)"
  obtains u where "x_parse E redirect = Inr u" "callback = u_Path u" "callback \<noteq> []" "callback \<noteq> ''/''"
    "\<not> ends_with ''/'' callback" "start = path_join [path_dir callback, ''start'']" "start \<noteq> callback"
  using assms
  by (auto simp: consentRoutes_def parseRedirect_def and_then_Inr Let_def simp del: lit_simps
      split: if_splits sum.splits)

lemma route_names:
  assumes "list_all name_ok (ss @ [s])" and "start = path_join [path_dir (abs_path (ss @ [s])), ''start'']"
  shows "start = abs_path (ss @ [''start''])" "path_base start = ''start''" "path_base (abs_path (ss @ [s])) = s"
proof -
  have ok: "name_ok ''start''" "list_all name_ok ss" using assms(1) by (simp_all add: name_ok_def)
  show start: "start = abs_path (ss @ [''start''])"
    unfolding assms(2) path_dir_abs [OF assms(1)] by (rule path_join_abs) (use ok in simp_all)
  show "path_base start = ''start''" unfolding start by (rule path_base_abs) (use ok in simp)
  show "path_base (abs_path (ss @ [s])) = s" by (rule path_base_abs [OF assms(1)])
qed

text \<open>
  The consent routes do not collide. Whenever \<open>consentRoutes\<close> accepts a redirect URL whose path is
  clean and has no blank, no pattern is registered twice, so the server comes up; the start page and
  the callback are each served at their full path and at their last segment, for a proxy that strips
  its prefix.
\<close>

theorem routes_do_not_collide:
  assumes "consentRoutes E redirect = Inr (start, callback)"
    and "hd callback = CHR ''/''" and "path_clean callback = callback"
    and "CHR '' '' \<notin> set callback" and "CHR 0x09 \<notin> set callback"
  shows "\<not> mux_panics (map fst (routes start callback) @ [''/'']) \<and>
    map_of (routes start callback) start = Some Start \<and>
    map_of (routes start callback) ''/start'' = Some Start \<and>
    map_of (routes start callback) callback = Some Callback \<and>
    map_of (routes start callback) (CHR ''/'' # path_base callback) = Some Callback"
proof -
  from consentRoutes_result [OF assms(1)] have c: "callback \<noteq> []" "callback \<noteq> ''/''"
    and start: "start = path_join [path_dir callback, ''start'']" and ne: "start \<noteq> callback" by metis+
  from clean_is_abs [OF assms(2) c(1)] assms(3) obtain ts where ts: "list_all name_ok ts" "callback = abs_path ts" by metis
  then obtain ss s where ts': "ts = ss @ [s]" using c(2) by (cases ts rule: rev_cases) (auto simp: abs_path_def)
  have ok: "list_all name_ok (ss @ [s])" "callback = abs_path (ss @ [s])" using ts ts' by simp_all
  note N = route_names [OF ok(1) start [unfolded ok(2)]]
  have base: "path_base start = ''start''" "path_base callback = s" using N ok(2) by simp_all
  have s: "s \<noteq> ''start''" using ne N(1) ok(2) by auto
  have names: "list_all name_ok (ss @ [''start''])" "list_all name_ok [''start'']" "list_all name_ok [s]"
    using ok(1) by (simp_all add: name_ok_def)
  have one: "abs_path [t] = CHR ''/'' # t" for t by (simp add: abs_path_def)
  have apart: "start \<noteq> CHR ''/'' # s" "''/start'' \<noteq> callback" "''/start'' \<noteq> CHR ''/'' # s"
    using abs_path_inj [OF names(1,3)] abs_path_inj [OF names(2) ok(1)] s N(1) ok(2) one by auto
  have blanks: "c \<notin> set start" if "c \<notin> set callback" "c \<notin> set ''/start''" for c
    using that unfolding N(1) ok(2) abs_path_snoc by (auto split: if_splits)
  have bs: "c \<notin> set s" if "c \<notin> set callback" for c
    using that unfolding ok(2) abs_path_snoc by auto
  have not_root: "start \<noteq> ''/''" "s \<noteq> []"
    using ok(1) abs_path_snoc [of ss "''start''"] unfolding N(1) by (auto simp: name_ok_def abs_path_def)
  have blank: "CHR '' '' \<notin> set start" "CHR 0x09 \<notin> set start" "CHR '' '' \<notin> set s" "CHR 0x09 \<notin> set s"
    "CHR '' '' \<notin> set callback" "CHR 0x09 \<notin> set callback"
    using assms(4,5) by (simp_all add: blanks bs)
  have "\<not> mux_panics (map fst (routes start callback) @ [''/''])"
    using apart ne c(2) not_root blank
    by (auto simp: mux_panics_def routes_def register_def base Let_def)
  moreover have "map_of (routes start callback) start = Some Start"
    "map_of (routes start callback) ''/start'' = Some Start"
    "map_of (routes start callback) callback = Some Callback"
    "map_of (routes start callback) (CHR ''/'' # path_base callback) = Some Callback"
    using apart ne by (auto simp: routes_def register_def base Let_def)
  ultimately show ?thesis by blast
qed

subsection \<open>The exchange\<close>

lemma SetSpotifyRefreshToken_result:
  assumes "SetSpotifyRefreshToken E i tok w = (r, w')"
  shows "same_rest w w'" "s_db w' = s_db w \<and> isl r \<or> s_db w' = snd (setSpotifyRefreshToken tok i (s_db w)) \<and> r = Inr ()"
proof -
  note W = write_op [OF assms [unfolded SetSpotifyRefreshToken_def]]
  have err: "fails_clean (\<lambda>_. setSpotifyRefreshToken tok i)" by (simp add: fails_clean_def setSpotifyRefreshToken_def)
  show "same_rest w w'" by (rule W(1) [OF err])
  show "s_db w' = s_db w \<and> isl r \<or> s_db w' = snd (setSpotifyRefreshToken tok i (s_db w)) \<and> r = Inr ()"
    using W(3,4) [OF err] by (cases r) (force simp: setSpotifyRefreshToken_def)+
qed

lemma Complete_result:
  assumes "Complete E f q w = (r, w')"
  shows "s_db w' = s_db w \<and> isl r \<or>
    r = Inr () \<and> values_get q ''state'' = fl_state f \<and> values_get q ''error'' = [] \<and>
    (\<exists>tok. tok \<noteq> [] \<and> x_exchange E (s_tick w) (values_get q ''code'') = Inr tok \<and>
       s_db w' = snd (setSpotifyRefreshToken tok (fl_account f) (s_db w)))"
proof (cases "values_get q ''state'' \<noteq> fl_state f \<or> values_get q ''error'' \<noteq> []")
  case True
  then show ?thesis using assms by (auto simp: Complete_def simp del: lit_simps split: if_splits)
next
  case False
  show ?thesis
  proof (cases "x_exchange E (s_tick w) (values_get q ''code'')")
    case (Inl e)
    then show ?thesis using assms False by (auto simp: Complete_def Exchange_def bind_op_def simp del: lit_simps)
  next
    case (Inr tok)
    show ?thesis
    proof (cases "tok = []")
      case True
      then show ?thesis using assms False Inr by (auto simp: Complete_def Exchange_def bind_op_def simp del: lit_simps)
    next
      case ne: False
      have "SetSpotifyRefreshToken E (fl_account f) tok (w\<lparr>s_tick := s_tick w + 1\<rparr>) = (r, w')"
        using assms False Inr ne by (simp add: Complete_def Exchange_def bind_op_def del: lit_simps)
      from SetSpotifyRefreshToken_result(2) [OF this] show ?thesis using False Inr ne by auto
    qed
  qed
qed

text \<open>
  C14: a token is stored only for a callback of this flow. Whatever a callback carries, the database
  changes only if it has the flow's state and no error, and its code was exchanged for a refresh token
  that is not empty; then that token is the account's and nothing else changed. Success means exactly
  this has happened.
\<close>

theorem Complete_guarded:
  assumes "Complete E f q w = (r, w')"
  shows "s_db w' = s_db w \<and> isl r \<or>
    r = Inr () \<and> values_get q ''state'' = fl_state f \<and> values_get q ''error'' = [] \<and>
    (\<exists>tok. tok \<noteq> [] \<and> x_exchange E (s_tick w) (values_get q ''code'') = Inr tok \<and>
       s_db w' = snd (setSpotifyRefreshToken tok (fl_account f) (s_db w)))"
  using assms by (rule Complete_result)

subsection \<open>Strangers\<close>

text \<open>The server's answers to a sequence of requests.\<close>

fun reply_all ::
  "'e consent_env_scheme \<Rightarrow> consentServer \<Rightarrow> (string \<times> string) list \<Rightarrow> 'z store_scheme \<Rightarrow>
   (page \<times> bool) list \<times> 'z store_scheme" where
  "reply_all E s [] w = ([], w)"
| "reply_all E s (req # reqs) w =
     (case handler E s req w of (a, w) \<Rightarrow> (case reply_all E s reqs w of (as, w) \<Rightarrow> (a # as, w)))"

definition stranger :: "consentServer \<Rightarrow> string \<times> string \<Rightarrow> bool" where
  "stranger s req \<longleftrightarrow>
     values_get (fst (parse_query (snd req))) ''t'' \<noteq> cs_nonce s \<and>
     values_get (fst (parse_query (snd req))) ''state'' \<noteq> fl_state (cs_flow s)"

lemma stranger_answer:
  assumes "stranger s req"
  shows "handler E s req w =
    (let path = mux_clean (fst req)
     in if path \<noteq> fst req then ((MovedPermanently path, False), w)
        else case map_of (routes (cs_startPath s) (cs_callbackPath s)) path of
               Some Callback \<Rightarrow>
                 ((Page 400 (lit ''Consent failed: '' @ err_text errStateMismatch @ retry_hint @ [10]), False), w)
             | _ \<Rightarrow> ((NotFound, False), w))"
  using assms
  by (auto simp: handler_def handleStart_def handleCallback_def completeConsentRequest_def Complete_def stranger_def
      Let_def simp del: lit_simps split: option.split endpoint.split)

text \<open>
  C15: a stranger changes and learns nothing. Requests that carry neither the nonce of the start URL nor
  the state of the flow, in any number and order, leave the store alone and do not end the wait, and
  the answers do not depend on the nonce, the state or the account: another server with the same
  routes, to which they are strangers too, gives the very same answers.
\<close>

theorem strangers_learn_nothing:
  assumes "\<forall>req\<in>set reqs. stranger s req \<and> stranger s' req"
    and "cs_startPath s' = cs_startPath s" and "cs_callbackPath s' = cs_callbackPath s"
  shows "reply_all E s reqs w = reply_all E' s' reqs w \<and> snd (reply_all E s reqs w) = w \<and>
    (\<forall>a\<in>set (fst (reply_all E s reqs w)). \<not> snd a \<and> (\<forall>url. fst a \<noteq> Found url))"
  using assms(1)
proof (induction reqs)
  case (Cons req reqs)
  have a: "handler E' s' req w = handler E s req w"
    using Cons.prems stranger_answer [of s req E w] stranger_answer [of s' req E' w] unfolding assms(2,3) by simp
  have b: "snd (handler E s req w) = w \<and> \<not> snd (fst (handler E s req w)) \<and> (\<forall>url. fst (fst (handler E s req w)) \<noteq> Found url)"
    using Cons.prems by (auto simp: stranger_answer Let_def simp del: lit_simps split: option.split endpoint.split)
  obtain x where x: "handler E s req w = (x, w)" using b by (metis prod.collapse)
  have c: "\<not> snd x \<and> (\<forall>url. fst x \<noteq> Found url)" using b unfolding x by simp
  from Cons have ih: "reply_all E s reqs w = reply_all E' s' reqs w \<and> snd (reply_all E s reqs w) = w \<and>
    (\<forall>a\<in>set (fst (reply_all E s reqs w)). \<not> snd a \<and> (\<forall>url. fst a \<noteq> Found url))"
    by (metis list.set_intros(2))
  obtain as where as: "reply_all E s reqs w = (as, w)" using ih by (metis prod.collapse)
  have as': "reply_all E' s' reqs w = (as, w)" using ih as by simp
  show ?case using c ih by (simp add: a x as as' del: lit_simps)
qed simp

subsection \<open>The wait\<close>

text \<open>Only the token of the account has changed, and if a consent was signaled it is there.\<close>

definition token_only :: "int \<Rightarrow> db \<Rightarrow> db \<Rightarrow> bool" where
  "token_only i d d' \<longleftrightarrow>
     (\<exists>f. d' = d\<lparr>accounts := map (\<lambda>a. if ar_id a = i then a\<lparr>ar_token := f a\<rparr> else a) (accounts d)\<rparr>)"

definition has_token :: "int \<Rightarrow> db \<Rightarrow> bool" where
  "has_token i d \<longleftrightarrow> (\<exists>a\<in>set (accounts d). ar_id a = i \<and> ar_token a \<noteq> [])"

lemma token_only_refl [simp]: "token_only i d d"
  unfolding token_only_def by (rule exI [of _ ar_token]) (simp add: if_distrib cong: if_cong)

lemma token_only_set: "token_only i d d' \<Longrightarrow> token_only i d (snd (setSpotifyRefreshToken tok i d'))"
  unfolding token_only_def
  by (elim exE) (rule exI [of _ "\<lambda>_. tok"], simp add: setSpotifyRefreshToken_def update_where_def)

lemma has_token_set:
  "account_exists i d \<Longrightarrow> token_only i d d' \<Longrightarrow> tok \<noteq> [] \<Longrightarrow> has_token i (snd (setSpotifyRefreshToken tok i d'))"
proof -
  assume "account_exists i d" "token_only i d d'" "tok \<noteq> []"
  then obtain a where "a \<in> set (accounts d)" "ar_id a = i" by (auto simp: account_exists_def)
  moreover obtain f where "d' = d\<lparr>accounts := map (\<lambda>a. if ar_id a = i then a\<lparr>ar_token := f a\<rparr> else a) (accounts d)\<rparr>"
    using \<open>token_only i d d'\<close> unfolding token_only_def by (rule exE)
  ultimately have "a\<lparr>ar_token := f a\<rparr> \<in> set (accounts d')" by force
  then have "a\<lparr>ar_token := tok\<rparr> \<in> set (accounts (snd (setSpotifyRefreshToken tok i d')))"
    using \<open>ar_id a = i\<close> by (auto simp: setSpotifyRefreshToken_def set_update_where intro: image_eqI [where x = "a\<lparr>ar_token := f a\<rparr>"])
  then show ?thesis using \<open>ar_id a = i\<close> \<open>tok \<noteq> []\<close> unfolding has_token_def
    by (intro bexI [where x = "a\<lparr>ar_token := tok\<rparr>"]) simp_all
qed

lemma handler_token:
  assumes "handler E s req w = ((pg, ok), w')"
  shows "s_db w' = s_db w \<and> \<not> ok \<or>
    (\<exists>tok. tok \<noteq> [] \<and> ok \<and> s_db w' = snd (setSpotifyRefreshToken tok (fl_account (cs_flow s)) (s_db w)))"
proof -
  have "s_db w' = s_db w \<and> \<not> ok \<or> handleCallback E s (snd req) w = ((pg, ok), w')"
    using assms by (auto simp: handler_def Let_def split: if_splits option.splits endpoint.splits)
  then show ?thesis
  proof
    assume h: "handleCallback E s (snd req) w = ((pg, ok), w')"
    obtain r w1 where c: "Complete E (cs_flow s) (fst (parse_query (snd req))) w = (r, w1)" by fastforce
    have "ok = (\<not> isl r) \<and> w' = w1"
      using h c by (auto simp: handleCallback_def completeConsentRequest_def simp del: lit_simps split: sum.splits)
    with Complete_result [OF c] show ?thesis by auto
  qed simp
qed

lemma tokenStored_result:
  assumes "tokenStored E f w = (r, w')"
  shows "s_db w' = s_db w" "r = Inr True \<Longrightarrow> has_token (fl_account f) (s_db w)"
proof -
  note R = read_op [OF assms [unfolded tokenStored_def HasSpotifyRefreshToken_def]]
  have s: "snd (countSpotifyRefreshToken i d) = d" for i d by (simp add: countSpotifyRefreshToken_def)
  show "s_db w' = s_db w" using R(2) s by simp
  show "has_token (fl_account f) (s_db w)" if "r = Inr True"
    using R(4) [OF s that]
    by (auto simp: countSpotifyRefreshToken_def count_where_def has_token_def filter_empty_conv)
qed

text \<open>
  C16: the wait for consent ends with a token. However long the server waits and whatever requests reach
  it, nothing in the database changes but the refresh token of its account; and it only returns without
  an error when that account has one.
\<close>

theorem consent_ends_with_token:
  assumes "awaitConsent E s w (c, w')" and "account_exists (fl_account (cs_flow s)) (s_db w)"
  shows "token_only (fl_account (cs_flow s)) (s_db w) (s_db w') \<and>
    (c = Answered None \<longrightarrow> has_token (fl_account (cs_flow s)) (s_db w'))"
proof -
  let ?i = "fl_account (cs_flow s)"
  let ?P = "\<lambda>c w'. token_only ?i (s_db w) (s_db w') \<and>
    (c = Answered None \<or> c = Serving True \<longrightarrow> has_token ?i (s_db w'))"
  have "?P (fst cw) (snd cw)" if "awaitConsent E s w cw" for cw
    using that
  proof (induction rule: awaitConsent.induct)
    case listening
    show ?case by simp
  next
    case (served cw cw')
    from served(2) show ?case
    proof (cases rule: await_step.cases)
      case (request req v pg ok v' signaled)
      from handler_token [OF request(3)] served(3) show ?thesis
        using has_token_set [OF assms(2)] token_only_set unfolding request(1,2) by auto
    next
      case (poll_finds v v' signaled)
      then show ?thesis using tokenStored_result [OF poll_finds(3)] served(3) by auto
    next
      case (poll_waits v r v' signaled)
      then show ?thesis using tokenStored_result(1) [OF poll_waits(3)] served(3) by auto
    qed (use served(3) in auto)
  qed
  from this [OF assms(1)] show ?thesis by auto
qed

subsection \<open>The listener of auth\<close>

lemma auth_handler_token:
  assumes "auth_handler E f target req w = ((pg, res), w')"
  shows "s_db w' = s_db w \<and> res \<noteq> Some None \<or>
    (\<exists>tok. tok \<noteq> [] \<and> res = Some None \<and> s_db w' = snd (setSpotifyRefreshToken tok (fl_account f) (s_db w)))"
proof -
  obtain r w1 where c: "Complete E f (fst (parse_query (snd req))) w = (r, w1)" by fastforce
  have "s_db w' = s_db w \<and> res = None \<or> w' = w1 \<and> res = Some (case r of Inl e \<Rightarrow> Some e | Inr _ \<Rightarrow> None)"
    using assms c
    by (auto simp: auth_handler_def completeConsentRequest_def Let_def simp del: lit_simps split: if_splits sum.splits)
  with Complete_result [OF c] show ?thesis by (cases r) auto
qed

text \<open>
  \<open>difmsync auth\<close> ends without an error only with a token. Whatever requests reach its listener,
  nothing in the database changes but the refresh token of the account, and the command only succeeds
  when the account has one.
\<close>

theorem auth_ends_with_token:
  assumes "auth_run E f target (Listening None, w) (c, w')" and "account_exists (fl_account f) (s_db w)"
  shows "token_only (fl_account f) (s_db w) (s_db w') \<and> (c = AuthDone None \<longrightarrow> has_token (fl_account f) (s_db w'))"
proof -
  let ?P = "\<lambda>c w'. token_only (fl_account f) (s_db w) (s_db w') \<and>
    (c = AuthDone None \<or> c = Listening (Some None) \<longrightarrow> has_token (fl_account f) (s_db w'))"
  have "?P (fst cw) (snd cw)" if "auth_run E f target (Listening None, w) cw" for cw
    using that
  proof (induction rule: auth_run.induct)
    case auth_here
    show ?case by simp
  next
    case (auth_more cw cw')
    from auth_more(2) show ?case
    proof (cases rule: auth_step.cases)
      case (auth_request req v pg res v' held)
      from auth_handler_token [OF auth_request(3)] auth_more(3) show ?thesis
        using has_token_set [OF assms(2)] token_only_set unfolding auth_request(1,2)
        by (auto split: option.splits)
    qed (use auth_more(3) in auto)
  qed
  from this [OF assms(1)] show ?thesis by auto
qed

text \<open>
  C38: the first request decides. With a redirect URL without a path the listener of \<open>auth\<close> serves
  everything as a callback, so any request that does not carry the state, for a favorite icon say, makes
  the command fail: from then on it cannot end without an error, even if the consent arrives.
\<close>

theorem stray_request_ends_auth:
  assumes "cb_Path target = ''/''" and "mux_clean (fst req) = fst req"
    and "values_get (fst (parse_query (snd req))) ''state'' \<noteq> fl_state f"
  shows "auth_step E f target (Listening None, w) (Listening (Some (Some errStateMismatch)), w) \<and>
    (\<forall>r w'. auth_run E f target (Listening (Some (Some errStateMismatch)), w) (AuthDone r, w') \<longrightarrow> r \<noteq> None)"
proof (intro conjI allI impI)
  have "hd (fst req) = CHR ''/''" "fst req \<noteq> []"
  proof -
    let ?p = "if fst req = [] \<or> hd (fst req) \<noteq> CHR ''/'' then CHR ''/'' # fst req else fst req"
    have "hd ?p = CHR ''/''" "?p \<noteq> []" by simp_all
    from clean_is_abs [OF this] obtain ss where "path_clean ?p = abs_path ss" by metis
    then have "hd (mux_clean (fst req)) = CHR ''/'' \<and> mux_clean (fst req) \<noteq> []"
      by (simp add: mux_clean_def Let_def abs_path_def)
    then show "hd (fst req) = CHR ''/''" "fst req \<noteq> []" using assms(2) by simp_all
  qed
  then have "take 1 (fst req) = ''/''" by (cases "fst req") auto
  moreover have "Complete E f (fst (parse_query (snd req))) w = (Inl errStateMismatch, w)"
    using assms(3) by (simp add: Complete_def)
  ultimately have "auth_handler E f target req w =
      ((Page 400 (lit ''Consent failed: '' @ err_text errStateMismatch @ [] @ [10]), Some (Some errStateMismatch)), w)"
    using assms(2) unfolding auth_handler_def completeConsentRequest_def assms(1) Let_def
    by (simp del: lit_simps err_text.simps)
  from auth_request [OF this, where held = None]
  show "auth_step E f target (Listening None, w) (Listening (Some (Some errStateMismatch)), w)" by simp
  have "(case fst c of Listening held \<Rightarrow> held = Some (Some errStateMismatch) | AuthDone r \<Rightarrow> r \<noteq> None)"
    if "auth_run E f target (Listening (Some (Some errStateMismatch)), w) c" for c
    using that
  proof (induction rule: auth_run.induct)
    case (auth_more c c')
    from auth_more(2,3) show ?case by (cases rule: auth_step.cases) auto
  qed simp
  then show "r \<noteq> None" if "auth_run E f target (Listening (Some (Some errStateMismatch)), w) (AuthDone r, w')" for r w'
    using that by fastforce
qed

subsection \<open>A pasted callback\<close>

text \<open>What a terminal or a shell may leave around a pasted line, and what a browser may append.\<close>

definition wrapping :: "runes \<Rightarrow> bool" where
  "wrapping v \<longleftrightarrow> list_all (\<lambda>r. r = 34 \<or> r = 39) v"

definition fragment :: "string \<Rightarrow> bool" where
  "fragment v \<longleftrightarrow> v = [] \<or> hd v = CHR ''#'' \<and> \<not> is_space (of_char (last v)) \<and> last v \<noteq> CHR 0x22 \<and> last v \<noteq> CHR 0x27"

definition plain_start :: "string \<Rightarrow> bool" where
  "plain_start v \<longleftrightarrow> v \<noteq> [] \<and> \<not> is_space (of_char (hd v)) \<and> hd v \<noteq> CHR 0x22 \<and> hd v \<noteq> CHR 0x27"

lemma trim_both:
  assumes "list_all P a" and "list_all P b" and "s \<noteq> []" and "\<not> P (hd s)" and "\<not> P (last s)"
  shows "rev (dropWhile P (rev (dropWhile P (a @ s @ b)))) = s"
proof -
  have "dropWhile P (a @ s @ b) = s @ b" using assms(1,3,4) by (subst dropWhile_append2) (auto simp: list_all_iff neq_Nil_conv)
  moreover have "dropWhile P (rev b @ rev s) = rev s"
    using assms(2,3,5) by (subst dropWhile_append2) (auto simp: list_all_iff neq_Nil_conv hd_rev dropWhile_eq_self_iff)
  ultimately show ?thesis by simp
qed

lemma lit_append: "lit (a @ b) = lit a @ lit b"
  by (simp add: lit_def)

lemma lit_in: "(of_char c :: int) \<in> set (lit s) \<longleftrightarrow> c \<in> set s"
  by (auto simp: lit_def)

lemma join_set: "x \<in> set (join sep ss) \<Longrightarrow> x \<in> set sep \<or> (\<exists>s\<in>set ss. x \<in> set s)"
  by (induction sep ss rule: join.induct) auto

lemma encode_alphabet:
  assumes "x \<in> set (query_encode vs)"
  shows "unreserved x \<or> x \<in> set ''%+=&''"
  using join_set [OF assms [unfolded query_encode_def]] by (auto simp: query_pair_def dest: escape_alphabet)

lemma encode_plain:
  assumes "x \<in> set (query_encode vs)"
  shows "(of_char x :: nat) < 128" "\<not> is_space (of_char x)" "x \<noteq> CHR 0x22" "x \<noteq> CHR 0x27" "x \<noteq> CHR ''#''" "x \<noteq> CHR ''?''"
proof -
  have i: "(of_char x :: int) = int (of_char x)" by (rule of_nat_of_char [symmetric])
  show "(of_char x :: nat) < 128" "x \<noteq> CHR 0x22" "x \<noteq> CHR 0x27" "x \<noteq> CHR ''#''" "x \<noteq> CHR ''?''"
    using encode_alphabet [OF assms] by (auto simp: unreserved_def Let_def)
  show "\<not> is_space (of_char x)" using encode_alphabet [OF assms] unfolding i is_space_def
    by (auto simp: unreserved_def Let_def)
qed

lemma encode_not_Nil: "vs \<noteq> [] \<Longrightarrow> query_encode vs \<noteq> []"
  by (cases vs rule: remdups_adj.cases) (auto simp: query_encode_def query_pair_def)

text \<open>
  C19: the manual flow reads the callback back. Whatever parameters the callback carries, percent-encoded
  as a browser shows them, and however it was pasted, with white space and quotes around it and with
  a fragment behind it, \<open>manualCallbackQuery\<close> returns exactly those parameters, as long as there is
  a code or an error among them.
\<close>

theorem manual_paste_roundtrip:
  assumes "list_all is_space a" and "list_all is_space b" and "wrapping p" and "wrapping r"
    and "plain_start redirect" and "CHR ''?'' \<notin> set redirect" and "fragment frag"
    and "values_get vs ''code'' \<noteq> [] \<or> values_get vs ''error'' \<noteq> []"
  shows "manualCallbackQuery (a @ p @ lit (redirect @ ''?'' @ query_encode vs @ frag) @ r @ b) = Inr vs"
proof -
  let ?e = "query_encode vs" and ?url = "lit (redirect @ ''?'' @ query_encode vs @ frag)"
  let ?q = "\<lambda>r :: rune. r = 34 \<or> r = 39"
  have vs: "vs \<noteq> []" using assms(8) by (auto simp: values_get_def)
  have e: "?e \<noteq> []" "last ?e \<in> set ?e" using encode_not_Nil [OF vs] by simp_all
  have n: "of_char (CHR 0x22) = (34 :: int)" "of_char (CHR 0x27) = (39 :: int)" by simp_all
  have c34: "(of_char x :: int) = 34 \<longleftrightarrow> x = CHR 0x22" and c39: "(of_char x :: int) = 39 \<longleftrightarrow> x = CHR 0x27" for x
    by (metis n(1) of_char_eq_iff) (metis n(2) of_char_eq_iff)
  have ne: "?url \<noteq> []" by (simp add: lit_append)
  have hd: "\<not> ?q (hd ?url)" "\<not> is_space (hd ?url)"
    using assms(5) c34 c39 by (cases redirect; simp add: plain_start_def)+
  have "last ?url = of_char (last (?e @ frag))" using e by (cases "frag = []") (simp_all add: lit_def last_map)
  then have lst: "\<not> ?q (last ?url)" "\<not> is_space (last ?url)"
    using assms(7) e encode_plain [OF e(2)] c34 c39 by (cases "frag = []"; simp add: fragment_def)+
  let ?x = "p @ ?url @ r"
  have sq: "\<not> is_space 34" "\<not> is_space 39" by (simp_all add: is_space_def)
  have "\<not> is_space (hd ?x)" using assms(3) hd(2) ne sq by (cases p) (auto simp: wrapping_def)
  moreover have "\<not> is_space (last ?x)" using assms(4) lst(2) ne sq by (cases r rule: rev_cases) (auto simp: wrapping_def)
  ultimately have "trim_space (a @ ?x @ b) = ?x"
    unfolding trim_space_def using assms(1,2) ne by (intro trim_both) auto
  moreover have "trim_quotes ?x = ?url"
    unfolding trim_quotes_def Let_def using assms(3,4) ne hd(1) lst(1) by (intro trim_both) (auto simp: wrapping_def)
  ultimately have inp: "trim_quotes (trim_space (a @ p @ ?url @ r @ b)) = ?url" by simp
  have "cut_at 63 ?url = (lit redirect, lit (?e @ frag))"
    using lit_in [of "CHR ''?''" redirect] assms(6) by (simp add: lit_append cut_at_append)
  moreover have "63 \<in> set ?url" by (simp add: lit_append)
  moreover have "fst (cut_at 35 (lit (?e @ frag))) = lit ?e"
  proof -
    have h: "35 \<notin> set (lit ?e)" using lit_in [of "CHR ''#''" ?e] encode_plain(5) by auto
    show ?thesis using assms(7) h
      by (cases frag) (auto simp: fragment_def lit_append cut_at_append cut_at_none)
  qed
  moreover have "utf8 (lit ?e) = ?e" using encode_plain(1) by (intro utf8_lit) blast
  ultimately show ?thesis unfolding manualCallbackQuery_def inp Let_def
    using assms(8) ne parse_encode [OF vs] by (simp del: lit_simps)
qed

subsection \<open>A concrete server\<close>

definition office_url :: "string \<Rightarrow> purl" where
  "office_url p = \<lparr>u_Scheme = ''http'', u_Host = ''127.0.0.1:8888'', u_Path = p, u_RawQuery = [], u_rest = []\<rparr>"

text \<open>\<open>url.Parse\<close> on URLs of this host without query and percent signs.\<close>

definition office :: consent_env where
  "office =
     \<lparr>e_fault = e_fault studio, e_now = e_now studio, n_fail = n_fail studio, n_acted = n_acted studio,
      n_arrive = n_arrive studio, n_catalog = n_catalog studio, n_name = n_name studio,
      n_http_date = n_http_date studio, n_ucd = n_ucd studio, d_pages = d_pages studio, c_err = c_err studio,
      x_exchange = (\<lambda>_ code. if code = ''good'' then Inr ''token'' else Inl (Msg [])), x_auth_url = id,
      x_parse = (\<lambda>redirect. Inr (office_url (drop 21 redirect))), x_url_string = u_Path, x_parse_ip = (\<lambda>_. None)\<rparr>"

definition clerk :: consentServer where
  "clerk =
     \<lparr>cs_flow = \<lparr>fl_account = 1, fl_state = ''secret''\<rparr>, cs_nonce = ''nonce'', cs_startPath = ''/difmsync/start'',
      cs_callbackPath = ''/difmsync/callback''\<rparr>"

definition counter :: store where
  "counter = \<lparr>s_db = one_account, s_tick = 0, s_tx = False\<rparr>"


theorem routes_do_not_collide_witness:
  "map_of (routes ''/difmsync/start'' ''/difmsync/callback'') ''/callback'' = Some Callback"
proof -
  have "consentRoutes office ''http://127.0.0.1:8888/difmsync/callback'' = Inr (''/difmsync/start'', ''/difmsync/callback'')"
    "path_clean ''/difmsync/callback'' = ''/difmsync/callback''" "path_base ''/difmsync/callback'' = ''callback''"
    by code_simp+
  with routes_do_not_collide [of office "''http://127.0.0.1:8888/difmsync/callback''" "''/difmsync/start''" "''/difmsync/callback''"]
  show ?thesis by simp
qed

lemma clerk_facts:
  "values_get [(''code'', ''good''), (''state'', ''secret'')] ''state'' = ''secret''"
  "values_get [(''code'', ''good''), (''state'', ''secret'')] ''error'' = []"
  "values_get [(''code'', ''good''), (''state'', ''secret'')] ''code'' = ''good''"
  "fl_state (cs_flow clerk) = ''secret''" "fl_account (cs_flow clerk) = 1"
  by code_simp+

lemma office_exchange: "Exchange office ''good'' w = (Inr ''token'', w\<lparr>s_tick := s_tick w + 1\<rparr>)"
  by (simp add: Exchange_def office_def)

lemma office_well: "e_fault office n = None"
  by (simp add: office_def studio_def)

lemma clerk_callback:
  obtains w' where "Complete office (cs_flow clerk) [(''code'', ''good''), (''state'', ''secret'')] w = (Inr (), w')"
proof -
  have "\<exists>w'. SetSpotifyRefreshToken office i tok w = (Inr (), w')" for i tok and w :: "'a store_scheme"
    by (simp add: SetSpotifyRefreshToken_def query_def office_well setSpotifyRefreshToken_def)
  then have "\<exists>w'. Complete office (cs_flow clerk) [(''code'', ''good''), (''state'', ''secret'')] w = (Inr (), w')"
    by (simp add: Complete_def clerk_facts office_exchange bind_op_def)
  then show thesis using that by blast
qed

theorem Complete_guarded_witness:
  "has_token 1 (s_db (snd (Complete office (cs_flow clerk) [(''code'', ''good''), (''state'', ''secret'')] counter)))"
proof -
  obtain w' where c: "Complete office (cs_flow clerk) [(''code'', ''good''), (''state'', ''secret'')] counter = (Inr (), w')"
    by (rule clerk_callback)
  from Complete_guarded [OF c] obtain tok where "tok \<noteq> []" "s_db w' = snd (setSpotifyRefreshToken tok 1 (s_db counter))"
    by (auto simp: clerk_def)
  then show ?thesis unfolding c
    by (simp add: has_token_def setSpotifyRefreshToken_def counter_def one_account default_row_def update_where_def)
qed

theorem strangers_learn_nothing_witness:
  "snd (reply_all office clerk [(''/difmsync/start'', ''t=guess''), (''/difmsync/callback'', ''code=good&state=guess'')] counter)
     = counter"
proof -
  let ?reqs = "[(''/difmsync/start'', ''t=guess''), (''/difmsync/callback'', ''code=good&state=guess'')]"
  have "list_all (stranger clerk) ?reqs" by code_simp
  then have "\<forall>req\<in>set ?reqs. stranger clerk req \<and> stranger clerk req" by (simp add: list_all_iff)
  from strangers_learn_nothing [OF this refl refl, where E = office and w = counter] show ?thesis by blast
qed

theorem consent_ends_with_token_witness:
  "\<exists>w'. awaitConsent office clerk counter (Answered None, w') \<and> has_token 1 (s_db w')"
proof -
  let ?req = "(''/difmsync/callback'', ''code=good&state=secret'')"
  have q: "fst (parse_query ''code=good&state=secret'') = [(''code'', ''good''), (''state'', ''secret'')]" by code_simp
  have r: "mux_clean ''/difmsync/callback'' = ''/difmsync/callback''"
    "map_of (routes (cs_startPath clerk) (cs_callbackPath clerk)) ''/difmsync/callback'' = Some Callback" by code_simp+
  obtain w1 where c: "Complete office (cs_flow clerk) [(''code'', ''good''), (''state'', ''secret'')] counter = (Inr (), w1)"
    by (rule clerk_callback)
  have "handleCallback office clerk ''code=good&state=secret'' counter = ((Page 200 (authorized_page @ [10]), True), w1)"
    unfolding handleCallback_def completeConsentRequest_def q c by simp
  then have h: "handler office clerk ?req counter = ((Page 200 (authorized_page @ [10]), True), w1)"
    unfolding handler_def fst_conv snd_conv r Let_def by simp
  have "awaitConsent office clerk counter (Serving True, w1)"
    using served [OF listening request [OF h, where signaled = False]] by simp
  from served [OF this consented] have a: "awaitConsent office clerk counter (Answered None, w1)" .
  have "account_exists (fl_account (cs_flow clerk)) (s_db counter)"
    by (simp add: account_exists_def counter_def one_account default_row_def clerk_def)
  from consent_ends_with_token [OF a this] a show ?thesis by (auto simp: clerk_def)
qed

theorem manual_paste_roundtrip_witness:
  "manualCallbackQuery ([32, 34] @ lit (''http://127.0.0.1:8888/callback'' @ ''?'' @
     query_encode [(''code'', ''a b/c''), (''state'', ''s&t'')] @ ''#_=_'') @ [34, 10]) = Inr [(''code'', ''a b/c''), (''state'', ''s&t'')]"
  using manual_paste_roundtrip [of "[32]" "[10]" "[34]" "[34]" "''http://127.0.0.1:8888/callback''" "''#_=_''"
      "[(''code'', ''a b/c''), (''state'', ''s&t'')]"]
  by (simp add: is_space_def wrapping_def plain_start_def fragment_def values_get_def del: lit_simps)

theorem auth_ends_with_token_witness:
  "\<exists>w'. auth_run office (cs_flow clerk) \<lparr>cb_Addr = [], cb_Path = ''/callback''\<rparr> (Listening None, counter) (AuthDone None, w') \<and>
     has_token 1 (s_db w')"
proof -
  let ?req = "(''/callback'', ''code=good&state=secret'')" and ?t = "\<lparr>cb_Addr = [], cb_Path = ''/callback''\<rparr>"
  have q: "fst (parse_query ''code=good&state=secret'') = [(''code'', ''good''), (''state'', ''secret'')]" by code_simp
  have m: "mux_clean ''/callback'' = ''/callback''" by code_simp
  obtain w1 where c: "Complete office (cs_flow clerk) [(''code'', ''good''), (''state'', ''secret'')] counter = (Inr (), w1)"
    by (rule clerk_callback)
  obtain pg where h: "auth_handler office (cs_flow clerk) ?t ?req counter = ((pg, Some None), w1)"
    unfolding auth_handler_def completeConsentRequest_def fst_conv snd_conv q m c Let_def by simp
  have "auth_run office (cs_flow clerk) ?t (Listening None, counter) (Listening (Some None), w1)"
    using auth_more [OF auth_here auth_request [OF h, where held = None]] by simp
  from auth_more [OF this auth_result]
  have a: "auth_run office (cs_flow clerk) ?t (Listening None, counter) (AuthDone None, w1)" .
  have "account_exists (fl_account (cs_flow clerk)) (s_db counter)"
    by (simp add: account_exists_def counter_def one_account default_row_def clerk_def)
  from auth_ends_with_token [OF a this] a show ?thesis by (auto simp: clerk_facts)
qed

theorem stray_request_ends_auth_witness:
  "auth_step office (cs_flow clerk) \<lparr>cb_Addr = ''127.0.0.1:8888'', cb_Path = ''/''\<rparr> (Listening None, counter)
     (Listening (Some (Some errStateMismatch)), counter)"
proof -
  have "mux_clean (fst (''/favicon.ico'', [])) = fst (''/favicon.ico'', [] :: string)"
    "values_get (fst (parse_query (snd (''/favicon.ico'', [])))) ''state'' \<noteq> fl_state (cs_flow clerk)" by code_simp+
  from stray_request_ends_auth [OF _ this, of "\<lparr>cb_Addr = ''127.0.0.1:8888'', cb_Path = ''/''\<rparr>" office counter]
  show ?thesis by simp
qed

end
