(* ===== verification/RunnerLaws.thy ===== *)
theory RunnerLaws
  imports Runner ConsentLaws PassLaws
begin

text \<open>
  What the runner does to the stored refresh token: nothing it does changes one except the engine's own
  rotation, a consent, and the clearing of a token Spotify has just rejected.
\<close>

subsection \<open>The stored tokens\<close>

definition tokens :: "db \<Rightarrow> (int \<times> string) list" where
  "tokens d = map (\<lambda>a. (ar_id a, ar_token a)) (accounts d)"

lemma tokens_same: "accounts d' = accounts d \<Longrightarrow> tokens d' = tokens d"
  by (simp add: tokens_def)

lemma tokens_watermarked: "accounts d' = watermarked i m (accounts d) \<Longrightarrow> tokens d' = tokens d"
  by (auto simp: tokens_def watermarked_def update_where_def split: option.splits)

lemma tokens_set: "tokens (snd (setSpotifyRefreshToken tok i d)) = map (\<lambda>(j, t). (j, if j = i then tok else t)) (tokens d)"
  by (simp add: tokens_def setSpotifyRefreshToken_def update_where_def)

lemma tokens_clear:
  "tokens (snd (clearSpotifyRefreshTokenIf i rejected d)) =
     map (\<lambda>(j, t). (j, if j = i \<and> t = rejected then [] else t)) (tokens d)"
  by (simp add: tokens_def clearSpotifyRefreshTokenIf_def update_where_def Let_def)

lemma pass_tokens:
  assumes "pass E g dry w = ((st, err, g'), w')"
  shows "tokens (s_db w') = tokens (s_db w)"
proof (cases dry)
  case True
  with assms have "pass E g True w = ((st, err, g'), w')" by simp
  from runs_only_frame(1) [OF dry_pass(1) [OF this]] show ?thesis by (rule tokens_same)
next
  case False
  with assms have "pass E g False w = ((st, err, g'), w')" by simp
  then show ?thesis
  proof (cases rule: real_pass)
    case (early e)
    then show ?thesis by simp
  next
    case (ran row likes n)
    show ?thesis
    proof (cases err)
      case None
      show ?thesis by (rule tokens_watermarked [OF ran(6) [OF None]])
    next
      case (Some e)
      show ?thesis by (rule tokens_same [OF ran(5) [OF Some]])
    qed
  qed
qed

lemma RunOnce_tokens:
  assumes "RunOnce E k dry dm w = (r, dm', w')"
  shows "tokens (s_db w') = tokens (s_db w)"
proof -
  obtain st err g' w1 where p: "pass E (dm_engine dm) dry w = ((st, err, g'), w1)"
    by (cases "pass E (dm_engine dm) dry w") auto
  have "accounts (s_db w') = accounts (s_db w1)" by (rule runs_only_frame(1) [OF RunOnce_frame(4) [OF p assms]])
  from tokens_same [OF this] pass_tokens [OF p] show ?thesis by simp
qed

lemma loop_step_tokens:
  assumes "loop_step E k interval dry (s, dm, w) (s', dm', w')"
  shows "tokens (s_db w') = tokens (s_db w)"
proof -
  obtain d where "s = Waiting d" using assms by (cases s) (auto elim: returned_stepE)
  with assms have step: "loop_step E k interval dry (Waiting d, dm, w) (s', dm', w')" by simp
  show ?thesis by (rule loop_stepE [OF step]) (auto dest: RunOnce_tokens)
qed

lemma newEngine_db:
  assumes "newEngine E cf fo a w = (r, w')"
  shows "s_db w' = s_db w"
proof -
  have "s_db (snd (PlaylistName E pl w)) = s_db w" for pl
    by (auto simp: PlaylistName_def do_req_def serve_def Let_def simp del: lit_simps split: prod.split sum.split body.split)
  then have "PlaylistName E pl w = (q, v) \<Longrightarrow> s_db v = s_db w" for pl q v by (metis snd_conv)
  then show ?thesis using assms by (auto simp: newEngine_def simp del: lit_simps split: option.splits prod.splits sum.splits)
qed

lemma ClearSpotifyRefreshTokenIf_result:
  assumes "ClearSpotifyRefreshTokenIf E i held w = (r, w')"
  shows "r = Inl e \<Longrightarrow> s_db w' = s_db w"
    "r = Inr b \<Longrightarrow> s_db w' = snd (clearSpotifyRefreshTokenIf i held (s_db w)) \<and> b = ((i, held) \<in> set (tokens (s_db w)))"
proof -
  note W = write_op [OF assms [unfolded ClearSpotifyRefreshTokenIf_def]]
  have err: "fails_clean (\<lambda>_. clearSpotifyRefreshTokenIf i held)"
    by (simp add: fails_clean_def clearSpotifyRefreshTokenIf_def Let_def)
  show "r = Inl e \<Longrightarrow> s_db w' = s_db w" by (rule W(3) [OF err])
  show "r = Inr b \<Longrightarrow> s_db w' = snd (clearSpotifyRefreshTokenIf i held (s_db w)) \<and> b = ((i, held) \<in> set (tokens (s_db w)))"
    using W(4) [OF err, of b]
    by (auto simp: clearSpotifyRefreshTokenIf_def Let_def count_where_def tokens_def filter_empty_conv)
qed

lemma rotated_result:
  assumes "rotated E i tok held w = (held', w')"
  shows "s_db w' = s_db w \<and> held' = held \<or>
    tok \<noteq> [] \<and> held' = tok \<and> s_db w' = snd (setSpotifyRefreshToken tok i (s_db w))"
proof (cases "tok = [] \<or> tok = held")
  case True
  then show ?thesis using assms by (simp add: rotated_def)
next
  case False
  obtain r v where s: "SetSpotifyRefreshToken E i tok w = (r, v)" by fastforce
  from SetSpotifyRefreshToken_result(2) [OF s] show ?thesis
    using assms False s by (cases r) (auto simp: rotated_def)
qed


subsection \<open>What one move can do\<close>

text \<open>How a move of the runner changes the tokens: not at all, to a new one, or from the rejected one.\<close>

lemma await_step_db:
  assumes "await_step E srv cw cw'"
  shows "s_db (snd cw') = s_db (snd cw) \<or>
    (\<exists>tok. tok \<noteq> [] \<and> s_db (snd cw') = snd (setSpotifyRefreshToken tok (fl_account (cs_flow srv)) (s_db (snd cw))))"
  using assms
proof (cases rule: await_step.cases)
  case (request req v pg ok v' signaled)
  from handler_token [OF request(3)] request(1,2) show ?thesis by auto
next
  case (poll_finds v v' signaled)
  with tokenStored_result(1) [OF poll_finds(3)] show ?thesis by simp
next
  case (poll_waits v r v' signaled)
  with tokenStored_result(1) [OF poll_waits(3)] show ?thesis by simp
qed auto

lemma run_step_tokens:
  assumes "run_step E k cf (ph, fo, w) (ph', fo', w')"
  obtains (kept) "tokens (s_db w') = tokens (s_db w)"
  | (stored) i tok where "tok \<noteq> []" "tokens (s_db w') = map (\<lambda>(j, t). (j, if j = i then tok else t)) (tokens (s_db w))"
  | (dropped) a held e where "ph = Stopped a held (Some e)" "errors_is e SpErrGrantRevoked" "ph' = Top"
      "tokens (s_db w') = map (\<lambda>(j, t). (j, if j = A_ID a \<and> t = held then [] else t)) (tokens (s_db w))"
  using assms
proof (cases rule: run_step.cases)
  case (waits srv c c')
  from await_step_db [OF waits(4)] show thesis using kept stored tokens_set by (metis snd_conv)
next
  case (rotates_early a tok held held')
  from rotated_result [OF this(4)] show thesis using kept stored tokens_set by metis
next
  case (rotates a tok held held' ls dm)
  from rotated_result [OF this(4)] show thesis using kept stored tokens_set by metis
next
  case (loops ls dm ls' dm' a held)
  from loop_step_tokens [OF loops(4)] show thesis by (rule kept)
next
  case (clear_failed err a held e)
  from ClearSpotifyRefreshTokenIf_result(1) [OF clear_failed(5) refl] show thesis by (intro kept) simp
next
  case (cleared err a held)
  from ClearSpotifyRefreshTokenIf_result(2) [OF cleared(5) refl] have
    "tokens (s_db w') = map (\<lambda>(j, t). (j, if j = A_ID a \<and> t = held then [] else t)) (tokens (s_db w))"
    by (simp add: tokens_clear)
  with cleared show thesis by (cases err) (auto simp: revoked_def intro: dropped)
next
  case (retries err a held)
  from ClearSpotifyRefreshTokenIf_result(2) [OF retries(5) refl] have
    "tokens (s_db w') = map (\<lambda>(j, t). (j, if j = A_ID a \<and> t = held then [] else t)) (tokens (s_db w))"
    by (simp add: tokens_clear)
  with retries show thesis by (cases err) (auto simp: revoked_def intro: dropped)
qed (auto dest: GetAccount_result(2) newEngine_db intro: kept)

text \<open>
  C12: the runner clears only the token that was rejected. If a move of the daemon's runner takes an
  account's refresh token away, the loop has just returned with a revoked grant, the account is the
  engine's, and the stored token is the one that engine held, rotations included. A token that
  another process stored in the meantime survives.
\<close>

theorem only_rejected_cleared:
  assumes "run_step E k cf (ph, fo, w) (ph', fo', w')" and "distinct (map ar_id (accounts (s_db w)))"
    and "row \<in> set (accounts (s_db w))" and "ar_token row \<noteq> []"
    and "row' \<in> set (accounts (s_db w'))" and "ar_id row' = ar_id row" and "ar_token row' = []"
  shows "\<exists>a e. ph = Stopped a (ar_token row) (Some e) \<and> errors_is e SpErrGrantRevoked \<and> A_ID a = ar_id row"
proof -
  have d: "distinct (map fst (tokens (s_db w)))" using assms(2) by (simp add: tokens_def o_def)
  have r: "(ar_id row, ar_token row) \<in> set (tokens (s_db w))" using assms(3) by (auto simp: tokens_def)
  have r': "(ar_id row, []) \<in> set (tokens (s_db w'))" using image_eqI [of _ "\<lambda>a. (ar_id a, ar_token a)", OF _ assms(5)] assms(6,7) by (simp add: tokens_def)
  have uniq: "t = ar_token row" if "(ar_id row, t) \<in> set (tokens (s_db w))" for t
    using eq_key_imp_eq_value [OF d that r] .
  from assms(1) show ?thesis
  proof (cases rule: run_step_tokens)
    case kept
    then show ?thesis using uniq r' assms(4) by metis
  next
    case (stored i tok)
    then show ?thesis using uniq r' assms(4) by (auto split: if_splits)
  next
    case (dropped a held e)
    with r' obtain t where "(ar_id row, t) \<in> set (tokens (s_db w))" "[] = (if ar_id row = A_ID a \<and> t = held then [] else t)"
      by auto
    with uniq assms(4) have "A_ID a = ar_id row" "held = ar_token row" by (auto split: if_splits)
    with dropped(1,2) show ?thesis by auto
  qed
qed


text \<open>
  The runner's two reads of the account disagree about a shutdown. When the read at the head of its
  loop fails because the context was canceled, the daemon ends without an error; when the very same
  failure hits the read after a completed consent, it ends with that error, which the process reports
  as a failure.
\<close>

lemma reread_not_clean:
  assumes "GetAccount E (cf_label cf) w = (Inl e, w')" and "errors_is e CtxCanceled"
  shows "run_step E k cf (Top, fo, w) (Ended None, fo, w') \<and>
    run_step E k cf (Asking srv (Answered None), fo, w) (Ended (Some e), fo, w') \<and>
    (\<forall>c. run_step E k cf (Asking srv (Answered None), fo, w) c \<longrightarrow> c = (Ended (Some e), fo, w'))"
proof (intro conjI allI impI)
  show "run_step E k cf (Top, fo, w) (Ended None, fo, w')"
    using unreadable [OF assms(1), of k fo] assms(2) by (simp add: done_result_def)
  show "run_step E k cf (Asking srv (Answered None), fo, w) (Ended (Some e), fo, w')"
    by (rule reread_failed [OF assms(1)])
  show "c = (Ended (Some e), fo, w')" if "run_step E k cf (Asking srv (Answered None), fo, w) c" for c
    by (rule asking_stepE [OF that]) (use assms(1) in \<open>auto elim: answered_stepE\<close>)
qed

subsection \<open>Shutdown\<close>

text \<open>What the loop can have returned: nothing, a revoked grant, or something else than a cancellation.\<close>

fun calm :: "gerr option \<Rightarrow> bool" where
  "calm None \<longleftrightarrow> True"
| "calm (Some e) \<longleftrightarrow> errors_is e SpErrGrantRevoked \<or> \<not> errors_is e CtxCanceled"

fun calm_phase :: "phase \<Rightarrow> bool" where
  "calm_phase (Looping a held (Returned r) dm) \<longleftrightarrow> calm r"
| "calm_phase (Stopped a held r) \<longleftrightarrow> calm r"
| "calm_phase ph \<longleftrightarrow> True"

lemma calm_done: "calm (done_result e)" "done_result e = Some f \<Longrightarrow> \<not> errors_is f CtxCanceled"
  by (auto simp: done_result_def split: if_splits)

lemma await_shape: "await E cf a state nonce listen = Ended (Some e) \<Longrightarrow> \<not> errors_is e CtxCanceled"
  "calm_phase (await E cf a state nonce listen)"
  using calm_done(2) by (auto simp: await_def Let_def split: if_splits option.splits sum.splits)

lemma newEngine_calm:
  assumes "newEngine E cf fo a w = (Inl e, w')"
  shows "calm (Some e)"
  using assms by (auto simp: newEngine_def auth_client_def split: option.splits prod.splits sum.splits if_splits)

lemma run_step_calm:
  assumes "run_step E k cf (ph, fo, w) (ph', fo', w')" and "calm_phase ph"
  shows "calm_phase ph'"
  using assms(1)
proof (cases rule: run_step.cases)
  case (loops ls dm ls' dm' a held)
  obtain d where "ls = Waiting d" using loops(4) by (cases ls) (auto elim: returned_stepE)
  with loops(4) have "loop_step E k (cf_interval cf) (cf_dryRun cf) (Waiting d, dm, w) (ls', dm', w')" by simp
  then show ?thesis unfolding loops(2)
    by (rule loop_stepE) (auto simp: revoked_def calm_done split: option.splits)
next
  case (not_built a e held)
  then show ?thesis using newEngine_calm by simp
next
  case (rotates a tok held held' ls dm)
  with assms(2) show ?thesis by (cases ls) auto
qed (use assms(2) await_shape(2) in auto)

lemma run_calm:
  assumes "(run_step E k cf)\<^sup>*\<^sup>* (Top, fo0, w0) c"
  shows "calm_phase (fst c)"
  using assms
proof (induction rule: rtranclp_induct)
  case (step c d)
  then show ?case using run_step_calm by (metis prod.collapse)
qed simp

lemma ended_by_cancel:
  assumes "run_step E k cf (ph, fo, w) (Ended (Some e), fo', w')" and "calm_phase ph" and "errors_is e CtxCanceled"
  shows "fo' = fo \<and>
    ((\<exists>srv. ph = Asking srv (Answered None) \<and> GetAccount E (cf_label cf) w = (Inl e, w')) \<or>
     (\<exists>a held r f. ph = Stopped a held (Some r) \<and> errors_is r SpErrGrantRevoked \<and>
        ClearSpotifyRefreshTokenIf E (A_ID a) held w = (Inl f, w') \<and> e = Wrap (lit ''clear revoked refresh token: '') f []))"
  using assms(1)
proof (cases rule: run_step.cases)
  case (unauthorized a state nonce listen)
  then show ?thesis using await_shape(1) assms(3) by metis
next
  case (clear_failed err a held f)
  then show ?thesis by (auto simp: revoked_def split: option.splits)
next
  case (returns a held)
  then show ?thesis using assms(2,3) by (simp add: revoked_def)
qed (use assms(3) calm_done(2) in \<open>auto simp: consent_lied_def simp del: lit_simps\<close>)

text \<open>
  C13: a shutdown of the daemon is a clean stop except in one place. Whenever the runner ends with an error
  that is a cancellation, it was on its way from a completed consent and the second read of the account
  failed so; or it was clearing a revoked token, a statement the code shields from the shutdown with
  \<open>WithoutCancel\<close>. In every other state a cancellation ends it without an error, and the loop never
  returns one.
\<close>

theorem shutdown_errors:
  assumes "(run_step E k cf)\<^sup>*\<^sup>* (Top, fo0, w0) (Ended (Some e), fo, w)" and "errors_is e CtxCanceled"
  shows "\<exists>ph w1. (run_step E k cf)\<^sup>*\<^sup>* (Top, fo0, w0) (ph, fo, w1) \<and>
    ((\<exists>srv. ph = Asking srv (Answered None) \<and> GetAccount E (cf_label cf) w1 = (Inl e, w)) \<or>
     (\<exists>a held r f. ph = Stopped a held (Some r) \<and> errors_is r SpErrGrantRevoked \<and>
        ClearSpotifyRefreshTokenIf E (A_ID a) held w1 = (Inl f, w) \<and> e = Wrap (lit ''clear revoked refresh token: '') f []))"
  using assms(1)
proof (cases rule: rtranclp.cases)
  case (rtrancl_into_rtrancl c)
  obtain ph fo1 w1 where c: "c = (ph, fo1, w1)" by (cases c)
  have run: "(run_step E k cf)\<^sup>*\<^sup>* (Top, fo0, w0) (ph, fo1, w1)" and step: "run_step E k cf (ph, fo1, w1) (Ended (Some e), fo, w)"
    using rtrancl_into_rtrancl c by simp_all
  have "calm_phase ph" using run_calm [OF run] by simp
  from ended_by_cancel [OF step this assms(2)] run show ?thesis by blast
qed

subsection \<open>Concrete moves\<close>

definition household :: config where
  "household =
     \<lparr>cf_label = ''default'', cf_member = ''m'', cf_playlist = ''PL'', cf_difm = member, cf_auto = 9 / 10, cf_review = 1 / 2,
      cf_interval = 15 * minute, cf_dryRun = False, cf_loop = True, cf_authAddr = '':8888'',
      cf_redirect = ''http://127.0.0.1:8888/difmsync/callback'', cf_backupDir = [], cf_backupKeep = 14\<rparr>"

definition stale :: account_row where
  "stale = default_row\<lparr>ar_token := ''old''\<rparr>"

definition cellar :: world where
  "cellar = shelf\<lparr>s_db := one_account\<lparr>accounts := [stale]\<rparr>\<rparr>"

lemma cellar_clear:
  obtains w' where "ClearSpotifyRefreshTokenIf office 1 ''old'' cellar = (Inr True, w')"
    "accounts (s_db w') = [stale\<lparr>ar_token := []\<rparr>]"
  by (rule that [of "snd (ClearSpotifyRefreshTokenIf office 1 ''old'' cellar)"])
    (simp_all add: ClearSpotifyRefreshTokenIf_def query_def office_well clearSpotifyRefreshTokenIf_def count_where_def
      update_where_def cellar_def stale_def default_row_def)

theorem only_rejected_cleared_witness:
  "\<exists>w'. run_step office (\<lambda>_. good_disk) household
      (Stopped (toAccount stale) ''old'' (Some (Sentinel SpErrGrantRevoked)), [], cellar) (Top, [], w') \<and>
    (\<exists>a e. Stopped (toAccount stale) ''old'' (Some (Sentinel SpErrGrantRevoked)) = Stopped a (ar_token stale) (Some e) \<and>
      A_ID a = 1)"
proof -
  obtain w' where c: "ClearSpotifyRefreshTokenIf office 1 ''old'' cellar = (Inr True, w')"
    "accounts (s_db w') = [stale\<lparr>ar_token := []\<rparr>]" by (rule cellar_clear)
  have i: "A_ID (toAccount stale) = 1" by (simp add: stale_def default_row_def toAccount_def)
  have step: "run_step office (\<lambda>_. good_disk) household
      (Stopped (toAccount stale) ''old'' (Some (Sentinel SpErrGrantRevoked)), [], cellar) (Top, [], w')"
    by (rule cleared) (simp_all add: revoked_def i c(1))
  from only_rejected_cleared [OF step, of stale "stale\<lparr>ar_token := []\<rparr>"] c(2)
  have "\<exists>a e. Stopped (toAccount stale) ''old'' (Some (Sentinel SpErrGrantRevoked)) = Stopped a (ar_token stale) (Some e) \<and>
      A_ID a = 1"
    by (auto simp: cellar_def shelf_def stale_def default_row_def toAccount_def)
  with step show ?thesis by blast
qed

text \<open>The daemon asks, the consent comes in, and the shutdown arrives before the account is read again.\<close>

definition dusk :: consent_env where
  "dusk = office\<lparr>e_fault := \<lambda>n. if n < 100 then None else Some (Sentinel CtxCanceled)\<rparr>"

definition dusk_server :: consentServer where
  "dusk_server =
     \<lparr>cs_flow = \<lparr>fl_account = 1, fl_state = ''0a0a''\<rparr>, cs_nonce = ''0a0a'', cs_startPath = ''/difmsync/start'',
      cs_callbackPath = ''/difmsync/callback''\<rparr>"

lemma dusk_asks: "await dusk household (toAccount default_row) (Inr [10, 10]) (Inr [10, 10]) None = Asking dusk_server (Serving False)"
proof -
  have "consentRoutes dusk ''http://127.0.0.1:8888/difmsync/callback'' = Inr (''/difmsync/start'', ''/difmsync/callback'')"
    "mux_panics (map fst (routes ''/difmsync/start'' ''/difmsync/callback'') @ [''/'']) = False"
    "randomToken [10, 10] = ''0a0a''" by code_simp+
  then show ?thesis
    by (simp add: await_def newConsentFlow_def open_consent_def household_def dusk_server_def serveHTTP_def Let_def toAccount_def
        default_row_def del: lit_simps)
qed

lemma dusk_callback:
  assumes "s_tick (w :: 'z store_scheme) = 1"
  obtains w' pg where "handler dusk dusk_server (''/difmsync/callback'', ''code=good&state=0a0a'') w = ((pg, True), w')"
    "s_tick w' = 3"
proof -
  let ?q = "[(''code'', ''good''), (''state'', ''0a0a'')]"
  have q: "fst (parse_query ''code=good&state=0a0a'') = ?q" by code_simp
  have r: "mux_clean ''/difmsync/callback'' = ''/difmsync/callback''"
    "map_of (routes (cs_startPath dusk_server) (cs_callbackPath dusk_server)) ''/difmsync/callback'' = Some Callback" by code_simp+
  have v: "values_get ?q ''state'' = ''0a0a''" "values_get ?q ''error'' = []" "values_get ?q ''code'' = ''good''" by code_simp+
  obtain w' where c: "Complete dusk (cs_flow dusk_server) ?q w = (Inr (), w')" "s_tick w' = 3"
    using assms
    by (simp add: Complete_def v dusk_server_def Exchange_def dusk_def office_def bind_op_def SetSpotifyRefreshToken_def query_def
        setSpotifyRefreshToken_def)
  have "handleCallback dusk dusk_server ''code=good&state=0a0a'' w = ((Page 200 (authorized_page @ [10]), True), w')"
    unfolding handleCallback_def completeConsentRequest_def q c(1) by simp
  then have h: "handler dusk dusk_server (''/difmsync/callback'', ''code=good&state=0a0a'') w = ((Page 200 (authorized_page @ [10]), True), w')"
    unfolding handler_def fst_conv snd_conv r Let_def by simp
  show thesis by (rule that [OF h c(2)])
qed

lemma dusk_end:
  obtains w where "(run_step dusk (\<lambda>_. good_disk) household)\<^sup>*\<^sup>* (Top, [], shelf)
    (Ended (Some (Wrap (lit ''sqlite.GetAccount: '') (Sentinel CtxCanceled) [])), [], w)"
proof -
  let ?run = "run_step dusk (\<lambda>_. good_disk) household" and ?e = "Wrap (lit ''sqlite.GetAccount: '') (Sentinel CtxCanceled) []"
  let ?w1 = "shelf\<lparr>s_tick := 1\<rparr>"
  have g: "GetAccount dusk (cf_label household) shelf = (Inr (toAccount default_row), ?w1)"
    by (simp add: GetAccount_def query_def dusk_def household_def shelf_def getAccountByLabel_def one_account)
      (simp add: default_row_def)
  have "A_SpotifyRefreshToken (toAccount default_row) = []" by (simp add: toAccount_def default_row_def)
  from unauthorized [OF g this, of "\<lambda>_. good_disk" "[]" "Inr [10, 10]" "Inr [10, 10]" None]
  have 1: "?run (Top, [], shelf) (Asking dusk_server (Serving False), [], ?w1)" unfolding dusk_asks .
  have "s_tick ?w1 = 1" by simp
  then obtain w2 pg where h: "handler dusk dusk_server (''/difmsync/callback'', ''code=good&state=0a0a'') ?w1 = ((pg, True), w2)"
    and t: "s_tick w2 = 3" by (rule dusk_callback)
  have 2: "?run (Asking dusk_server (Serving False), [], ?w1) (Asking dusk_server (Serving True), [], w2)"
    using waits [OF request [OF h, where signaled = False]] by simp
  have "s_tick w2 \<le> 100" using t by simp
  from waits [OF idle [OF this]]
  have 3: "?run (Asking dusk_server (Serving True), [], w2) (Asking dusk_server (Serving True), [], w2\<lparr>s_tick := 100\<rparr>)" .
  have 4: "?run (Asking dusk_server (Serving True), [], w2\<lparr>s_tick := 100\<rparr>) (Asking dusk_server (Answered None), [], w2\<lparr>s_tick := 100\<rparr>)"
    by (rule waits [OF consented])
  have "GetAccount dusk (cf_label household) (w2\<lparr>s_tick := 100\<rparr>) = (Inl ?e, w2\<lparr>s_tick := 101\<rparr>)"
    by (simp add: GetAccount_def query_def dusk_def del: lit_simps)
  from reread_failed [OF this]
  have 5: "?run (Asking dusk_server (Answered None), [], w2\<lparr>s_tick := 100\<rparr>) (Ended (Some ?e), [], w2\<lparr>s_tick := 101\<rparr>)" .
  from 1 2 3 4 5 have "?run\<^sup>*\<^sup>* (Top, [], shelf) (Ended (Some ?e), [], w2\<lparr>s_tick := 101\<rparr>)"
    by (meson converse_rtranclp_into_rtranclp rtranclp.rtrancl_refl)
  then show thesis by (rule that)
qed

theorem shutdown_errors_witness:
  "\<exists>srv w1 w e. (run_step dusk (\<lambda>_. good_disk) household)\<^sup>*\<^sup>* (Top, [], shelf) (Asking srv (Answered None), [], w1) \<and>
     GetAccount dusk ''default'' w1 = (Inl e, w) \<and> errors_is e CtxCanceled \<and>
     (run_step dusk (\<lambda>_. good_disk) household)\<^sup>*\<^sup>* (Top, [], shelf) (Ended (Some e), [], w)"
proof -
  let ?e = "Wrap (lit ''sqlite.GetAccount: '') (Sentinel CtxCanceled) []"
  obtain w where w: "(run_step dusk (\<lambda>_. good_disk) household)\<^sup>*\<^sup>* (Top, [], shelf) (Ended (Some ?e), [], w)" by (rule dusk_end)
  have c: "errors_is ?e CtxCanceled" by simp
  have "?e \<noteq> Wrap (lit ''clear revoked refresh token: '') f []" for f by simp
  then obtain srv w1 where r: "(run_step dusk (\<lambda>_. good_disk) household)\<^sup>*\<^sup>* (Top, [], shelf) (Asking srv (Answered None), [], w1)"
    and "GetAccount dusk (cf_label household) w1 = (Inl ?e, w)"
    using shutdown_errors [OF w c] by blast
  moreover have "cf_label household = ''default''" by (simp add: household_def)
  ultimately have "GetAccount dusk ''default'' w1 = (Inl ?e, w)" by simp
  with r w c show ?thesis by blast
qed

end
