(* ===== verification/ReviewQueue.thy ===== *)
theory ReviewQueue
  imports StoreOps
begin

text \<open>
  The review queue as its users see it: a book that maps an account and a track to the state of
  the decision on it. Asking about a track enters it as pending, once; deciding changes the entry
  that is there. The queue's tables and queries implement this book: every sequence of
  \<open>enqueueReview\<close> and \<open>resolveReview\<close> has the effect of the corresponding moves of the book.
\<close>

subsection \<open>Refinement, step by step\<close>

text \<open>
  The interface between a concrete machine and its specification. \<open>ok\<close> says when a step is
  allowed.
\<close>

locale refines =
  fixes view :: "'c \<Rightarrow> 'a"
    and cstep :: "'e \<Rightarrow> 'c \<Rightarrow> 'c"
    and astep :: "'e \<Rightarrow> 'a \<Rightarrow> 'a"
    and ok :: "'e \<Rightarrow> 'c \<Rightarrow> bool"
  assumes simulates: "ok e c \<Longrightarrow> view (cstep e c) = astep e (view c)"
    and still_ok: "ok e c \<Longrightarrow> ok e' c \<Longrightarrow> ok e' (cstep e c)"
begin

lemma ok_run: "\<forall>e\<in>set es. ok e c \<Longrightarrow> ok e' c \<Longrightarrow> ok e' (fold cstep es c)"
  by (induction es arbitrary: c) (auto simp: still_ok)

lemma run: "\<forall>e\<in>set es. ok e c \<Longrightarrow> view (fold cstep es c) = fold astep es (view c)"
proof (induction es arbitrary: c)
  case (Cons e es)
  then have "\<forall>x\<in>set es. ok x (cstep e c)" by (simp add: still_ok)
  with Cons show ?case by (simp add: simulates)
qed simp

end

subsection \<open>The book\<close>

type_synonym book = "int \<times> int \<Rightarrow> (string \<times> string option) option"

datatype move = Ask gotime review_row | Decide gotime string int int

fun play :: "move \<Rightarrow> book \<Rightarrow> book" where
  "play (Ask now p) b =
     (let k = (rr_account p, rr_track p) in if b k = None then b(k \<mapsto> (''pending'', None)) else b)"
| "play (Decide now status acct track) b =
     (if b (acct, track) = None then b else b((acct, track) \<mapsto> (status, Some (format_time now))))"

fun move_db :: "move \<Rightarrow> db \<Rightarrow> db" where
  "move_db (Ask now p) d = snd (enqueueReview now p d)"
| "move_db (Decide now status acct track) d = snd (resolveReview now status acct track d)"

fun move_ok :: "move \<Rightarrow> db \<Rightarrow> bool" where
  "move_ok (Ask now p) d \<longleftrightarrow> rr_reason p \<in> set reasons \<and> account_exists (rr_account p) d"
| "move_ok (Decide now status acct track) d \<longleftrightarrow> status \<in> set statuses"

definition book_of :: "db \<Rightarrow> book" where
  "book_of d = (\<lambda>(acct, track). decision d acct track)"

lemma resolve_decisions:
  assumes "status \<in> set statuses"
  shows "decision (snd (resolveReview now status acct track d)) a t =
    (if a = acct \<and> t = track \<and> queued d acct track then Some (status, Some (format_time now)) else decision d a t)"
proof -
  let ?f = "\<lambda>r. r\<lparr>rr_status := status, rr_resolved := Some (format_time now)\<rparr>"
  have q: "same_review a t (?f r) = same_review a t r" for r by (simp add: same_review_def)
  have db: "snd (resolveReview now status acct track d) =
      d\<lparr>review_queue := update_where (same_review acct track) ?f (review_queue d)\<rparr>"
    using assms by (simp add: resolveReview_def Let_def)
  have "decision (d\<lparr>review_queue := update_where (same_review acct track) ?f (review_queue d)\<rparr>) a t =
      map_option (\<lambda>r. if same_review acct track r then (status, Some (format_time now)) else (rr_status r, rr_resolved r))
        (List.find (same_review a t) (review_queue d))"
    by (cases "List.find (same_review a t) (review_queue d)")
      (simp_all add: decision_def find_update_where [where f = ?f and q = "same_review a t", OF q])
  moreover have "same_review acct track r \<longleftrightarrow> a = acct \<and> t = track"
    if "List.find (same_review a t) (review_queue d) = Some r" for r
    using that by (auto simp: find_Some_iff same_review_def)
  ultimately show ?thesis
    unfolding db using not_queued_decision [of d a t]
    by (cases "List.find (same_review a t) (review_queue d)") (auto simp: decision_def)
qed

interpretation queue_book: refines book_of move_db play move_ok
proof
  fix e d
  assume ok: "move_ok e d"
  show "book_of (move_db e d) = play e (book_of d)"
  proof (cases e)
    case (Ask now p)
    have ne: "fst (enqueueReview now p d) = Inr ()" using ok Ask by (auto simp: enqueueReview_def)
    obtain d' where d': "enqueueReview now p d = (Inr (), d')" using ne by (metis prod.collapse)
    have "decision d' a t =
        (if a = rr_account p \<and> t = rr_track p \<and> decision d a t = None then Some (''pending'', None)
         else decision d a t)" for a t
      using enqueue_decisions [where now = now and q = p and d = d and acct = a and track = t] d' not_queued_decision [of d a t] by auto
    then show ?thesis using Ask d'
      by (auto simp: book_of_def fun_eq_iff Let_def)
  next
    case (Decide now status acct track)
    then show ?thesis using ok not_queued_decision [of d acct track]
      by (auto simp: book_of_def fun_eq_iff resolve_decisions)
  qed
next
  fix e e' d
  assume "move_ok e d" "move_ok e' d"
  moreover have "accounts (move_db e d) = accounts d"
    by (cases e) (auto simp: enqueueReview_def resolveReview_def Let_def)
  ultimately show "move_ok e' (move_db e d)" by (cases e') (auto simp: account_exists_def)
qed

text \<open>
  C31: the review queue implements the book of decisions. Over any sequence of enqueued likes and
  decisions that the schema's constraints allow, the tables hold exactly what the book says: a
  track is pending from the first time it is asked about, asking again changes nothing whatever was
  decided meanwhile, and the last decision on a track that was asked about stands.
\<close>

theorem queue_refines_book:
  assumes "\<forall>e\<in>set es. move_ok e d"
  shows "book_of (fold move_db es d) = fold play es (book_of d)"
  using assms by (rule queue_book.run)

definition asked :: "int \<Rightarrow> review_row" where
  "asked track =
     \<lparr>rr_id = 0, rr_account = 1, rr_track = track, rr_vote = 0, rr_artist = [], rr_title = [], rr_duration = 0,
      rr_details = [], rr_candidates = Some [], rr_best = 0, rr_reason = ''no_match'', rr_status = [], rr_liked = [],
      rr_created = [], rr_resolved = None\<rparr>"

theorem queue_refines_book_witness:
  "decision (fold move_db [Ask 0 (asked 5), Decide 1 ''rejected'' 1 5, Ask 2 (asked 5)] one_account) 1 5
     = Some (''rejected'', Some (format_time 1))"
proof -
  let ?es = "[Ask 0 (asked 5), Decide 1 ''rejected'' 1 5, Ask 2 (asked 5)]"
  have "\<forall>e\<in>set ?es. move_ok e one_account"
    by (simp add: asked_def reasons_def statuses_def account_exists_def one_account default_row_def)
  from queue_refines_book [OF this] have "book_of (fold move_db ?es one_account) (1, 5) = fold play ?es (book_of one_account) (1, 5)"
    by simp
  then show ?thesis by (simp add: book_of_def asked_def Let_def)
qed

end
