(* ===== verification/CommandLaws.thy ===== *)
theory CommandLaws
  imports Commands ReviewQueue
begin

text \<open>
  What the operator's commands do to the ledger, the review queue and the watermark, in every
  outcome: approving, rejecting, and the two ways back from a deleted track.
\<close>

subsection \<open>The store operations they use\<close>

definition reviews_only :: "db \<Rightarrow> db \<Rightarrow> bool" where
  "reviews_only d d' \<longleftrightarrow> (\<exists>rq. d' = d\<lparr>review_queue := rq\<rparr>)"

lemma reviews_only_refl [simp]: "reviews_only d d"
  unfolding reviews_only_def by (auto intro!: exI [of _ "review_queue d"])

lemma reviews_only_frame:
  assumes "reviews_only d d'"
  shows "accounts d' = accounts d" "synced_tracks d' = synced_tracks d" "sync_runs d' = sync_runs d"
    "synced d' k = synced d k"
  using assms by (auto simp: reviews_only_def synced_def)

lemma ResolveReview_result:
  assumes "ResolveReview E acct track status w = (r, w')" and "status \<in> set statuses"
  shows "same_rest w w'" "reviews_only (s_db w) (s_db w')"
    "\<And>e. r = Inl e \<Longrightarrow> s_db w' = s_db w"
    "\<And>b. r = Inr b \<Longrightarrow> b = queued (s_db w) acct track \<and>
       s_db w' = snd (resolveReview (e_now E (s_tick w)) status acct track (s_db w))"
proof -
  let ?q = "\<lambda>now. resolveReview now status acct track"
  note W = write_op [OF assms(1) [unfolded ResolveReview_def]]
  have err: "fails_clean ?q" by (auto simp: fails_clean_def resolveReview_def Let_def split: if_splits)
  show "same_rest w w'" "\<And>e. r = Inl e \<Longrightarrow> s_db w' = s_db w" using W(1,3) [OF err] by blast+
  have ro: "reviews_only d (snd (?q now d))" for now d
    using reviews_only_refl unfolding reviews_only_def resolveReview_def Let_def by fastforce
  show "reviews_only (s_db w) (s_db w')" using W(6) [OF err] ro by (metis reviews_only_refl snd_conv)
  show "b = queued (s_db w) acct track \<and> s_db w' = snd (resolveReview (e_now E (s_tick w)) status acct track (s_db w))"
    if "r = Inr b" for b
    using W(4) [OF err that] assms(2)
    by (auto simp: resolveReview_def Let_def queued_def count_where_pos split: if_splits dest!: sym [of _ "s_db w'"])
qed

lemma GetReviewItem_result:
  assumes "GetReviewItem E acct track w = (r, w')"
  shows "same_rest w w'" "s_db w' = s_db w"
    "\<And>item. r = Inr item \<Longrightarrow> \<exists>row\<in>set (review_queue (s_db w)). same_review acct track row \<and> item = toReviewItem row"
proof -
  note R = read_op [OF assms [unfolded GetReviewItem_def]]
  have s: "snd (getReviewItem acct track d) = d" for d by (simp add: getReviewItem_def split: option.split)
  show "same_rest w w'" "s_db w' = s_db w" using R(1,2) s by simp_all
  show "\<exists>row\<in>set (review_queue (s_db w)). same_review acct track row \<and> item = toReviewItem row" if "r = Inr item" for item
    using R(4) [OF s that] by (auto simp: getReviewItem_def find_Some_iff split: option.splits intro: nth_mem)
qed

lemma RecordSynced_error:
  assumes "RecordSynced E t w = (Inl e, w')"
  shows "same_rest w w'" "s_db w' = s_db w"
proof -
  note W = write_op [OF assms [unfolded RecordSynced_def]]
  have err: "fails_clean (\<lambda>now. recordSyncedTrack now (synced_params t))"
    by (auto simp: fails_clean_def recordSyncedTrack_def split: if_splits)
  show "same_rest w w'" "s_db w' = s_db w" using W(1,3) [OF err] by blast+
qed

subsection \<open>Approving\<close>

lemma add_approved_result:
  assumes "add_approved E pl i w = (r, w')"
  shows "s_db w' = s_db w" "s_tx w' = s_tx w" "set (playlists w p) \<subseteq> set (playlists w' p)"
    "r = Inr x \<Longrightarrow> i \<in> set (playlists w' pl)"
    "quiet E \<Longrightarrow> playlists w' = playlists w \<or>
       i \<notin> real_ids (playlists w pl) \<and> playlists w' = (playlists w)(pl := playlists w pl @ [i])"
proof -
  obtain q w1 where q: "PlaylistTrackIDs E pl w = (q, w1)" by fastforce
  note P = PlaylistTrackIDs_result [OF q]
  have g: "set (playlists w p) \<subseteq> set (playlists w1 p)" for p
    using P(1) unfolding reads_def by (metis set_append Un_upper1)
  have "s_db w' = s_db w \<and> s_tx w' = s_tx w \<and> set (playlists w p) \<subseteq> set (playlists w' p) \<and>
      (r = Inr x \<longrightarrow> i \<in> set (playlists w' pl)) \<and>
      (quiet E \<longrightarrow> playlists w' = playlists w \<or>
         i \<notin> real_ids (playlists w pl) \<and> playlists w' = (playlists w)(pl := playlists w pl @ [i]))"
  proof (cases q)
    case (Inl e)
    then have "w' = w1" "\<exists>e. r = Inl e" using assms q by (auto simp: add_approved_def simp del: lit_simps)
    then show ?thesis using P(1) g by (auto simp: reads_def)
  next
    case (Inr ids)
    have ids: "ids = real_ids (playlists w1 pl)" by (rule P(2)) (simp add: Inr)
    show ?thesis
    proof (cases "i \<in> ids")
      case True
      then have "w' = w1" "i \<in> set (playlists w1 pl)" using assms q Inr ids by (auto simp: add_approved_def real_ids_def)
      then show ?thesis using P(1) g by (auto simp: reads_def)
    next
      case False
      then have a: "AddToPlaylist E pl [i] w1 = (r, w')" using assms q Inr by (simp add: add_approved_def)
      from AddToPlaylist_result [OF a] obtain k where k: "appends E pl (take k [i]) w1 w'" "r = Inr () \<longrightarrow> take k [i] = [i]" by blast
      have tk: "take k [i] = [] \<or> take k [i] = [i]" by (cases k) auto
      have ma: "set (playlists w1 p) \<subseteq> set (playlists w' p)" using k(1) unfolding appends_def by (metis set_append Un_upper1)
      have in': "r = Inr x \<longrightarrow> i \<in> set (playlists w' pl)"
        using k appends_mono [OF k(1)] by auto
      have qu: "playlists w' = playlists w \<or> i \<notin> real_ids (playlists w pl) \<and> playlists w' = (playlists w)(pl := playlists w pl @ [i])"
        if "quiet E"
      proof -
        have "playlists w1 = playlists w" using P(1) that by (simp add: reads_def)
        moreover from this have "i \<notin> real_ids (playlists w pl)" using False ids by simp
        moreover have "playlists w' = (playlists w1)(pl := playlists w1 pl @ take k [i])"
          using k(1) that by (simp add: appends_def)
        ultimately show ?thesis using tk by auto
      qed
      show ?thesis using P(1) k(1) g [of p] ma in' qu by (auto simp: reads_def appends_def)
    qed
  qed
  then show "s_db w' = s_db w" "s_tx w' = s_tx w" "set (playlists w p) \<subseteq> set (playlists w' p)"
    "r = Inr x \<Longrightarrow> i \<in> set (playlists w' pl)"
    "quiet E \<Longrightarrow> playlists w' = playlists w \<or>
       i \<notin> real_ids (playlists w pl) \<and> playlists w' = (playlists w)(pl := playlists w pl @ [i])" by blast+
qed

text \<open>\<open>upholds\<close>: what an approval does to the world, however it ends.\<close>

definition upholds :: "Account \<Rightarrow> int \<Rightarrow> 'z world_scheme \<Rightarrow> 'z world_scheme \<Rightarrow> bool" where
  "upholds account trackID w w' \<longleftrightarrow>
     accounts (s_db w') = accounts (s_db w) \<and> sync_runs (s_db w') = sync_runs (s_db w) \<and>
     (\<forall>p. set (playlists w p) \<subseteq> set (playlists w' p)) \<and>
     set (synced_tracks (s_db w')) \<subseteq> set (synced_tracks (s_db w)) \<union>
       {row. sr_playlist row = A_SpotifyPlaylistID account \<and>
             sr_spotify row \<in> set (playlists w' (A_SpotifyPlaylistID account))} \<and>
     (\<forall>a t. decision (s_db w') a t = decision (s_db w) a t \<or>
        a = A_ID account \<and> t = trackID \<and> synced (s_db w') (a, t, A_SpotifyPlaylistID account))"

lemma upholds_same: "s_db w' = s_db w \<Longrightarrow> (\<And>p. set (playlists w p) \<subseteq> set (playlists w' p)) \<Longrightarrow> upholds account t w w'"
  by (auto simp: upholds_def)

lemma same_rest_playlists: "same_rest w w' \<Longrightarrow> playlists w' = playlists w"
  using playlists_more [of w' w] by (simp add: same_rest_def)

lemma approve_chosen_result:
  assumes "approve_chosen E account trackID item chosen w = (r, w')" and "R_DifmTrackID item = trackID"
    and "account_exists (A_ID account) (s_db w)"
  shows "upholds account trackID w w'"
    "r = Inr () \<Longrightarrow> synced (s_db w') (A_ID account, trackID, A_SpotifyPlaylistID account) \<and>
       C_ID (Cand chosen) \<in> set (playlists w' (A_SpotifyPlaylistID account)) \<and>
       (\<exists>now. decision (s_db w') (A_ID account) trackID = Some (''approved'', Some (format_time now)))"
    "quiet E \<Longrightarrow> playlists w' = playlists w \<or>
       C_ID (Cand chosen) \<notin> real_ids (playlists w (A_SpotifyPlaylistID account)) \<and>
       playlists w' = (playlists w)(A_SpotifyPlaylistID account := playlists w (A_SpotifyPlaylistID account) @ [C_ID (Cand chosen)])"
proof -
  let ?pl = "A_SpotifyPlaylistID account" and ?i = "C_ID (Cand chosen)" and ?acct = "A_ID account"
  obtain r1 w1 where 1: "add_approved E ?pl ?i w = (r1, w1)" by fastforce
  note A = add_approved_result [OF 1]
  have "upholds account trackID w w' \<and>
    (r = Inr () \<longrightarrow> synced (s_db w') (?acct, trackID, ?pl) \<and> ?i \<in> set (playlists w' ?pl) \<and>
       (\<exists>now. decision (s_db w') ?acct trackID = Some (''approved'', Some (format_time now)))) \<and>
    playlists w' = playlists w1"
  proof (cases r1)
    case (Inl e)
    then have "w' = w1" "r = Inl e" using assms(1) 1 by (simp_all add: approve_chosen_def bind_op_def)
    then show ?thesis using A(1,3) by (auto intro: upholds_same)
  next
    case (Inr x)
    have inpl: "?i \<in> set (playlists w1 ?pl)" by (rule A(4) [OF Inr])
    let ?t = "approved_track account item chosen"
    obtain r2 w2 where 2: "RecordSynced E ?t w1 = (r2, w2)" by fastforce
    show ?thesis
    proof (cases r2)
      case (Inl e)
      then have "w' = w2" "r = Inl e" using assms(1) 1 Inr 2 by (simp_all add: approve_chosen_def bind_op_def)
      moreover have "playlists w2 = playlists w1"
        by (rule same_rest_playlists [OF RecordSynced_error(1) [OF 2 [unfolded Inl]]])
      moreover have "upholds account trackID w w2"
        by (rule upholds_same) (use RecordSynced_error(2) [OF 2 [unfolded Inl]] A(1,3) calculation in simp_all)
      ultimately show ?thesis by simp
    next
      case r2: (Inr y)
      from RecordSynced_result [OF 2 [unfolded r2]] obtain now where
        R: "same_rest w1 w2" "ledger_only (s_db w1) (s_db w2)" "s_db w2 = record_row (now, synced_params ?t) (s_db w1)"
        "set (synced_tracks (s_db w2)) \<subseteq> set (synced_tracks (s_db w1)) \<union> {r. sr_spotify r = ?i \<and> sr_playlist r = ?pl}"
        by (auto simp: approved_track_def)
      have pl2: "playlists w2 = playlists w1" by (rule same_rest_playlists [OF R(1)])
      have synced2: "synced (s_db w2) (?acct, trackID, ?pl)"
      proof -
        have "entry_ok (now, synced_params ?t) (s_db w1)"
          using assms(3) A(1) by (simp add: entry_ok_def synced_params_def approved_track_def)
        moreover have "entry_key (now, synced_params ?t) = (?acct, trackID, ?pl)"
          using assms(2) by (simp add: entry_key_def ledger_key_def synced_params_def approved_track_def)
        ultimately show ?thesis unfolding R(3) by (metis synced_ledger.holds_put)
      qed
      have dec2: "decision (s_db w2) a t = decision (s_db w1) a t" for a t
        using ledger_only_frame(2) [OF R(2)] by (simp add: decision_def)
      obtain r3 w3 where 3: "ResolveReview E ?acct trackID ''approved'' w2 = (r3, w3)" by fastforce
      have st: "''approved'' \<in> set statuses" by (simp add: statuses_def)
      note V = ResolveReview_result [OF 3 st]
      have w': "w' = w3" "r = (case r3 of Inl e \<Rightarrow> Inl e | Inr found \<Rightarrow> if found then Inr () else Inl (row_vanished trackID))"
        using assms(1) 1 Inr 2 r2 3 by (auto simp: approve_chosen_def bind_op_def split: sum.splits)
      have pl3: "playlists w3 = playlists w1" using same_rest_playlists [OF V(1)] pl2 by simp
      have dec3: "decision (s_db w3) a t = decision (s_db w) a t \<or> a = ?acct \<and> t = trackID" for a t
        using V(3,4) dec2 A(1) resolve_decisions [OF st] by (cases r3) auto
      have synced3: "synced (s_db w3) (?acct, trackID, ?pl)" using synced2 reviews_only_frame(4) [OF V(2)] by simp
      have "upholds account trackID w w3"
        unfolding upholds_def
      proof (intro conjI allI)
        show "accounts (s_db w3) = accounts (s_db w)" "sync_runs (s_db w3) = sync_runs (s_db w)"
          using reviews_only_frame [OF V(2)] ledger_only_frame [OF R(2)] A(1) by simp_all
        show "set (playlists w p) \<subseteq> set (playlists w3 p)" for p using A(3) pl3 by simp
        show "set (synced_tracks (s_db w3)) \<subseteq> set (synced_tracks (s_db w)) \<union>
            {row. sr_playlist row = ?pl \<and> sr_spotify row \<in> set (playlists w3 ?pl)}"
          using R(4) reviews_only_frame(2) [OF V(2)] A(1) inpl pl3 by auto
        show "decision (s_db w3) a t = decision (s_db w) a t \<or>
            a = ?acct \<and> t = trackID \<and> synced (s_db w3) (a, t, ?pl)" for a t
          using dec3 [of a t] synced3 by auto
      qed
      moreover have "\<exists>now. decision (s_db w3) ?acct trackID = Some (''approved'', Some (format_time now))" if "r = Inr ()"
      proof -
        have "r3 = Inr True" using w'(2) that by (auto split: sum.splits if_splits)
        with V(4) show ?thesis using resolve_decisions [OF st] by force
      qed
      ultimately show ?thesis using w'(1) synced3 inpl pl3 by simp
    qed
  qed
  then show "upholds account trackID w w'"
    "r = Inr () \<Longrightarrow> synced (s_db w') (?acct, trackID, ?pl) \<and> ?i \<in> set (playlists w' ?pl) \<and>
       (\<exists>now. decision (s_db w') ?acct trackID = Some (''approved'', Some (format_time now)))"
    "quiet E \<Longrightarrow> playlists w' = playlists w \<or>
       ?i \<notin> real_ids (playlists w ?pl) \<and> playlists w' = (playlists w)(?pl := playlists w ?pl @ [?i])"
    using A(5) by auto
qed

lemma approve_cases:
  assumes "approveReview E cid sec account trackID n w = (r, w')"
  obtains (refused) e where "r = Inl e" "s_db w' = s_db w" "playlists w' = playlists w"
  | (chosen) row w1 where "row \<in> set (review_queue (s_db w))" "same_review (A_ID account) trackID row"
      "1 \<le> n" "n \<le> int (length (R_Candidates (toReviewItem row)))"
      "s_db w1 = s_db w" "playlists w1 = playlists w"
      "approve_chosen E account trackID (toReviewItem row) (R_Candidates (toReviewItem row) ! nat (n - 1)) w1 = (r, w')"
proof (cases "requireFlags [(''spotify-client-id'', cid), (''spotify-client-secret'', sec)]")
  case (Some e)
  show thesis by (rule refused) (use assms Some in \<open>auto simp: approveReview_def simp del: lit_simps\<close>)
next
  case None
  obtain q w1 where q: "GetReviewItem E (A_ID account) trackID w = (q, w1)" by fastforce
  note G = GetReviewItem_result [OF q]
  have pl: "playlists w1 = playlists w" by (rule same_rest_playlists [OF G(1)])
  show thesis
  proof (cases q)
    case (Inl e)
    show thesis by (rule refused) (use assms None q Inl G pl in \<open>auto simp: approveReview_def simp del: lit_simps\<close>)
  next
    case (Inr item)
    from G(3) [OF Inr] obtain row where row: "row \<in> set (review_queue (s_db w))" "same_review (A_ID account) trackID row"
      "item = toReviewItem row" by blast
    show thesis
    proof (cases "R_Candidates item = [] \<or> n < 1 \<or> n > int (length (R_Candidates item)) \<or>
        auth_client (A_SpotifyRefreshToken account) \<noteq> None")
      case True
      have "\<exists>e. r = Inl e \<and> w' = w1"
        using assms None q Inr True by (auto simp: approveReview_def simp del: lit_simps split: if_splits option.splits)
      then show thesis using refused G(2) pl by blast
    next
      case False
      then have "approve_chosen E account trackID item (R_Candidates item ! nat (n - 1)) w1 = (r, w')"
        using assms None q Inr by (simp add: approveReview_def)
      with False row G(2) pl show thesis by (intro chosen) auto
    qed
  qed
qed


subsection \<open>An approval\<close>

definition doubtful :: review_row where
  "doubtful = (asked 5)\<lparr>rr_status := ''pending'', rr_reason := ''low_confidence'',
     rr_candidates := Some [\<lparr>Cand = \<lparr>C_ID = ''sp5'', C_Artist = [], C_Title = [], C_DurationSec = 1, C_ISRC = []\<rparr>,
                              SScore = 7 / 10, Why = []\<rparr>]\<rparr>"

definition stall :: world where
  "stall = shelf\<lparr>s_db := one_account\<lparr>review_queue := [doubtful]\<rparr>\<rparr>"

definition keeper :: Account where
  "keeper = (toAccount default_row)\<lparr>A_SpotifyRefreshToken := ''t''\<rparr>"

lemma add_approved_well:
  assumes "all_well E" "quiet E" "length (playlists w pl) \<le> maxOffset"
  shows "\<exists>w'. add_approved E pl i w = (Inr (), w')"
proof -
  obtain S w1 where r: "PlaylistTrackIDs E pl w = (Inr S, w1)" using PlaylistTrackIDs_well [OF assms] by blast
  obtain w2 where "AddToPlaylist E pl [i] w1 = (Inr (), w2)" using AddToPlaylist_well [OF assms(1)] by blast
  with r show ?thesis by (simp add: add_approved_def)
qed

lemma stall_approve: "\<exists>w'. approveReview studio [105] [115] keeper 5 1 stall = (Inr (), w')"
proof -
  let ?w1 = "stall\<lparr>s_tick := 1\<rparr>" and ?item = "toReviewItem doubtful"
  have acct: "A_ID keeper = 1" "A_SpotifyPlaylistID keeper = ''PL''" "A_SpotifyRefreshToken keeper = ''t''"
    by (simp_all add: keeper_def toAccount_def default_row_def)
  have flags: "requireFlags [(''spotify-client-id'', [105]), (''spotify-client-secret'', [115])] = None" by code_simp
  have auth: "auth_client ''t'' = None" by code_simp
  have item: "GetReviewItem studio 1 5 stall = (Inr ?item, ?w1)"
    by (simp add: GetReviewItem_def query_def studio_def getReviewItem_def stall_def shelf_def doubtful_def asked_def
        same_review_def)
  obtain chosen where c: "R_Candidates ?item = [chosen]" by (simp add: toReviewItem_def doubtful_def)
  obtain w2 where a: "add_approved studio ''PL'' (C_ID (Cand chosen)) ?w1 = (Inr (), w2)"
    using add_approved_well [OF studio(1,2), of ?w1 "''PL''"] studio(3) by (auto simp: stall_def robot_def)
  have db2: "s_db w2 = s_db stall" using add_approved_result(1) [OF a] by simp
  have "account_exists 1 (s_db w2)"
    by (simp add: db2 account_exists_def stall_def one_account default_row_def)
  then have "account_exists (S_AccountID (approved_track keeper ?item chosen)) (s_db w2)"
    using acct by (simp add: approved_track_def)
  from RecordSynced_well [OF studio(1) this]
  obtain w3 where r: "RecordSynced studio (approved_track keeper ?item chosen) w2 = (Inr (), w3)" by blast
  from RecordSynced_result [OF r] have "ledger_only (s_db w2) (s_db w3)" by blast
  then have q3: "queued (s_db w3) 1 5"
    using ledger_only_frame(4) db2 by (simp add: queued_def stall_def doubtful_def asked_def same_review_def)
  have st: "''approved'' \<in> set statuses" by (simp add: statuses_def)
  have "\<exists>w4. ResolveReview studio 1 5 ''approved'' w3 = (Inr True, w4)"
    using q3 st by (auto simp: ResolveReview_def query_def studio_def resolveReview_def Let_def queued_def count_where_pos)
  with a r acct flags item c auth show ?thesis
    by (auto simp: approveReview_def approve_chosen_def bind_op_def)
qed


subsection \<open>Somebody else adds\<close>

text \<open>
  The check and the add are two requests. A track that somebody adds by hand between them is in the
  playlist twice afterwards; that is why the invariants on playlists assume that nobody else adds.
\<close>

definition race :: eng_env where
  "race = studio\<lparr>n_arrive := \<lambda>n pl. if n = 1 \<and> pl = ''PL'' then [''sp''] else []\<rparr>"

lemma add_approved_races:
  "case add_approved race ''PL'' ''sp'' shelf of (r, w') \<Rightarrow> r = Inr () \<and> playlists w' ''PL'' = [''old'', ''sp'', ''sp'']"
proof -
  let ?w = "shelf\<lparr>s_tick := Suc 0\<rparr>"
  have "map (\<lambda>i. pageSize * i) [0..<Suc (maxOffset div pageSize)] = 0 # map (\<lambda>i. pageSize * i) [1..<Suc (maxOffset div pageSize)]"
    by (subst upt_conv_Cons) simp_all
  moreover have "do_req race True (ItemsReq ''PL'' 0) shelf = (Inr (ItemsBody 1 [''old'']), ?w)"
    by (simp add: do_req_def serve_def race_def studio_def shelf_def answer_def pageSize_def cong: if_cong)
  ultimately have p: "PlaylistTrackIDs race ''PL'' shelf = (Inr {''old''}, ?w)"
    by (auto simp: PlaylistTrackIDs_def pageSize_def)
  have "do_req race False (AddReq ''PL'' [uri_prefix @ ''sp'']) ?w = (Inr NoBody, snd (serve race (AddReq ''PL'' [uri_prefix @ ''sp'']) ?w))"
    by (simp add: do_req_def serve_def race_def studio_def answer_def Let_def)
  then have a: "AddToPlaylist race ''PL'' [''sp''] ?w = (Inr (), snd (serve race (AddReq ''PL'' [uri_prefix @ ''sp'']) ?w))"
    by (simp add: AddToPlaylist_def addBatchSize_def add_batches.simps [of race "''PL''" "[''sp'']"] add_batches.simps [of race "''PL''" "[]"])
  have "playlists (snd (serve race (AddReq ''PL'' [uri_prefix @ ''sp'']) ?w)) ''PL'' = [''old'', ''sp'', ''sp'']"
    by (simp add: serve_def race_def studio_def shelf_def uri_prefix_def answer_def Let_def)
  then show ?thesis by (simp add: add_approved_def p a)
qed

end
