(* ===== verification/ResyncLaws.thy ===== *)
theory ResyncLaws
  imports CommandLaws
begin

text \<open>
  The way back: \<open>resync --forget\<close> makes a like eligible again by dropping its ledger rows and
  moving the watermark in front of it. The second half is what these lemmas are about, since a
  dropped row alone is never looked at again.
\<close>

subsection \<open>One track\<close>

text \<open>A ledger as the program writes it: the times are formatted, and at least two seconds into year 1.\<close>

definition dated :: "synced_row \<Rightarrow> gotime \<Rightarrow> bool" where
  "dated r t \<longleftrightarrow> sr_liked r = format_time t \<and> printable t \<and> 2 * second \<le> t"

definition dated_ledger :: "db \<Rightarrow> bool" where
  "dated_ledger d \<longleftrightarrow> (\<forall>r\<in>set (synced_tracks d). \<exists>t. dated r t)"

definition rows_of :: "int \<Rightarrow> int set \<Rightarrow> db \<Rightarrow> synced_row set" where
  "rows_of acct ids d = {r \<in> set (synced_tracks d). sr_account r = acct \<and> sr_track r \<in> ids}"

text \<open>A query that fails does not fail with \<open>sql.ErrNoRows\<close>: that error is a result.\<close>

definition real_faults :: "'e env_scheme \<Rightarrow> bool" where
  "real_faults E \<longleftrightarrow> (\<forall>n e. e_fault E n = Some e \<longrightarrow> \<not> errors_is e SqlErrNoRows)"

lemma dated_cut: "dated r t \<Longrightarrow> second \<le> cut t \<and> cut t \<le> t \<and> printable (cut t) \<and> parse_time (sr_liked r) = Some (cut t)"
proof -
  assume d: "dated r t"
  have "t < cut t + 10 ^ 6" "cut t \<le> t" by (rule cut_near, rule cut_le)
  moreover from this have "second \<le> cut t" using d by (simp add: dated_def second_def)
  moreover have "0 \<le> cut t" using calculation by (simp add: second_def)
  ultimately show ?thesis using d parse_format_cut [of t]
    by (auto simp: dated_def printable_def days_before_year_def day_ns_def)
qed

lemma SyncedTrackLikedAt_result:
  assumes "SyncedTrackLikedAt E acct i s = (Inr v, s')" and "real_faults E" and led: "dated_ledger (s_db s)"
  shows "same_rest s s'" "s_db s' = s_db s"
    "case v of None \<Rightarrow> rows_of acct {i} (s_db s) = {}
     | Some t \<Rightarrow> (\<exists>r u. r \<in> rows_of acct {i} (s_db s) \<and> dated r u \<and> t = cut u) \<and>
         (\<forall>r\<in>rows_of acct {i} (s_db s). \<forall>u. dated r u \<longrightarrow> t \<le> cut u)"
proof -
  let ?d = "s_db s"
  let ?rows = "filter (\<lambda>r. sr_account r = acct \<and> sr_track r = i) (synced_tracks ?d)"
  have rows: "set ?rows = rows_of acct {i} ?d" by (auto simp: rows_of_def)
  obtain q s1 where q: "query E (\<lambda>_. getSyncedTrackLikedAt acct i) s = (q, s1)" by fastforce
  note Q = query_result [OF q]
  have s1: "s' = s1" using assms(1) q by (auto simp: SyncedTrackLikedAt_def split: sum.splits option.splits if_splits)
  have keep: "snd (getSyncedTrackLikedAt acct i d) = d" for d
    by (simp add: getSyncedTrackLikedAt_def split: list.split)
  show "same_rest s s'" using Q(1) s1 by simp
  show db: "s_db s' = s_db s" using Q(3) s1 keep by (metis snd_conv)
  show "case v of None \<Rightarrow> rows_of acct {i} ?d = {}
     | Some t \<Rightarrow> (\<exists>r u. r \<in> rows_of acct {i} ?d \<and> dated r u \<and> t = cut u) \<and>
         (\<forall>r\<in>rows_of acct {i} ?d. \<forall>u. dated r u \<longrightarrow> t \<le> cut u)"
  proof (cases "e_fault E (s_tick s)")
    case (Some e)
    then have "q = Inl e" "\<not> errors_is e SqlErrNoRows" using Q(3) assms(2) by (auto simp: real_faults_def)
    then show ?thesis using assms(1) q by (simp add: SyncedTrackLikedAt_def)
  next
    case None
    then have g: "getSyncedTrackLikedAt acct i ?d = (q, s_db s1)" using Q(3) by simp
    show ?thesis
    proof (cases "sort (map sr_liked ?rows)")
      case Nil
      have "length (sort (map sr_liked ?rows)) = 0" unfolding Nil by simp
      then have none: "?rows = []" by (simp only: length_sort length_map length_0_conv)
      then have "q = Inl (Sentinel SqlErrNoRows)" using g Nil by (simp add: getSyncedTrackLikedAt_def)
      then have "v = None" using assms(1) q by (simp add: SyncedTrackLikedAt_def)
      moreover have "rows_of acct {i} ?d = {}" using none rows by auto
      ultimately show ?thesis by simp
    next
      case (Cons liked more)
      then have "q = Inr liked" using g by (simp add: getSyncedTrackLikedAt_def)
      have srt: "sorted (liked # more)" "set (liked # more) = sr_liked ` rows_of acct {i} ?d"
        using sorted_sort_key [of "\<lambda>x. x" "map sr_liked ?rows"] set_sort [of "\<lambda>x. x" "map sr_liked ?rows"]
        unfolding Cons rows [symmetric] by simp_all
      then have "liked \<in> sr_liked ` rows_of acct {i} ?d" by (metis list.set_intros(1))
      then obtain r where r: "r \<in> rows_of acct {i} ?d" "sr_liked r = liked" by blast
      then obtain u where u: "dated r u" using led by (auto simp: dated_ledger_def rows_of_def)
      have v: "v = Some (cut u)"
        using assms(1) q \<open>q = Inr liked\<close> dated_cut [OF u] r(2) by (auto simp: SyncedTrackLikedAt_def)
      have "cut u \<le> cut u'" if "r' \<in> rows_of acct {i} ?d" "dated r' u'" for r' u'
      proof -
        have "liked \<le> sr_liked r'" using srt that(1) by auto
        then have "\<not> format_time u' < format_time u" using u that(2) r(2) by (auto simp: dated_def)
        then show ?thesis using format_time_less [of u' u] u that(2) by (simp add: dated_def)
      qed
      then show ?thesis using v r u by auto
    qed
  qed
qed

lemma ForgetTrack_result:
  assumes "ForgetTrack E acct i s = (Inr found, s')"
  shows "same_rest s s'" "found \<longleftrightarrow> rows_of acct {i} (s_db s) \<noteq> {}"
    "s_db s' = (s_db s)\<lparr>synced_tracks := delete_where (\<lambda>r. sr_account r = acct \<and> sr_track r = i) (synced_tracks (s_db s))\<rparr>"
proof -
  let ?q = "\<lambda>_. forgetSyncedTrack acct i"
  note W = write_op [OF assms [unfolded ForgetTrack_def]]
  have err: "fails_clean ?q" by (simp add: fails_clean_def forgetSyncedTrack_def Let_def)
  show "same_rest s s'" by (rule W(1) [OF err])
  show "found \<longleftrightarrow> rows_of acct {i} (s_db s) \<noteq> {}"
    "s_db s' = (s_db s)\<lparr>synced_tracks := delete_where (\<lambda>r. sr_account r = acct \<and> sr_track r = i) (synced_tracks (s_db s))\<rparr>"
    using W(4) [OF err refl] by (auto simp: forgetSyncedTrack_def Let_def count_where_pos rows_of_def)
qed

subsection \<open>The loop over the tracks\<close>

definition forgotten :: "int \<Rightarrow> int set \<Rightarrow> db \<Rightarrow> db" where
  "forgotten acct ids d = d\<lparr>synced_tracks := delete_where (\<lambda>r. sr_account r = acct \<and> sr_track r \<in> ids) (synced_tracks d)\<rparr>"

lemma forget_each_result:
  assumes "forget_each E acct ids m e s = (Inr (m', e'), s')" and "real_faults E" and "dated_ledger (s_db s)"
  shows "same_rest s s'" "s_db s' = forgotten acct (set ids) (s_db s)"
    "e' = e \<or> (\<exists>r\<in>rows_of acct (set ids) (s_db s). \<exists>u. dated r u \<and> e' = cut u)"
    "e \<noteq> 0 \<longrightarrow> e' \<noteq> 0 \<and> e' \<le> e"
    "\<forall>r\<in>rows_of acct (set ids) (s_db s). \<forall>u. dated r u \<longrightarrow> e' \<noteq> 0 \<and> e' \<le> cut u"
  using assms(1,3)
proof (induction ids arbitrary: m e s)
  case Nil
  {
    case 1
    then show ?case by simp
  next
    case 2
    then show ?case by (simp add: forgotten_def delete_where_def)
  next
    case 3
    then show ?case by simp
  next
    case 4
    then show ?case by simp
  next
    case 5
    then show ?case by (simp add: rows_of_def)
  }
next
  case (Cons i ids)
  have "same_rest s s' \<and> s_db s' = forgotten acct (set (i # ids)) (s_db s) \<and>
    (e' = e \<or> (\<exists>r\<in>rows_of acct (set (i # ids)) (s_db s). \<exists>u. dated r u \<and> e' = cut u)) \<and>
    (e \<noteq> 0 \<longrightarrow> e' \<noteq> 0 \<and> e' \<le> e) \<and>
    (\<forall>r\<in>rows_of acct (set (i # ids)) (s_db s). \<forall>u. dated r u \<longrightarrow> e' \<noteq> 0 \<and> e' \<le> cut u)"
    if run: "forget_each E acct (i # ids) m e s = (Inr (m', e'), s')" and led: "dated_ledger (s_db s)"
    for m e s
  proof -
    obtain q s1 where 1: "SyncedTrackLikedAt E acct i s = (q, s1)" by fastforce
    with run obtain v where q: "q = Inr v" by (cases q) auto
    note A = SyncedTrackLikedAt_result [OF 1 [unfolded q] assms(2) led]
    define e1 where "e1 = (case v of Some t \<Rightarrow> if e = 0 \<or> t < e then t else e | None \<Rightarrow> e)"
    obtain p s2 where 2: "ForgetTrack E acct i s1 = (p, s2)" by fastforce
    with run 1 q obtain found where p: "p = Inr found" by (cases p) (auto simp: Let_def)
    note F = ForgetTrack_result [OF 2 [unfolded p]]
    have rest: "forget_each E acct ids (if found then m else m + 1) e1 s2 = (Inr (m', e'), s')"
      using run 1 2 q p by (simp add: e1_def Let_def)
    have db2: "s_db s2 = forgotten acct {i} (s_db s)" using F(3) A(2) by (simp add: forgotten_def)
    have led2: "dated_ledger (s_db s2)" using led db2 by (auto simp: dated_ledger_def forgotten_def)
    note I = Cons.IH [OF rest led2]
    have sub: "rows_of acct (set ids) (s_db s2) \<subseteq> rows_of acct (set (i # ids)) (s_db s)"
      "rows_of acct {i} (s_db s) \<subseteq> rows_of acct (set (i # ids)) (s_db s)"
      "rows_of acct (set (i # ids)) (s_db s) \<subseteq> rows_of acct {i} (s_db s) \<union> rows_of acct (set ids) (s_db s2)"
      by (auto simp: rows_of_def db2 forgotten_def)
    have pos: "cut u \<noteq> 0" if "dated r u" for r u using dated_cut [OF that] by (simp add: second_def)
    have e1: "e1 = e \<or> (\<exists>r\<in>rows_of acct {i} (s_db s). \<exists>u. dated r u \<and> e1 = cut u)"
      "e \<noteq> 0 \<longrightarrow> e1 \<noteq> 0 \<and> e1 \<le> e"
      "\<forall>r\<in>rows_of acct {i} (s_db s). \<forall>u. dated r u \<longrightarrow> e1 \<noteq> 0 \<and> e1 \<le> cut u"
      using A(3) pos by (cases v; force simp: e1_def)+
    have "same_rest s s'" using same_rest_trans [OF same_rest_trans [OF A(1) F(1)] I(1)] .
    moreover have "s_db s' = forgotten acct (set (i # ids)) (s_db s)"
    proof -
      have "delete_where (\<lambda>r. sr_account r = acct \<and> sr_track r \<in> set ids)
          (delete_where (\<lambda>r. sr_account r = acct \<and> sr_track r \<in> {i}) xs) =
        delete_where (\<lambda>r. sr_account r = acct \<and> sr_track r \<in> set (i # ids)) xs" for xs :: "synced_row list"
        unfolding delete_where_def filter_filter by (rule filter_cong) auto
      then show ?thesis unfolding I(2) db2 forgotten_def by simp
    qed
    moreover have "e' = e \<or> (\<exists>r\<in>rows_of acct (set (i # ids)) (s_db s). \<exists>u. dated r u \<and> e' = cut u)"
      using I(3) e1(1) sub(1,2) by blast
    moreover have "e \<noteq> 0 \<longrightarrow> e' \<noteq> 0 \<and> e' \<le> e" using I(4) e1(2) by auto
    moreover have "\<forall>r\<in>rows_of acct (set (i # ids)) (s_db s). \<forall>u. dated r u \<longrightarrow> e' \<noteq> 0 \<and> e' \<le> cut u"
      using I(4,5) e1(3) sub(3) by (meson UnE dual_order.trans in_mono)
    ultimately show ?thesis by blast
  qed
  note * = this
  {
    case 1
    from * [OF 1] show ?case by (elim conjE)
  next
    case 2
    from * [OF 2] show ?case by (elim conjE)
  next
    case 3
    from * [OF 3] show ?case by (elim conjE)
  next
    case 4
    from * [OF 4] show ?case by (elim conjE)
  next
    case 5
    from * [OF 5] show ?case by (elim conjE)
  }
qed

subsection \<open>The command\<close>

lemma requireAccount_result:
  assumes "requireAccount E label s = (Inr account, s')"
  shows "same_rest s s'" "s_db s' = s_db s"
    "\<exists>row\<in>set (accounts (s_db s)). ar_label row = label \<and> account = toAccount row"
proof -
  from map_res_result [OF assms [unfolded requireAccount_def]] obtain r0 where
    g: "GetAccount E label s = (r0, s')" "Inr account = map_sum (no_account label) id r0" by blast
  then have "r0 = Inr account" by (cases r0) auto
  then show "same_rest s s'" "s_db s' = s_db s" "\<exists>row\<in>set (accounts (s_db s)). ar_label row = label \<and> account = toAccount row"
    using GetAccount_result [OF g(1)] by blast+
qed

lemma ClearWatermark_result:
  assumes "ClearWatermark E i w = (Inr x, w')"
  shows "same_rest w w'"
    "s_db w' = (s_db w)\<lparr>accounts := update_where (\<lambda>a. ar_id a = i) (\<lambda>a. a\<lparr>ar_watermark := []\<rparr>) (accounts (s_db w))\<rparr>"
proof -
  note W = write_op [OF assms [unfolded ClearWatermark_def]]
  have err: "fails_clean (\<lambda>_. clearWatermark i)" by (simp add: fails_clean_def clearWatermark_def)
  show "same_rest w w'" by (rule W(1) [OF err])
  show "s_db w' = (s_db w)\<lparr>accounts := update_where (\<lambda>a. ar_id a = i) (\<lambda>a. a\<lparr>ar_watermark := []\<rparr>) (accounts (s_db w))\<rparr>"
    using W(4) [OF err refl] by (simp add: clearWatermark_def)
qed

text \<open>\<open>behind\<close>: a like of that time is read again with this watermark.\<close>

definition behind :: "account_row \<Rightarrow> gotime \<Rightarrow> bool" where
  "behind row t \<longleftrightarrow> A_WatermarkLikedAt (toAccount row) = 0 \<or> A_WatermarkLikedAt (toAccount row) < t"

lemma behind_rewound:
  assumes "dated r u" and "cut u \<le> t"
  shows "behind (row\<lparr>ar_watermark := format_time (cut u - second)\<rparr>) t"
proof -
  note D = dated_cut [OF assms(1)]
  have "printable (cut u - second)"
    using D by (auto simp: printable_def days_before_year_def day_ns_def second_def)
  from parse_format_cut [OF this] have "A_WatermarkLikedAt (toAccount (row\<lparr>ar_watermark := format_time (cut u - second)\<rparr>))
      = cut (cut u - second)"
    by (simp add: toAccount_def format_time_not_Nil)
  moreover have "cut (cut u - second) \<le> cut u - second" by (rule cut_le)
  ultimately show ?thesis using assms(2) by (simp add: behind_def second_def)
qed

lemma updated_row:
  assumes "row \<in> set (accounts d)"
  shows "f row \<in> set (update_where (\<lambda>a. ar_id a = ar_id row) f (accounts d))"
  using assms by (auto simp: set_update_where image_iff)

text \<open>
  C33: forgetting a track makes it come back. When \<open>resync --forget\<close> succeeds, with or without
  \<open>--all\<close>, exactly the ledger rows of the given tracks are gone, and the account's watermark is
  empty or earlier than the time of every one of these likes, so the next pass reads them again.
\<close>

theorem forgotten_is_reread:
  assumes "resync E label all ids False w = (Inr (), w')" and "ids \<noteq> []" and "dated_ledger (s_db w)"
    and "\<And>n e. e_fault E n = Some e \<Longrightarrow> \<not> errors_is e SqlErrNoRows"
  shows "\<exists>row\<in>set (accounts (s_db w)). ar_label row = label \<and>
    synced_tracks (s_db w') =
      filter (\<lambda>r. \<not> (sr_account r = ar_id row \<and> sr_track r \<in> set ids)) (synced_tracks (s_db w)) \<and>
    (\<exists>row'\<in>set (accounts (s_db w')). ar_id row' = ar_id row \<and> ar_label row' = label \<and>
       (\<forall>r\<in>set (synced_tracks (s_db w)). \<forall>t.
          sr_account r = ar_id row \<longrightarrow> sr_track r \<in> set ids \<longrightarrow> dated r t \<longrightarrow> behind row' t))"
proof -
  have rf: "real_faults E" using assms(4) by (auto simp: real_faults_def)
  from assms(1,2) obtain account w1 where 1: "requireAccount E label w = (Inr account, w1)"
    by (auto simp: resync_def bind_op_Inr)
  note A = requireAccount_result [OF 1]
  then obtain row where row: "row \<in> set (accounts (s_db w))" "ar_label row = label" "account = toAccount row" by blast
  have id: "A_ID account = ar_id row" using row by (simp add: toAccount_def)
  from assms(1,2) 1 obtain w2 where 2: "forget_tracks E account ids all w1 = (Inr (), w2)"
    and 3: "if all then ClearWatermark E (A_ID account) w2 = (Inr (), w') else w' = w2"
    by (auto simp: resync_def bind_op_def split: prod.splits sum.splits if_splits)
  from 2 obtain missed e w3 where f: "forget_each E (A_ID account) ids 0 0 w1 = (Inr (missed, e), w3)"
    and g: "if \<not> all \<and> e \<noteq> 0 \<and> \<not> A_WatermarkLikedAt account < e
      then SetWatermark E (A_ID account) (e - second) w3 = (Inr (), w2) else w2 = w3"
    by (auto simp: forget_tracks_def split: prod.splits sum.splits if_splits)
  have led: "dated_ledger (s_db w1)" using A(2) assms(3) by simp
  note F = forget_each_result [OF f rf led]
  have tracks: "synced_tracks (s_db w3) =
      filter (\<lambda>r. \<not> (sr_account r = ar_id row \<and> sr_track r \<in> set ids)) (synced_tracks (s_db w))"
    and accts: "accounts (s_db w3) = accounts (s_db w)"
    using F(2) A(2) id by (simp_all add: forgotten_def delete_where_def)
  have early: "e \<noteq> 0 \<and> e \<le> t" if "r \<in> set (synced_tracks (s_db w))" "sr_account r = ar_id row" "sr_track r \<in> set ids" "dated r t" for r t
    using F(5) that A(2) id dated_cut [OF that(4)] by (fastforce simp: rows_of_def)
  show ?thesis
  proof (cases "all")
    case True
    then have c: "ClearWatermark E (A_ID account) w3 = (Inr (), w')" using 3 g by simp
    let ?row' = "row\<lparr>ar_watermark := []\<rparr>"
    have "?row' \<in> set (accounts (s_db w'))"
      using updated_row [OF row(1), of "\<lambda>a. a\<lparr>ar_watermark := []\<rparr>"] ClearWatermark_result(2) [OF c] accts id by simp
    moreover have "behind ?row' t" for t by (simp add: behind_def toAccount_def)
    moreover have "synced_tracks (s_db w') = synced_tracks (s_db w3)" using ClearWatermark_result(2) [OF c] by simp
    ultimately show ?thesis using row tracks by (intro bexI [of _ row] conjI bexI [of _ ?row']) auto
  next
    case False
    then have w': "w' = w2" using 3 by simp
    show ?thesis
    proof (cases "e \<noteq> 0 \<and> \<not> A_WatermarkLikedAt account < e")
      case True
      then have c: "SetWatermark E (A_ID account) (e - second) w3 = (Inr (), w')" using g False w' by simp
      obtain r0 u where u: "dated r0 u" "e = cut u" using True F(3) by auto
      let ?row' = "row\<lparr>ar_watermark := format_time (e - second)\<rparr>"
      have "?row' \<in> set (accounts (s_db w'))"
        using updated_row [OF row(1), of "\<lambda>a. a\<lparr>ar_watermark := format_time (e - second)\<rparr>"]
          SetWatermark_result(2) [OF c] accts id by simp
      moreover have "behind ?row' t" if "e \<le> t" for t using behind_rewound [OF u(1)] that u(2) by simp
      moreover have "synced_tracks (s_db w') = synced_tracks (s_db w3)" using SetWatermark_result(2) [OF c] by simp
      ultimately show ?thesis using row tracks early by (intro bexI [of _ row] conjI bexI [of _ ?row']) auto
    next
      case keep: False
      then have "w' = w3" using g w' False by auto
      moreover have "behind row t" if "e \<noteq> 0" "e \<le> t" for t using keep that row(3) by (simp add: behind_def)
      ultimately show ?thesis using row tracks early accts by (intro bexI [of _ row] conjI bexI [of _ row]) auto
    qed
  qed
qed

subsection \<open>An error half-way\<close>

text \<open>
  Two tracks in the ledger and a watermark behind both. The statement that looks up the second
  track fails (a lock, a canceled context).
\<close>

definition vault :: store where
  "vault =
     \<lparr>s_db = empty_db\<lparr>accounts := [default_row\<lparr>ar_watermark := ''2024-03-05T00:00:00.000Z''\<rparr>], next_account := 2,
        synced_tracks := [(like_row 5)\<lparr>sr_id := 1, sr_liked := ''2024-03-01T10:00:00.000Z''\<rparr>,
                          (like_row 6)\<lparr>sr_id := 2, sr_liked := ''2024-03-02T10:00:00.000Z''\<rparr>], next_synced := 3\<rparr>,
      s_tick = 0, s_tx = False\<rparr>"

definition shaky :: "nat \<Rightarrow> env" where
  "shaky n = calm\<lparr>e_fault := \<lambda>i. if i = n then Some (Msg (lit ''database is locked'')) else None\<rparr>"


theorem forgotten_is_reread_witness:
  "map sr_track (synced_tracks (s_db (snd (resync calm ''default'' False [5] False vault)))) = [6]"
proof -
  obtain r w' where run: "resync calm ''default'' False [5] False vault = (r, w')" by fastforce
  have "fst (resync calm ''default'' False [5] False vault) = Inr ()" by code_simp
  then have run: "resync calm ''default'' False [5] False vault = (Inr (), w')" using run by simp
  have "dated ((like_row 5)\<lparr>sr_id := 1, sr_liked := ''2024-03-01T10:00:00.000Z''\<rparr>) 63844884000000000000"
    "dated ((like_row 6)\<lparr>sr_id := 2, sr_liked := ''2024-03-02T10:00:00.000Z''\<rparr>) 63844970400000000000"
    by code_simp+
  then have "dated_ledger (s_db vault)" by (auto simp: dated_ledger_def vault_def)
  from forgotten_is_reread [OF run _ this] show ?thesis
    using run by (simp add: calm_def vault_def default_row_def like_row_def)
qed

end
