(* ===== verification/System.thy ===== *)
theory System
  imports RunnerLaws ResyncLaws Loop
begin

text \<open>
  The daemon and the operator together. While the daemon's runner moves, the operator runs commands on
  the same database and the same playlists: \<open>review\<close>, \<open>resync\<close>, one-shot \<open>sync\<close>, \<open>auth\<close>, and the
  rotations of other processes' tokens. \<open>system\<close> is everything the two sides can reach together, with a
  count of the runner's retries and of the tokens others have stored.

  SQLite's single connection and the process boundary make a command's statements and a pass's
  statements alternate; the model lets a command run as a whole between two of the daemon's moves.
\<close>

subsection \<open>Careful writers\<close>

text \<open>What is never twice in a playlist are real tracks; an empty id stands for an unreadable entry.\<close>

definition no_doubles :: "'z world_scheme \<Rightarrow> bool" where
  "no_doubles w \<longleftrightarrow> (\<forall>pl. distinct (filter (\<lambda>i. i \<noteq> []) (playlists w pl)))"

definition all_backed :: "'z world_scheme \<Rightarrow> bool" where
  "all_backed w \<longleftrightarrow> (\<forall>row\<in>set (synced_tracks (s_db w)). sr_spotify row \<in> set (playlists w (sr_playlist row)))"

definition books_balance :: "'z world_scheme \<Rightarrow> bool" where
  "books_balance w \<longleftrightarrow> no_doubles w \<and> all_backed w"

text \<open>
  The contract of everything that writes to a playlist: it appends tracks that were not there, each
  once, and books a track only when it is there.
\<close>

locale careful_writer =
  fixes runs :: "'z world_scheme \<Rightarrow> 'z world_scheme \<Rightarrow> bool"
    and pl :: string
  assumes appends_new: "runs w w' \<Longrightarrow> \<exists>posted. distinct (filter (\<lambda>i. i \<noteq> []) posted) \<and>
      set posted \<inter> real_ids (playlists w pl) = {} \<and> playlists w' = (playlists w)(pl := playlists w pl @ posted)"
    and books_behind: "runs w w' \<Longrightarrow> set (synced_tracks (s_db w')) \<subseteq> set (synced_tracks (s_db w)) \<union>
      {row. sr_playlist row = pl \<and> sr_spotify row \<in> set (playlists w' pl)}"
begin

lemma no_doubles_kept: "runs w w' \<Longrightarrow> no_doubles w \<Longrightarrow> no_doubles w'"
  using appends_new [of w w'] by (fastforce simp: no_doubles_def real_ids_def)

lemma all_backed_kept:
  assumes "runs w w'" "all_backed w"
  shows "all_backed w'"
proof -
  from appends_new [OF assms(1)] obtain posted where
    "playlists w' = (playlists w)(pl := playlists w pl @ posted)" by blast
  then have "set (playlists w p) \<subseteq> set (playlists w' p)" for p by auto
  then show ?thesis using books_behind [OF assms(1)] assms(2) unfolding all_backed_def by blast
qed

lemma books_kept: "runs w w' \<Longrightarrow> books_balance w \<Longrightarrow> books_balance w'"
  using no_doubles_kept all_backed_kept by (simp add: books_balance_def)

end

definition passes :: "'e eng_env_scheme \<Rightarrow> Engine \<Rightarrow> bool \<Rightarrow> 'z world_scheme \<Rightarrow> 'z world_scheme \<Rightarrow> bool" where
  "passes E g dry w w' \<longleftrightarrow> quiet E \<and> snd (pass E g dry w) = w'"

definition approves ::
  "'e net_env_scheme \<Rightarrow> Account \<Rightarrow> 'z world_scheme \<Rightarrow> 'z world_scheme \<Rightarrow> bool" where
  "approves E account w w' \<longleftrightarrow>
     quiet E \<and> account_exists (A_ID account) (s_db w) \<and>
     (\<exists>cid sec trackID n. snd (approveReview E cid sec account trackID n w) = w')"

interpretation pass_writer: careful_writer "passes E g dry" "eg_playlist g" for E g dry
proof
  fix w w' :: "'b world_scheme"
  assume p: "passes E g dry w w'"
  obtain st err g' where pass: "pass E g dry w = ((st, err, g'), w')"
    using p unfolding passes_def by (metis prod.collapse)
  have quiet: "quiet E" using p by (simp add: passes_def)
  show "\<exists>posted. distinct (filter (\<lambda>i. i \<noteq> []) posted) \<and> set posted \<inter> real_ids (playlists w (eg_playlist g)) = {} \<and>
      playlists w' = (playlists w)(eg_playlist g := playlists w (eg_playlist g) @ posted)"
  proof (cases dry)
    case True
    then have "playlists w' = playlists w" using dry_pass(2) pass quiet by metis
    then show ?thesis by (intro exI [of _ "[]"]) simp
  next
    case False
    with pass have "pass E g False w = ((st, err, g'), w')" by simp
    then show ?thesis
    proof (cases rule: real_pass)
      case (early e)
      then show ?thesis by (intro exI [of _ "[]"]) simp
    next
      case (ran row likes n)
      then show ?thesis using quiet unfolding posts_def by (metis disjoint_iff distinct_filter)
    qed
  qed
  show "set (synced_tracks (s_db w')) \<subseteq> set (synced_tracks (s_db w)) \<union>
      {row. sr_playlist row = eg_playlist g \<and> sr_spotify row \<in> set (playlists w' (eg_playlist g))}"
  proof (cases dry)
    case True
    then have "runs_only (s_db w) (s_db w')" using dry_pass(1) pass by metis
    then show ?thesis by (auto dest: runs_only_frame(2))
  next
    case False
    with pass have "pass E g False w = ((st, err, g'), w')" by simp
    then show ?thesis by (cases rule: real_pass) auto
  qed
qed


interpretation approve_writer: careful_writer "approves E account" "A_SpotifyPlaylistID account" for E account
proof
  let ?pl = "A_SpotifyPlaylistID account"
  fix w w' :: "'b world_scheme"
  assume a: "approves E account w w'"
  then obtain cid sec trackID n r where run: "approveReview E cid sec account trackID n w = (r, w')"
    and quiet: "quiet E" and ex: "account_exists (A_ID account) (s_db w)"
    unfolding approves_def by (metis prod.collapse)
  from run have "(\<exists>posted. distinct (filter (\<lambda>i. i \<noteq> []) posted) \<and> set posted \<inter> real_ids (playlists w ?pl) = {} \<and>
      playlists w' = (playlists w)(?pl := playlists w ?pl @ posted)) \<and>
    set (synced_tracks (s_db w')) \<subseteq> set (synced_tracks (s_db w)) \<union>
      {row. sr_playlist row = ?pl \<and> sr_spotify row \<in> set (playlists w' ?pl)}"
  proof (cases rule: approve_cases)
    case (refused e)
    then show ?thesis by (auto intro: exI [of _ "[]"])
  next
    case (chosen row w1)
    let ?i = "C_ID (Cand (R_Candidates (toReviewItem row) ! nat (n - 1)))"
    have "R_DifmTrackID (toReviewItem row) = trackID" using chosen(2) by (simp add: toReviewItem_def same_review_def)
    moreover have "account_exists (A_ID account) (s_db w1)" using ex chosen(5) by simp
    ultimately have A: "upholds account trackID w1 w'" "playlists w' = playlists w1 \<or>
        ?i \<notin> real_ids (playlists w1 ?pl) \<and> playlists w' = (playlists w1)(?pl := playlists w1 ?pl @ [?i])"
      using approve_chosen_result(1,3) [OF chosen(7)] quiet by blast+
    have "\<exists>posted. distinct (filter (\<lambda>i. i \<noteq> []) posted) \<and> set posted \<inter> real_ids (playlists w ?pl) = {} \<and>
      playlists w' = (playlists w)(?pl := playlists w ?pl @ posted)"
      using A(2) chosen(6) by (elim disjE) (auto intro: exI [of _ "[]"] exI [of _ "[?i]"])
    with A(1) chosen(5) show ?thesis by (simp add: upholds_def)
  qed
  then show "\<exists>posted. distinct (filter (\<lambda>i. i \<noteq> []) posted) \<and> set posted \<inter> real_ids (playlists w ?pl) = {} \<and>
      playlists w' = (playlists w)(?pl := playlists w ?pl @ posted)"
    "set (synced_tracks (s_db w')) \<subseteq> set (synced_tracks (s_db w)) \<union>
      {row. sr_playlist row = ?pl \<and> sr_spotify row \<in> set (playlists w' ?pl)}" by blast+
qed


subsection \<open>Gentle operations\<close>

text \<open>What neither adds to the ledger nor takes a token away nor leaves the database.\<close>

definition gentle_db :: "db \<Rightarrow> db \<Rightarrow> bool" where
  "gentle_db d d' \<longleftrightarrow> set (synced_tracks d') \<subseteq> set (synced_tracks d) \<and> set (tokens d) \<subseteq> set (tokens d')"

definition gentle :: "'z store_scheme \<Rightarrow> 'z store_scheme \<Rightarrow> bool" where
  "gentle w w' \<longleftrightarrow> same_rest w w' \<and> gentle_db (s_db w) (s_db w')"

abbreviation gentle_op :: "('z, 'a) op \<Rightarrow> bool" where
  "gentle_op \<equiv> confined gentle"

named_theorems gentle_ops \<open>operations that are gentle\<close>

lemma gentle_refl [simp]: "gentle w w"
  by (simp add: gentle_def gentle_db_def)

lemma gentle_trans: "gentle w1 w2 \<Longrightarrow> gentle w2 w3 \<Longrightarrow> gentle w1 w3"
  using same_rest_trans [of w1 w2 w3] by (auto simp: gentle_def gentle_db_def)

interpretation gentle_frame: op_frame gentle
  by unfold_locales (simp, rule gentle_trans)

lemmas [gentle_ops] = gentle_frame.const gentle_frame.bind gentle_frame.cond
lemmas gentle_opD = confined_apply [where R = gentle]

lemma gentle_query:
  assumes "\<And>now d. gentle_db d (snd (q now d))"
  shows "gentle_op (query E q)" "gentle_op (\<lambda>w. map_res f g (query E q w))"
proof -
  show q: "gentle_op (query E q)"
    unfolding confined_def gentle_def
  proof (intro allI conjI)
    fix w
    obtain r w' where e: "query E q w = (r, w')" by fastforce
    note Q = query_result [OF e]
    show "same_rest w (snd (query E q w))" using Q(1) e by simp
    show "gentle_db (s_db w) (s_db (snd (query E q w)))"
      using Q(3) e assms [of "s_db w" "e_now E (s_tick w)"] by (auto simp: gentle_db_def)
  qed
  then show "gentle_op (\<lambda>w. map_res f g (query E q w))" by (simp add: confined_def)
qed

lemma gentle_reads [gentle_ops]:
  "gentle_op (GetAccount E label)" "gentle_op (requireAccount E label)" "gentle_op (ListReview E acct status n)"
proof -
  have same: "(\<And>now d. snd (q now d) = d) \<Longrightarrow> gentle_db d (snd (q now d))" for q :: "gotime \<Rightarrow> 'x sql" and now d
    by (simp add: gentle_db_def)
  show g: "gentle_op (GetAccount E label)"
    unfolding GetAccount_def [abs_def]
    by (intro gentle_query same) (simp add: getAccountByLabel_def split: option.split)
  then show "gentle_op (requireAccount E label)" by (simp add: confined_def requireAccount_def)
  show "gentle_op (ListReview E acct status n)"
    unfolding ListReview_def [abs_def] by (intro gentle_query same) (simp add: listReviewQueue_def)
qed

lemma gentle_liked_at [gentle_ops]: "gentle_op (SyncedTrackLikedAt E acct track)"
  unfolding confined_def
proof
  fix w
  obtain r w' where q: "query E (\<lambda>_. getSyncedTrackLikedAt acct track) w = (r, w')" by fastforce
  have "gentle_op (query E (\<lambda>_. getSyncedTrackLikedAt acct track))"
    by (rule gentle_query) (simp add: getSyncedTrackLikedAt_def gentle_db_def split: list.split)
  from gentle_opD [OF this q] show "gentle w (snd (SyncedTrackLikedAt E acct track w))"
    by (cases r) (auto simp: SyncedTrackLikedAt_def q simp del: lit_simps split: option.split)
qed

lemma tokens_update:
  assumes "\<And>a. ar_id (f a) = ar_id a \<and> ar_token (f a) = ar_token a"
  shows "tokens (d\<lparr>accounts := update_where p f (accounts d)\<rparr>) = tokens d"
  unfolding tokens_def by (simp add: map_update_where assms)

lemma tokens_new: "set (tokens d) \<subseteq> set (tokens (d\<lparr>accounts := accounts d @ [a], next_account := n\<rparr>))"
  by (auto simp: tokens_def)

lemma gentle_writes [gentle_ops]:
  "gentle_op (EnsureAccount E label mid playlist)" "gentle_op (ResolveReview E acct track status)"
  "gentle_op (ForgetTrack E acct track)" "gentle_op (ForgetAllTracks E acct)"
  "gentle_op (SetWatermark E acct mark)" "gentle_op (ClearWatermark E acct)"
proof -
  show "gentle_op (EnsureAccount E label mid playlist)"
    unfolding EnsureAccount_def [abs_def]
    by (intro gentle_query)
      (simp add: gentle_db_def upsertAccount_def Let_def tokens_update tokens_new split: option.split)
  show "gentle_op (ResolveReview E acct track status)"
    unfolding ResolveReview_def [abs_def]
    by (intro gentle_query) (auto simp: gentle_db_def resolveReview_def tokens_def Let_def)
  show "gentle_op (ForgetTrack E acct track)"
    unfolding ForgetTrack_def [abs_def]
    by (intro gentle_query) (auto simp: gentle_db_def forgetSyncedTrack_def tokens_def Let_def)
  show "gentle_op (ForgetAllTracks E acct)"
    unfolding ForgetAllTracks_def [abs_def]
    by (intro gentle_query) (auto simp: gentle_db_def forgetAllSyncedTracks_def tokens_def Let_def)
  show "gentle_op (SetWatermark E acct mark)"
    unfolding SetWatermark_def [abs_def]
    by (intro gentle_query) (auto simp: gentle_db_def setWatermark_def tokens_update)
  show "gentle_op (ClearWatermark E acct)"
    unfolding ClearWatermark_def [abs_def]
    by (intro gentle_query) (auto simp: gentle_db_def clearWatermark_def tokens_update)
qed

lemma forget_each_Cons:
  "forget_each E acct (i # ids) missed earliest =
     bind_op (SyncedTrackLikedAt E acct i) (\<lambda>liked. bind_op (ForgetTrack E acct i) (\<lambda>found.
       forget_each E acct ids (if found then missed else missed + 1)
         (case liked of Some t \<Rightarrow> if earliest = 0 \<or> t < earliest then t else earliest | None \<Rightarrow> earliest)))"
  by (auto simp: bind_op_def fun_eq_iff Let_def split: prod.split sum.split)

lemma gentle_forget [gentle_ops]: "gentle_op (forget_each E acct ids missed earliest)"
proof (induction ids arbitrary: missed earliest)
  case Nil
  show ?case by (simp add: confined_def)
next
  case (Cons i ids)
  show ?case unfolding forget_each_Cons by (intro gentle_ops Cons)
qed

lemma forget_tracks_eq:
  "forget_tracks E account ids clearMark = bind_op (forget_each E (A_ID account) ids 0 0) (\<lambda>(missed, earliest).
     if missed = length ids \<and> \<not> clearMark then (\<lambda>s. (Inl (none_in_ledger missed), s))
     else if \<not> clearMark \<and> earliest \<noteq> 0 \<and> \<not> A_WatermarkLikedAt account < earliest
     then SetWatermark E (A_ID account) (earliest - second) else (\<lambda>s. (Inr (), s)))"
  by (auto simp: forget_tracks_def bind_op_def fun_eq_iff split: prod.split sum.split)

lemma gentle_forget_tracks [gentle_ops]: "gentle_op (forget_tracks E account ids clearMark)"
  unfolding forget_tracks_eq split_beta by (intro gentle_ops)

lemma gentle_resync [gentle_ops]: "gentle_op (resync E label all forget forgetAll)"
  unfolding resync_def Let_def by (intro gentle_ops)

lemma rejectReview_eq:
  "rejectReview E account track = bind_op (ResolveReview E (A_ID account) track ''rejected'')
     (\<lambda>found. if found then (\<lambda>s. (Inr (), s)) else (\<lambda>s. (Inl (Msg (no_queued track)), s)))"
  by (auto simp: rejectReview_def bind_op_def fun_eq_iff split: prod.split sum.split bool.split)

lemma gentle_reject [gentle_ops]: "gentle_op (rejectReview E account track)"
  unfolding rejectReview_eq by (intro gentle_ops)

lemma gentle_books: "gentle w w' \<Longrightarrow> books_balance w \<Longrightarrow> books_balance w'"
  using same_rest_playlists [of w w'] by (auto simp: gentle_def gentle_db_def books_balance_def no_doubles_def all_backed_def)


subsection \<open>The operator's moves\<close>

text \<open>The label of a move: it stores a refresh token, it is a resync of an account, or neither.\<close>

datatype deed = Stores | Resyncs string "int list" bool | Plain

inductive op_step ::
  "'e consent_env_scheme \<Rightarrow> (nat \<Rightarrow> disk) \<Rightarrow> 'z world_scheme \<Rightarrow> deed \<Rightarrow> 'z world_scheme \<Rightarrow> bool"
  for E :: "'e consent_env_scheme" and k where
  reviews: "review E cid sec label approve candidate reject status n w = (r, w') \<Longrightarrow> op_step E k w Plain w'"
| resyncs: "resync E label all forget forgetAll w = (r, w') \<Longrightarrow> op_step E k w (Resyncs label forget forgetAll) w'"
| ensures: "EnsureAccount E label mid pl w = (r, w') \<Longrightarrow> op_step E k w Plain w'"
| syncs: "sync_once E k cf fo w = (err, w') \<Longrightarrow> op_step E k w Plain w'"
| stores: "SetSpotifyRefreshToken E i tok w = (r, w') \<Longrightarrow> op_step E k w Stores w'"
| passes_time: "s_tick w \<le> t \<Longrightarrow> op_step E k w Plain (w\<lparr>s_tick := t\<rparr>)"

definition keeps_tokens :: "'z store_scheme \<Rightarrow> 'z store_scheme \<Rightarrow> bool" where
  "keeps_tokens w w' \<longleftrightarrow> set (tokens (s_db w)) \<subseteq> set (tokens (s_db w'))"

lemma gentle_tokens: "gentle w w' \<Longrightarrow> keeps_tokens w w'"
  by (simp add: gentle_def gentle_db_def keeps_tokens_def)

lemma keeps_trans: "keeps_tokens w1 w2 \<Longrightarrow> keeps_tokens w2 w3 \<Longrightarrow> keeps_tokens w1 w3"
  by (auto simp: keeps_tokens_def)

lemma approve_accounts:
  assumes "approveReview E cid sec account trackID n w = (r, w')" and "account_exists (A_ID account) (s_db w)"
  shows "accounts (s_db w') = accounts (s_db w)"
  using assms(1)
proof (cases rule: approve_cases)
  case (refused e)
  then show ?thesis by simp
next
  case (chosen row w1)
  have "R_DifmTrackID (toReviewItem row) = trackID" using chosen(2) by (simp add: toReviewItem_def same_review_def)
  moreover have "account_exists (A_ID account) (s_db w1)" using assms(2) chosen(5) by simp
  ultimately show ?thesis using approve_chosen_result(1) [OF chosen(7)] chosen(5) by (simp add: upholds_def)
qed

lemma review_path:
  fixes w :: "'z world_scheme"
  assumes "review E cid sec label approve candidate reject status n w = (r, w')"
  obtains (gentle) "gentle w w'"
  | (approved) account p w1 where "gentle w w1" "account_exists (A_ID account) (s_db w1)"
      "approveReview E cid sec account approve candidate w1 = (p, w')"
proof -
  obtain q w1 where a: "requireAccount E label w = (q, w1)" by fastforce
  have g: "gentle w w1" by (rule gentle_opD [OF gentle_reads(2) a])
  show thesis
  proof (cases q)
    case (Inl e)
    then have "w' = w1" using assms a by (simp add: review_def bind_op_def)
    with g show thesis by (intro gentle) simp
  next
    case (Inr account)
    have ex: "account_exists (A_ID account) (s_db w1)"
      using requireAccount_result(2,3) [OF a [unfolded Inr]] by (auto simp: account_exists_def toAccount_def)
    show thesis
    proof (cases "approve = 0")
      case False
      obtain p w2 where p: "approveReview E cid sec account approve candidate w1 = (p, w2)" by fastforce
      have "w' = w2" using assms a Inr False p by (cases p) (simp_all add: review_def bind_op_def)
      with approved [OF g ex] p show thesis by simp
    next
      case True
      define act :: "'z world_scheme \<Rightarrow> (gerr + reviewItemJSON list) \<times> 'z world_scheme" where
        "act = (if reject \<noteq> 0 then bind_op (rejectReview E account reject) (\<lambda>_ w. (Inr [], w))
           else bind_op (ListReview E (A_ID account) status n) (\<lambda>items w. (Inr (newReviewItemsJSON items), w)))"
      have "gentle_op act" unfolding act_def by (intro gentle_ops)
      moreover have "act w1 = (r, w')" using assms a Inr True by (simp add: review_def bind_op_def act_def)
      ultimately have "gentle w1 w'" by (rule gentle_opD)
      from gentle [OF gentle_trans [OF g this]] show thesis .
    qed
  qed
qed

lemma review_result:
  assumes "review E cid sec label approve candidate reject status n w = (r, w')"
  shows "quiet E \<Longrightarrow> books_balance w \<Longrightarrow> books_balance w'" "keeps_tokens w w'"
proof -
  from assms have "(quiet E \<longrightarrow> books_balance w \<longrightarrow> books_balance w') \<and> keeps_tokens w w'"
  proof (cases rule: review_path)
    case gentle
    then show ?thesis using gentle_books gentle_tokens by blast
  next
    case (approved account p w1)
    have "books_balance w'" if "quiet E" "books_balance w"
    proof -
      have "approves E account w1 w'" unfolding approves_def using approved that by (metis snd_conv)
      then show ?thesis by (rule approve_writer.books_kept) (rule gentle_books [OF approved(1) that(2)])
    qed
    moreover have "keeps_tokens w1 w'" using approve_accounts [OF approved(3,2)] by (simp add: keeps_tokens_def tokens_def)
    ultimately show ?thesis using keeps_trans [OF gentle_tokens [OF approved(1)]] by blast
  qed
  then show "quiet E \<Longrightarrow> books_balance w \<Longrightarrow> books_balance w'" "keeps_tokens w w'" by blast+
qed

lemma RunOnce_books:
  assumes "RunOnce E k dry dm w = (r, dm', w')" and "quiet E" and "books_balance w"
  shows "books_balance w'"
proof -
  obtain st err g' w1 where p: "pass E (dm_engine dm) dry w = ((st, err, g'), w1)"
    by (cases "pass E (dm_engine dm) dry w") auto
  have "passes E (dm_engine dm) dry w w1" using assms(2) p by (simp add: passes_def)
  then have "books_balance w1" using assms(3) by (rule pass_writer.books_kept)
  then show ?thesis
    using RunOnce_frame(2) [OF p assms(1)] runs_only_frame(2) [OF RunOnce_frame(4) [OF p assms(1)]]
    by (simp add: books_balance_def no_doubles_def all_backed_def)
qed

lemma newEngine_books:
  assumes "newEngine E cf fo a w = (r, w')" and "quiet E" and "books_balance w"
  shows "books_balance w'"
proof -
  have "playlists (snd (PlaylistName E pl w)) = playlists w" for pl
    using assms(2)
    by (auto simp: PlaylistName_def do_req_def serve_def quiet_def Let_def simp del: lit_simps
        split: prod.split sum.split body.split option.split failure.split)
  then have "PlaylistName E pl w = (q, v) \<Longrightarrow> playlists v = playlists w" for pl q v by (metis snd_conv)
  then have "playlists w' = playlists w"
    using assms(1) by (auto simp: newEngine_def simp del: lit_simps split: option.splits prod.splits sum.splits)
  then show ?thesis using newEngine_db [OF assms(1)] assms(3) by (simp add: books_balance_def no_doubles_def all_backed_def)
qed

lemma sync_once_result:
  assumes "sync_once E k cf fo w = (err, w')"
  shows "quiet E \<Longrightarrow> books_balance w \<Longrightarrow> books_balance w'" "keeps_tokens w w'"
proof -
  obtain q w1 where e: "EnsureAccount E (cf_label cf) (cf_member cf) (cf_playlist cf) w = (q, w1)" by fastforce
  have g: "gentle w w1" by (rule gentle_opD [OF gentle_writes(1) e])
  have "(quiet E \<longrightarrow> books_balance w \<longrightarrow> books_balance w') \<and> keeps_tokens w w'"
  proof (cases q)
    case (Inl x)
    then have "w' = w1" using assms e by (simp add: sync_once_def bind_op_def)
    then show ?thesis using gentle_books [OF g] gentle_tokens [OF g] by simp
  next
    case (Inr a)
    obtain p w2 where n: "newEngine E cf fo a w1 = (p, w2)" by fastforce
    have b2: "quiet E \<Longrightarrow> books_balance w \<Longrightarrow> books_balance w2" using newEngine_books [OF n] gentle_books [OF g] by blast
    have t2: "keeps_tokens w w2" using gentle_tokens [OF g] newEngine_db [OF n] by (simp add: keeps_tokens_def)
    show ?thesis
    proof (cases p)
      case (Inl x)
      then show ?thesis using assms e Inr n b2 t2 by (simp add: sync_once_def bind_op_def)
    next
      case dm: (Inr dm)
      obtain r dm' w3 where o: "RunOnce E k (cf_dryRun cf) dm w2 = (r, dm', w3)" by (metis prod_cases3)
      have "w' = w3" using assms e Inr n dm o by (simp add: sync_once_def bind_op_def split: prod.splits)
      then show ?thesis using RunOnce_books [OF o] b2 t2 RunOnce_tokens [OF o] by (simp add: keeps_tokens_def)
    qed
  qed
  then show "quiet E \<Longrightarrow> books_balance w \<Longrightarrow> books_balance w'" "keeps_tokens w w'" by blast+
qed

lemma set_token_books:
  assumes "SetSpotifyRefreshToken E i tok w = (r, w')" and "books_balance w"
  shows "books_balance w'"
  using SetSpotifyRefreshToken_result [OF assms(1)] same_rest_playlists [of w w'] assms(2)
  by (auto simp: books_balance_def no_doubles_def all_backed_def setSpotifyRefreshToken_def)

lemma op_step_result:
  assumes "op_step E k w deed w'"
  shows "quiet E \<Longrightarrow> books_balance w \<Longrightarrow> books_balance w'" "deed \<noteq> Stores \<Longrightarrow> keeps_tokens w w'"
proof -
  have "(quiet E \<longrightarrow> books_balance w \<longrightarrow> books_balance w') \<and> (deed \<noteq> Stores \<longrightarrow> keeps_tokens w w')"
    using assms
  proof (cases rule: op_step.cases)
    case (reviews cid sec label approve candidate reject status n r)
    from review_result [OF reviews(2)] show ?thesis by blast
  next
    case (resyncs label all forget forgetAll r)
    from gentle_opD [OF gentle_resync resyncs(2)] show ?thesis using gentle_books gentle_tokens by blast
  next
    case (ensures label mid pl r)
    from gentle_opD [OF gentle_writes(1) ensures(2)] show ?thesis using gentle_books gentle_tokens by blast
  next
    case (syncs cf fo err)
    from sync_once_result [OF syncs(2)] show ?thesis by blast
  next
    case (stores i tok r)
    then show ?thesis using set_token_books by blast
  next
    case (passes_time t)
    then show ?thesis by (simp add: books_balance_def no_doubles_def all_backed_def keeps_tokens_def)
  qed
  then show "quiet E \<Longrightarrow> books_balance w \<Longrightarrow> books_balance w'" "deed \<noteq> Stores \<Longrightarrow> keeps_tokens w w'" by blast+
qed

lemma tokenStored_rest:
  assumes "tokenStored E f w = (r, w')"
  shows "same_rest w w'"
  by (rule read_op(1) [OF assms [unfolded tokenStored_def HasSpotifyRefreshToken_def]]) (simp add: countSpotifyRefreshToken_def)

lemma await_step_frame:
  fixes w w' :: "'z world_scheme"
  assumes "await_step E srv (c, w) (c', w')"
  shows "playlists w' = playlists w" "synced_tracks (s_db w') = synced_tracks (s_db w)"
    "review_queue (s_db w') = review_queue (s_db w)"
proof -
  have complete: "same_rest v v' \<and> synced_tracks (s_db v') = synced_tracks (s_db v) \<and>
      review_queue (s_db v') = review_queue (s_db v)"
    if "Complete E f q v = (r, v')" for f q r and v v' :: "'z world_scheme"
    using that SetSpotifyRefreshToken_result [of E "fl_account f"]
    by (auto simp: Complete_def Exchange_def bind_op_def same_rest_def setSpotifyRefreshToken_def simp del: lit_simps
        split: if_splits sum.splits) (fastforce)+
  have "same_rest w w' \<and> synced_tracks (s_db w') = synced_tracks (s_db w) \<and>
      review_queue (s_db w') = review_queue (s_db w)"
    using assms
  proof cases
    case (request req pg ok signaled)
    then show ?thesis using complete
      by (auto simp: handler_def handleCallback_def completeConsentRequest_def Let_def simp del: lit_simps
          split: if_splits option.splits endpoint.splits prod.splits sum.splits)
  next
    case (poll_finds signaled)
    then show ?thesis
      using tokenStored_rest [OF poll_finds(3)] tokenStored_result(1) [OF poll_finds(3)] by simp
  next
    case (poll_waits r signaled)
    then show ?thesis
      using tokenStored_rest [OF poll_waits(3)] tokenStored_result(1) [OF poll_waits(3)] by simp
  qed (simp_all add: same_rest_def)
  then show "playlists w' = playlists w" "synced_tracks (s_db w') = synced_tracks (s_db w)"
    "review_queue (s_db w') = review_queue (s_db w)"
    using same_rest_playlists by blast+
qed

subsection \<open>Both together\<close>

text \<open>The runner goes round again because the rejected token is no longer the stored one.\<close>

definition retrying :: "'e consent_env_scheme \<Rightarrow> phase \<times> folder \<times> 'z world_scheme \<Rightarrow> bool" where
  "retrying E s \<longleftrightarrow>
     (case s of
        (Stopped a held err, fo, w) \<Rightarrow> revoked err \<and> fst (ClearSpotifyRefreshTokenIf E (A_ID a) held w) = Inr False
      | _ \<Rightarrow> False)"

inductive system ::
  "'e consent_env_scheme \<Rightarrow> (nat \<Rightarrow> disk) \<Rightarrow> config \<Rightarrow> folder \<times> 'z world_scheme \<Rightarrow>
   nat \<Rightarrow> nat \<Rightarrow> phase \<times> folder \<times> 'z world_scheme \<Rightarrow> bool"
  for E :: "'e consent_env_scheme" and k and cf and boot where
  boots: "system E k cf boot 0 0 (Top, boot)"
| daemon_moves: "system E k cf boot retries writes s \<Longrightarrow> run_step E k cf s s' \<Longrightarrow>
    system E k cf boot (if retrying E s then retries + 1 else retries) writes s'"
| operator_moves: "system E k cf boot retries writes (ph, fo, w) \<Longrightarrow> op_step E k w deed w' \<Longrightarrow>
    system E k cf boot retries (if deed = Stores then writes + 1 else writes) (ph, fo, w')"

lemma run_step_books:
  assumes "run_step E k cf (ph, fo, w) (ph', fo', w')" and "quiet E" and "books_balance w"
  shows "books_balance w'"
proof -
  have read: "GetAccount E label w = (r, v) \<Longrightarrow> books_balance v" for label r v
    using gentle_books [OF gentle_opD [OF gentle_reads(1)]] assms(3) by blast
  have tick: "books_balance (w\<lparr>s_tick := t\<rparr>)" for t
    using assms(3) by (simp add: books_balance_def no_doubles_def all_backed_def)
  have clear: "books_balance v" if "ClearSpotifyRefreshTokenIf E i held w = (r, v)" for i held r v
  proof -
    have "fails_clean (\<lambda>_. clearSpotifyRefreshTokenIf i held)"
      by (simp add: fails_clean_def clearSpotifyRefreshTokenIf_def Let_def)
    note W = write_op [OF that [unfolded ClearSpotifyRefreshTokenIf_def] this]
    have "synced_tracks (s_db v) = synced_tracks (s_db w)"
      using W(6) by (auto simp: clearSpotifyRefreshTokenIf_def Let_def dest: arg_cong [where f = synced_tracks])
    then show ?thesis using same_rest_playlists [OF W(1)] assms(3)
      by (simp add: books_balance_def no_doubles_def all_backed_def)
  qed
  have rot: "rotated E i tok held w = (held', v) \<Longrightarrow> books_balance v" for i tok held held' v
    using set_token_books assms(3) by (auto simp: rotated_def split: if_splits prod.splits sum.splits)
  show ?thesis
    using assms(1)
  proof (cases rule: run_step.cases)
    case (waits srv c c')
    have "playlists w' = playlists w" and "synced_tracks (s_db w') = synced_tracks (s_db w)"
      using await_step_frame [OF waits(4)] by simp_all
    then show ?thesis using assms(3) by (simp add: books_balance_def no_doubles_def all_backed_def)
  next
    case (loops ls dm ls' dm' a held)
    then obtain d where step: "loop_step E k (cf_interval cf) (cf_dryRun cf) (Waiting d, dm, w) (ls', dm', w')"
      by (cases ls) (auto elim: returned_stepE)
    show ?thesis
      by (rule loop_stepE [OF step]) (use tick assms(3) RunOnce_books [OF _ assms(2,3)] in auto)
  qed (use read assms(3) newEngine_books [OF _ assms(2,3)] clear rot in auto)
qed


subsection \<open>Retries\<close>

fun held_by :: "phase \<Rightarrow> (int \<times> string) option" where
  "held_by (Building a held) = Some (A_ID a, held)"
| "held_by (Looping a held ls dm) = Some (A_ID a, held)"
| "held_by (Stopped a held err) = Some (A_ID a, held)"
| "held_by ph = None"

text \<open>The engine's token is the stored one, or others have written more often than the runner retried.\<close>

definition covered :: "nat \<Rightarrow> nat \<Rightarrow> phase \<Rightarrow> db \<Rightarrow> bool" where
  "covered retries writes ph d \<longleftrightarrow>
     retries \<le> writes \<and> (case held_by ph of None \<Rightarrow> True | Some h \<Rightarrow> h \<in> set (tokens d) \<or> retries < writes)"

lemma GetAccount_token:
  assumes "GetAccount E label w = (Inr a, w')"
  shows "(A_ID a, A_SpotifyRefreshToken a) \<in> set (tokens (s_db w'))"
proof -
  from GetAccount_result(2,3) [OF assms] obtain row where "row \<in> set (accounts (s_db w'))" "a = toAccount row" by auto
  then show ?thesis by (auto simp: tokens_def toAccount_def)
qed

lemma held_await [simp]: "held_by (await E cf a state nonce listen) = None"
  by (simp add: await_def Let_def del: lit_simps split: sum.split option.split)

lemma run_step_held:
  assumes "run_step E k cf (ph, fo, w) (ph', fo', w')"
  shows "held_by ph' = None \<or>
    (\<exists>h'. held_by ph' = Some h' \<and> \<not> retrying E (ph, fo, w) \<and>
       (h' \<in> set (tokens (s_db w')) \<or>
        (\<exists>h. held_by ph = Some h \<and> (h \<in> set (tokens (s_db w)) \<longrightarrow> h' \<in> set (tokens (s_db w'))))))"
proof -
  have rot: "(i, held') \<in> set (tokens (s_db w')) \<or> \<not> (i, held) \<in> set (tokens (s_db w))"
    if "rotated E i tok held w = (held', w')" for i tok held held'
    using rotated_result [OF that] by (force simp: tokens_set)
  show ?thesis
    using assms
  proof (cases rule: run_step.cases)
    case (loops ls dm ls' dm' a held)
    then show ?thesis using loop_step_tokens [OF loops(4)] by (auto simp: retrying_def)
  next
    case (not_built a e held)
    then show ?thesis using newEngine_db [OF not_built(4)] by (auto simp: retrying_def)
  next
    case (built a dm j held)
    then show ?thesis using newEngine_db [OF built(4)] by (auto simp: retrying_def)
  next
    case (rotates_early a tok held held')
    then show ?thesis using rot by (auto simp: retrying_def)
  next
    case (rotates a tok held held' ls dm)
    then show ?thesis using rot by (auto simp: retrying_def)
  qed (auto simp: retrying_def dest: GetAccount_token)
qed

lemma retrying_lost:
  assumes "retrying E (ph, fo, w)"
  shows "\<exists>h. held_by ph = Some h \<and> h \<notin> set (tokens (s_db w))"
proof -
  obtain a held err where ph: "ph = Stopped a held err" using assms by (cases ph) (auto simp: retrying_def)
  obtain w' where c: "ClearSpotifyRefreshTokenIf E (A_ID a) held w = (Inr False, w')"
    using assms ph by (auto simp: retrying_def) (metis prod.collapse)
  from ClearSpotifyRefreshTokenIf_result(2) [OF c refl] ph show ?thesis by simp
qed

text \<open>
  C11: the runner cannot spin. However the daemon and the operator interleave, the runner has gone round
  again after a revoked grant, without asking for consent, at most as often as somebody else has
  stored a refresh token: each retry needs another write, so without one it comes to rest.
\<close>

theorem retries_need_writes:
  assumes "system E k cf (fo0, w0) retries writes s"
  shows "retries \<le> writes"
proof -
  have "covered retries writes (fst s) (s_db (snd (snd s)))"
    using assms
  proof (induction rule: system.induct)
    case boots
    show ?case by (simp add: covered_def)
  next
    case (daemon_moves retries writes s s')
    obtain ph fo v ph' fo' v' where s: "s = (ph, fo, v)" "s' = (ph', fo', v')" by (metis prod_cases3)
    have step: "run_step E k cf (ph, fo, v) (ph', fo', v')" using daemon_moves(2) s by simp
    have c: "covered retries writes ph (s_db v)" using daemon_moves(3) s by simp
    have "covered (if retrying E s then retries + 1 else retries) writes ph' (s_db v')"
    proof (cases "retrying E s")
      case True
      with s have "retrying E (ph, fo, v)" by simp
      from retrying_lost [OF this] c have "retries < writes" by (auto simp: covered_def)
      moreover have "held_by ph' = None" using run_step_held [OF step] True s by auto
      ultimately show ?thesis using True by (simp add: covered_def)
    next
      case False
      with run_step_held [OF step] c show ?thesis by (auto simp: covered_def)
    qed
    with s show ?case by simp
  next
    case (operator_moves retries writes ph fo v deed v')
    show ?case
    proof (cases "deed = Stores")
      case True
      then show ?thesis using operator_moves(3) by (auto simp: covered_def split: option.splits)
    next
      case False
      have "keeps_tokens v v'" by (rule op_step_result(2) [OF operator_moves(2) False])
      with False operator_moves(3) show ?thesis by (auto simp: covered_def keeps_tokens_def split: option.splits)
    qed
  qed
  then show ?thesis by (simp add: covered_def)
qed

subsection \<open>A concrete run\<close>

text \<open>Spotify refuses every token; while the daemon builds its engine, somebody stores another one.\<close>

definition gate :: consent_env where
  "gate = office\<lparr>n_fail := \<lambda>_. Some (Transport (Sentinel SpErrGrantRevoked))\<rparr>"

lemma gate_well: "e_fault gate n = None"
  by (simp add: gate_def office_well)

lemma gate_read:
  assumes "accounts (s_db w) = [stale]"
  shows "GetAccount gate ''default'' w = (Inr (toAccount stale), w\<lparr>s_tick := s_tick w + 1\<rparr>)"
  using assms by (simp add: GetAccount_def query_def gate_well getAccountByLabel_def) (simp add: stale_def default_row_def)

lemma stale_account: "A_ID (toAccount stale) = 1" "A_SpotifyRefreshToken (toAccount stale) = ''old''"
  by (simp_all add: toAccount_def stale_def default_row_def)

lemma gate_engine:
  obtains e w' where "newEngine gate household [] (toAccount stale) w = (Inl e, w')" "errors_is e SpErrGrantRevoked"
    "s_db w' = s_db w"
proof -
  have a: "auth_client (A_SpotifyRefreshToken (toAccount stale)) = None"
    unfolding stale_account by code_simp
  have "\<exists>e. fst (PlaylistName gate pl w) = Inl e \<and> errors_is e SpErrGrantRevoked" for pl
    by (simp add: PlaylistName_def do_req_def serve_def gate_def Let_def del: lit_simps)
  then obtain e w' where p: "PlaylistName gate (A_SpotifyPlaylistID (toAccount stale)) w = (Inl e, w')"
    "errors_is e SpErrGrantRevoked" by (metis prod.collapse)
  then have n: "newEngine gate household [] (toAccount stale) w = (Inl e, w')" using a by (simp add: newEngine_def)
  show thesis by (rule that [OF n p(2) newEngine_db [OF n]])
qed

lemma second_round:
  obtains w where "system gate (\<lambda>_. good_disk) household ([], cellar) 1 1 (Top, [], w)"
proof -
  let ?k = "\<lambda>_ :: nat. good_disk" and ?a = "toAccount stale"
  let ?w1 = "cellar\<lparr>s_tick := s_tick cellar + 1\<rparr>"
  have r: "GetAccount gate (cf_label household) cellar = (Inr ?a, ?w1)"
    using gate_read [of cellar] by (simp add: cellar_def household_def)
  have "run_step gate ?k household (Top, [], cellar) (Building ?a ''old'', [], ?w1)"
    using authorized [OF r, of ?k "[]"] stale_account(2) by simp
  from daemon_moves [OF boots this] have s1: "system gate ?k household ([], cellar) 0 0 (Building ?a ''old'', [], ?w1)"
    by (simp add: retrying_def)
  let ?w2 = "snd (SetSpotifyRefreshToken gate 1 ''new'' ?w1)"
  have set: "SetSpotifyRefreshToken gate 1 ''new'' ?w1 = (Inr (), ?w2)" "tokens (s_db ?w2) = [(1, ''new'')]"
    by (simp_all add: SetSpotifyRefreshToken_def query_def gate_well setSpotifyRefreshToken_def tokens_def update_where_def
        cellar_def stale_def default_row_def)
  from operator_moves [OF s1 stores [OF set(1)]]
  have s2: "system gate ?k household ([], cellar) 0 1 (Building ?a ''old'', [], ?w2)" by simp
  obtain e w3 where n: "newEngine gate household [] ?a ?w2 = (Inl e, w3)" "errors_is e SpErrGrantRevoked" "s_db w3 = s_db ?w2"
    by (rule gate_engine)
  from daemon_moves [OF s2 not_built [OF n(1)]]
  have s3: "system gate ?k household ([], cellar) 0 1 (Stopped ?a ''old'' (Some e), [], w3)" by (simp add: retrying_def)
  have rev: "revoked (Some e)" using n(2) by (simp add: revoked_def)
  obtain q w4 where c: "ClearSpotifyRefreshTokenIf gate 1 ''old'' w3 = (q, w4)" by fastforce
  have "\<exists>b. q = Inr b"
    using c by (auto simp: ClearSpotifyRefreshTokenIf_def query_def gate_well clearSpotifyRefreshTokenIf_def Let_def)
  then obtain b where "q = Inr b" ..
  with ClearSpotifyRefreshTokenIf_result(2) [OF c] n(3) set(2) have q: "q = Inr False" by simp
  then have "ClearSpotifyRefreshTokenIf gate (A_ID ?a) ''old'' w3 = (Inr False, w4)" using c stale_account(1) by simp
  from daemon_moves [OF s3 retries [OF rev this]]
  have "system gate ?k household ([], cellar) 1 1 (Top, [], w4)"
    using rev q c stale_account(1) by (simp add: retrying_def)
  then show thesis by (rule that)
qed


theorem retries_need_writes_witness:
  "\<exists>w. system gate (\<lambda>_. good_disk) household ([], cellar) 1 1 (Top, [], w) \<and> (1 :: nat) \<le> 1"
proof -
  obtain w where s: "system gate (\<lambda>_. good_disk) household ([], cellar) 1 1 (Top, [], w)" by (rule second_round)
  from retries_need_writes [OF s] s show ?thesis by blast
qed

end
