(* ===== verification/Opening.thy ===== *)
theory Opening
  imports Urls
begin

text \<open>
  How a command gets its store: \<open>openStore\<close>, \<open>mountDiagnostic\<close> and \<open>withStore\<close> of \<open>cmd/difmsync/main.go\<close>,
  and \<open>Open\<close>, \<open>dsnWithPragmas\<close> and \<open>Migrate\<close> of \<open>internal/store/sqlite/store.go\<close>.

  The answers of the operating system, of the SQLite driver and of goose are a record; what the code
  makes them do is the list of effects it returns, in order.
\<close>

subsection \<open>The world outside\<close>

record opsys =
  os_stat :: "string \<Rightarrow> gerr + runes \<times> (int \<times> int) option"
  os_ids :: "int \<times> int"
  os_mkdir :: "string \<Rightarrow> gerr option"
  os_create :: "string \<Rightarrow> gerr option"
  os_chmod :: "string \<Rightarrow> gerr option"
  os_sql_open :: "gerr option"
  os_ping :: "(gerr \<times> int option) option"
  os_quick_check :: "gerr + runes"
  os_dialect :: "gerr option"
  os_up :: "gerr option"

datatype effect =
    Mkdir string int
  | Create string int
  | Chmod string int
  | Connect string
  | Disconnect
  | MigrateUp

type_synonym 'a attempt = "(gerr + 'a) \<times> effect list"

text \<open>One thing after the other: an error ends it, the effects add up.\<close>

fun followed_by :: "'a attempt \<Rightarrow> ('a \<Rightarrow> 'b attempt) \<Rightarrow> 'b attempt" where
  "followed_by (Inl e, effs) k = (Inl e, effs)"
| "followed_by (Inr x, effs) k = (case k x of (r, es) \<Rightarrow> (r, effs @ es))"

subsection \<open>Open\<close>

definition restoreHint :: runes where
  "restoreHint =
     lit ''restore from a backup '' @ [8212] @ lit '' see the Restoring section of the deployment runbook, ''
     @ lit ''https://github.com/mjrossi/difm-spotify-sync/blob/main/docs/deploy.md#restoring''"

definition pragmas :: url_values where
  "pragmas = [(''_pragma'', ''journal_mode(WAL)''), (''_pragma'', ''foreign_keys(1)''), (''_pragma'', ''busy_timeout(5000)'')]"

definition dsnWithPragmas :: "string \<Rightarrow> string" where
  "dsnWithPragmas path = path @ (if CHR ''?'' \<in> set path then ''&'' else ''?'') @ query_encode pragmas"

definition Open :: "opsys \<Rightarrow> string \<Rightarrow> unit attempt" where
  "Open os path =
     (let pre = lit ''sqlite.Open: '' @ lit path @ lit '': ''; conn = Connect (dsnWithPragmas path)
      in if trim_space (lit path) = [] then (Inl (Msg (lit ''sqlite.Open: empty path'')), [])
         else case os_sql_open os of
           Some e \<Rightarrow> (Inl (Wrap (lit ''sqlite.Open: '') e []), [])
         | None \<Rightarrow>
             (case os_ping os of
                Some (e, code) \<Rightarrow>
                  (if code = Some 11 \<or> code = Some 26
                   then Inl (Wrap2 pre (Sentinel StoreErrCorrupt) (lit '' ('') e (lit ''); '' @ restoreHint))
                   else Inl (Wrap (lit ''sqlite.Open: ping: '') e []), [conn, Disconnect])
              | None \<Rightarrow>
                  (case os_quick_check os of
                     Inl e \<Rightarrow>
                       (Inl (Wrap (pre @ lit ''integrity check did not finish ('') e
                               (lit ''); the database may be large or the storage slow '' @ [8212]
                                @ lit '' check DIFMSYNC_DB_PATH'')), [conn, Disconnect])
                   | Inr verdict \<Rightarrow>
                       if verdict = lit ''ok'' then (Inr (), [conn])
                       else (let detail = (if 10 \<in> set verdict then snd (cut_at 10 verdict) else verdict)
                             in (Inl (Wrap pre (Sentinel StoreErrCorrupt)
                                        (lit '' ('' @ detail @ lit ''); '' @ restoreHint)), [conn, Disconnect])))))"

definition Migrate :: "opsys \<Rightarrow> unit attempt" where
  "Migrate os =
     (case os_dialect os of
        Some e \<Rightarrow> (Inl (Wrap (lit ''sqlite.Migrate: dialect: '') e []), [])
      | None \<Rightarrow>
          (case os_up os of
             Some e \<Rightarrow> (Inl (Wrap (lit ''sqlite.Migrate: '') e []), [MigrateUp])
           | None \<Rightarrow> (Inr (), [MigrateUp])))"

subsection \<open>openStore\<close>

definition mountDiagnostic :: "opsys \<Rightarrow> string \<Rightarrow> runes" where
  "mountDiagnostic os path =
     (let dir = lit (path_dir path)
      in case os_stat os (path_dir path) of
           Inl e \<Rightarrow> [10] @ lit ''  (could not stat '' @ dir @ lit '': '' @ err_text e @ lit '')''
         | Inr (mode, owner) \<Rightarrow>
             [10] @ lit ''  '' @ dir @ lit '' has mode '' @ mode
             @ (case owner of None \<Rightarrow> [] | Some (u, g) \<Rightarrow> lit '', owned by uid '' @ itoa u @ lit '' gid '' @ itoa g)
             @ lit ''; this process runs as uid '' @ itoa (fst (os_ids os)) @ lit '' gid '' @ itoa (snd (os_ids os)) @ lit ''.''
             @ [10] @ lit ''  If those disagree, the mounted volume is not writable by the service '' @ [8212]
             @ [10] @ lit ''  see the volume ownership section of docs/deploy.md.'')"

text \<open>The modes \<open>0o750\<close> and \<open>0o600\<close>.\<close>

definition dirMode :: int where "dirMode = 7 * 64 + 5 * 8"
definition fileMode :: int where "fileMode = 6 * 64"

definition make_parent :: "opsys \<Rightarrow> string \<Rightarrow> unit attempt" where
  "make_parent os path =
     (let dir = path_dir path
      in if dir \<noteq> [] \<and> dir \<noteq> ''.'' then
           (case os_mkdir os dir of
              Some e \<Rightarrow> Inl (Wrap (lit ''create db directory '' @ lit dir @ lit '': '') e [])
            | None \<Rightarrow> Inr (), [Mkdir dir dirMode])
         else (Inr (), []))"

text \<open>A path the driver opens as it is, and no file of its own.\<close>

definition plain_path :: "string \<Rightarrow> bool" where
  "plain_path path \<longleftrightarrow> path \<noteq> '':memory:'' \<and> CHR ''?'' \<notin> set path"

definition restrict_file :: "opsys \<Rightarrow> string \<Rightarrow> unit attempt" where
  "restrict_file os path =
     (if \<not> plain_path path then (Inr (), [])
      else case os_create os path of
             Some e \<Rightarrow> (Inl (Wrap (lit ''create '' @ lit path @ lit '': '') e (mountDiagnostic os path)), [])
           | None \<Rightarrow>
               (case os_chmod os path of
                  Some e \<Rightarrow> (Inl (Wrap (lit ''restrict permissions on '' @ lit path @ lit '': '') e []), [Create path fileMode])
                | None \<Rightarrow> (Inr (), [Create path fileMode, Chmod path fileMode])))"

definition openStore :: "opsys \<Rightarrow> string \<Rightarrow> unit attempt" where
  "openStore os path =
     followed_by (make_parent os path) (\<lambda>_.
     followed_by (restrict_file os path) (\<lambda>_.
       case Open os path of
         (Inl e, effs) \<Rightarrow>
           (if errors_is e StoreErrCorrupt then Inl e else Inl (Wrap [] e (mountDiagnostic os path)), effs)
       | (Inr _, effs) \<Rightarrow>
           (case Migrate os of
              (Inl e, es) \<Rightarrow> (Inl e, effs @ es @ [Disconnect])
            | (Inr _, es) \<Rightarrow> (Inr (), effs @ es))))"

text \<open>\<open>withStore\<close>: the store is closed however the command ends.\<close>

definition withStore :: "opsys \<Rightarrow> string \<Rightarrow> gerr option \<times> effect list \<Rightarrow> gerr option \<times> effect list" where
  "withStore os path fn =
     (case openStore os path of
        (Inl e, effs) \<Rightarrow> (Some e, effs)
      | (Inr _, effs) \<Rightarrow> (fst fn, effs @ snd fn @ [Disconnect]))"

subsection \<open>The data source name\<close>

lemma parse_pieces_append:
  "parse_pieces (ps @ qs) vs err = (case parse_pieces ps vs err of (us, e) \<Rightarrow> parse_pieces qs (rev us) e)"
proof (induction ps arbitrary: vs err)
  case (Cons p ps)
  then show ?case by (auto split: sum.split prod.split)
qed simp

lemma split_on_snoc: "split_on c (s @ c # t) = split_on c s @ split_on c t"
proof (induction s)
  case (Cons x s)
  then show ?case by (cases "split_on c s") auto
qed simp

text \<open>
  Every connection has the pragmas the schema relies on. Whatever path the operator gives, with or
  without a query of its own, the parameters the driver reads from the data source name are the operator's,
  unchanged, followed by write-ahead logging, foreign keys and the busy timeout.
\<close>

theorem dsn_keeps_query:
  "parse_query (snd (cut_at CHR ''?'' (dsnWithPragmas path))) =
     (case parse_query (snd (cut_at CHR ''?'' path)) of (own, err) \<Rightarrow> (own @ pragmas, err))"
proof -
  have pr: "parse_pieces (split_on CHR ''&'' (query_encode pragmas)) us err = (rev us @ pragmas, err)" for us err
    using split_on_join [of "map query_pair pragmas" "CHR ''&''"] parse_pairs [of pragmas us err] escape_avoids(1)
    by (simp add: query_encode_def pragmas_def query_pair_def)
  show ?thesis
  proof (cases "CHR ''?'' \<in> set path")
    case True
    then obtain a b where p: "path = a @ CHR ''?'' # b" "CHR ''?'' \<notin> set a" by (metis split_list_first)
    have "cut_at CHR ''?'' (dsnWithPragmas path) = (a, b @ CHR ''&'' # query_encode pragmas)"
      using p by (simp add: dsnWithPragmas_def cut_at_append)
    then show ?thesis using p
      by (simp add: cut_at_append parse_query_def split_on_snoc parse_pieces_append pr split: prod.split)
  next
    case False
    then have "cut_at CHR ''?'' (dsnWithPragmas path) = (path, query_encode pragmas)"
      by (simp add: dsnWithPragmas_def cut_at_append)
    then show ?thesis using False by (simp add: cut_at_none parse_query_def pr)
  qed
qed

subsection \<open>The database file\<close>

text \<open>
  What the effects do to the modes of files; \<open>None\<close> is no file. The driver creates a missing file with a
  mode that others may be able to read, \<open>dm\<close>.
\<close>

fun apply_effect :: "int \<Rightarrow> effect \<Rightarrow> (string \<Rightarrow> int option) \<Rightarrow> string \<Rightarrow> int option" where
  "apply_effect dm (Create p mode) m = (if m p = None then m(p \<mapsto> mode) else m)"
| "apply_effect dm (Chmod p mode) m = m(p \<mapsto> mode)"
| "apply_effect dm (Connect dsn) m =
     (let p = fst (cut_at CHR ''?'' dsn) in if m p = None then m(p \<mapsto> dm) else m)"
| "apply_effect dm e m = m"

definition calm_effects :: "string \<Rightarrow> effect list \<Rightarrow> bool" where
  "calm_effects path effs \<longleftrightarrow>
     effs = [] \<or> (\<exists>rest. effs = Connect (dsnWithPragmas path) # rest \<and> set rest \<subseteq> {Disconnect, MigrateUp})"

lemma Open_effects: "calm_effects path (snd (Open os path))"
  by (auto simp: Open_def calm_effects_def Let_def simp del: lit_simps split: option.split sum.split)

lemma Migrate_effects: "set (snd (Migrate os)) \<subseteq> {MigrateUp}"
  by (auto simp: Migrate_def simp del: lit_simps split: option.split)

lemma Open_connects: "isl (fst (Open os path)) \<or> snd (Open os path) \<noteq> []"
  by (simp add: Open_def Let_def del: lit_simps split: option.split sum.split)

lemma openStore_effects:
  assumes "openStore os path = (r, effs)" and "plain_path path"
  obtains mk es where "set mk \<subseteq> {Mkdir (path_dir path) dirMode}" "calm_effects path es"
    "effs = mk \<or> effs = mk @ [Create path fileMode] \<or> effs = mk @ [Create path fileMode, Chmod path fileMode] @ es"
proof -
  define mk where "mk = snd (make_parent os path)"
  have mk: "set mk \<subseteq> {Mkdir (path_dir path) dirMode}"
    by (auto simp: mk_def make_parent_def Let_def simp del: lit_simps split: option.split)
  define opened where "opened = (case Open os path of
      (Inl e, effs) \<Rightarrow> (if errors_is e StoreErrCorrupt then Inl e else Inl (Wrap [] e (mountDiagnostic os path)), effs)
    | (Inr _, effs) \<Rightarrow> (case Migrate os of (Inl e, es) \<Rightarrow> (Inl e, effs @ es @ [Disconnect]) | (Inr _, es) \<Rightarrow> (Inr (), effs @ es)))"
  have calm: "calm_effects path (snd opened)"
  proof (cases "Open os path")
    case (Pair q es)
    show ?thesis
    proof (cases q)
      case (Inl e)
      then show ?thesis using Pair Open_effects [of path os] by (simp add: opened_def)
    next
      case (Inr x)
      then obtain rest where "es = Connect (dsnWithPragmas path) # rest" "set rest \<subseteq> {Disconnect, MigrateUp}"
        using Pair Open_effects [of path os] Open_connects [of os path] by (auto simp: calm_effects_def)
      then show ?thesis using Pair Inr Migrate_effects [of os]
        by (auto simp: opened_def calm_effects_def split: prod.split sum.split)
    qed
  qed
  have "(r, effs) = followed_by (make_parent os path) (\<lambda>_. followed_by (restrict_file os path) (\<lambda>_. opened))"
    using assms(1) by (simp add: openStore_def opened_def)
  moreover obtain q where "make_parent os path = (q, mk)" by (metis mk_def prod.collapse)
  ultimately have "effs = mk \<or> effs = mk @ [Create path fileMode] \<or>
      effs = mk @ [Create path fileMode, Chmod path fileMode] @ snd opened"
    using assms(2)
    by (cases q) (auto simp: restrict_file_def simp del: lit_simps split: option.splits prod.splits)
  with mk calm show thesis by (rule that)
qed

lemma mkdir_keeps: "set mk \<subseteq> {Mkdir d x} \<Longrightarrow> fold (apply_effect dm) mk m = m"
  by (induction mk arbitrary: m) auto

lemma calm_keeps:
  assumes "set es \<subseteq> {Disconnect, MigrateUp, Connect (dsnWithPragmas path)}" and "plain_path path" and "m path = Some x"
  shows "fold (apply_effect dm) es m path = Some x"
  using assms(1,3)
proof (induction es arbitrary: m)
  case (Cons e es)
  have "fst (cut_at CHR ''?'' (dsnWithPragmas path)) = path"
    using assms(2) by (simp add: dsnWithPragmas_def cut_at_append plain_path_def)
  then have "apply_effect dm e m path = Some x" using Cons.prems by (auto simp: Let_def)
  with Cons show ?case by auto
qed simp

text \<open>
  C39: the database file is never open to others. Whenever the driver connects to a plain path, the file
  exists with mode \<open>0o600\<close>, whatever mode an older file had; and if there was no file, no moment of the
  opening shows it with any other mode, whatever mode the driver would have created it with.
\<close>

theorem store_file_private:
  assumes "openStore os path = (r, effs)" and "plain_path path" and "effs = before_it @ after_it"
  shows "(m path = None \<longrightarrow> fold (apply_effect dm) before_it m path \<in> {None, Some fileMode}) \<and>
    ((\<exists>dsn. after_it \<noteq> [] \<and> hd after_it = Connect dsn) \<longrightarrow> fold (apply_effect dm) before_it m path = Some fileMode)"
proof -
  obtain mk es where mk: "set mk \<subseteq> {Mkdir (path_dir path) dirMode}" and es: "calm_effects path es"
    and effs: "effs = mk \<or> effs = mk @ [Create path fileMode] \<or> effs = mk @ [Create path fileMode, Chmod path fileMode] @ es"
    by (rule openStore_effects [OF assms(1,2)])
  have es': "set es \<subseteq> {Disconnect, MigrateUp, Connect (dsnWithPragmas path)}" using es by (auto simp: calm_effects_def)
  obtain us where us: "mk @ [Create path fileMode, Chmod path fileMode] @ es = before_it @ us"
    "\<exists>dsn. after_it \<noteq> [] \<and> hd after_it = Connect dsn \<Longrightarrow> us = after_it"
  proof (cases "effs = mk @ [Create path fileMode, Chmod path fileMode] @ es")
    case True
    then show thesis using that assms(3) by blast
  next
    case False
    with effs have e: "effs = mk \<or> effs = mk @ [Create path fileMode]" by blast
    have "hd after_it \<noteq> Connect dsn" if "after_it \<noteq> []" for dsn
    proof -
      have "hd after_it \<in> set effs" using that assms(3) by simp
      with e mk show ?thesis by auto
    qed
    moreover from e assms(3) obtain us where "mk @ [Create path fileMode, Chmod path fileMode] @ es = before_it @ us"
      by (metis append.assoc append_Cons append_Nil)
    ultimately show thesis using that by blast
  qed
  let ?f = "\<lambda>xs. fold (apply_effect dm) xs m path"
  have nc: "Connect dsn \<notin> set mk" for dsn using mk by auto
  consider (early) a where "mk = before_it @ a" "us = a @ [Create path fileMode, Chmod path fileMode] @ es"
    | (created) "before_it = mk @ [Create path fileMode]" "us = Chmod path fileMode # es"
    | (safe) a where "before_it = mk @ [Create path fileMode, Chmod path fileMode] @ a" "es = a @ us"
    using us(1) by (auto simp: append_eq_append_conv2 append_eq_Cons_conv Cons_eq_append_conv)
  then show ?thesis
  proof cases
    case (early a)
    then have "set before_it \<subseteq> {Mkdir (path_dir path) dirMode}" using mk by auto
    then have "?f before_it = m path" by (simp add: mkdir_keeps)
    moreover have "hd us \<noteq> Connect dsn" for dsn using early(2) nc early(1) by (cases a) auto
    ultimately show ?thesis using us(2) by auto
  next
    case created
    then show ?thesis using us(2) mkdir_keeps [OF mk] by auto
  next
    case (safe a)
    have a: "set a \<subseteq> {Disconnect, MigrateUp, Connect (dsnWithPragmas path)}" using es' safe(2) by auto
    have "fold (apply_effect dm) [Create path fileMode, Chmod path fileMode] m path = Some fileMode" by simp
    from calm_keeps [where m = "fold (apply_effect dm) [Create path fileMode, Chmod path fileMode] m", OF a assms(2) this]
    have "?f before_it = Some fileMode"
      unfolding safe(1) by (simp add: mkdir_keeps [OF mk] del: apply_effect.simps)
    then show ?thesis by simp
  qed
qed

subsection \<open>What a failure says\<close>

text \<open>No error from outside is the package's own sentinel.\<close>

definition foreign :: "opsys \<Rightarrow> bool" where
  "foreign os \<longleftrightarrow>
     (\<forall>e. os_sql_open os = Some e \<or> os_quick_check os = Inl e \<or> os_dialect os = Some e \<or> os_up os = Some e \<or>
        (\<exists>p. os_mkdir os p = Some e \<or> os_create os p = Some e \<or> os_chmod os p = Some e) \<or>
        (\<exists>code. os_ping os = Some (e, code)) \<longrightarrow> \<not> errors_is e StoreErrCorrupt)"

definition unreadable_db :: "opsys \<Rightarrow> bool" where
  "unreadable_db os \<longleftrightarrow>
     (case os_ping os of
        Some (e, code) \<Rightarrow> code = Some 11 \<or> code = Some 26
      | None \<Rightarrow> (case os_quick_check os of Inl e \<Rightarrow> False | Inr verdict \<Rightarrow> verdict \<noteq> lit ''ok''))"

text \<open>
  C40: a corrupt database is told apart from every other failure. When a command cannot get its store, the
  error is \<open>ErrCorrupt\<close> exactly if the driver was connected and found the file to be no database, a broken
  one, or one that fails its own check; and then its text ends with the hint to restore a backup and
  carries no advice on the ownership of the volume.
\<close>

theorem corrupt_is_told_apart:
  assumes "openStore os path = (Inl e, effs)" and "foreign os"
  shows "errors_is e StoreErrCorrupt = (Connect (dsnWithPragmas path) \<in> set effs \<and> unreadable_db os) \<and>
    (errors_is e StoreErrCorrupt \<longrightarrow> (\<exists>front. err_text e = front @ restoreHint))"
proof -
  have noconn: "Connect d \<notin> set (snd (make_parent os path))" "Connect d \<notin> set (snd (restrict_file os path))" for d
    by (auto simp: make_parent_def restrict_file_def Let_def simp del: lit_simps split: option.split)
  have own: "\<not> errors_is x StoreErrCorrupt" if "fst (make_parent os path) = Inl x \<or> fst (restrict_file os path) = Inl x" for x
    using that assms(2)
    by (auto simp: make_parent_def restrict_file_def Let_def foreign_def simp del: lit_simps split: option.splits if_splits)
  have opened: "errors_is x StoreErrCorrupt = (Connect (dsnWithPragmas path) \<in> set es \<and> unreadable_db os) \<and>
      (errors_is x StoreErrCorrupt \<longrightarrow> (\<exists>front. err_text x = front @ restoreHint))" if "Open os path = (Inl x, es)" for x es
    using that assms(2)
    by (auto simp: Open_def Let_def foreign_def unreadable_db_def simp del: lit_simps split: option.splits if_splits sum.splits)
  have fine: "\<not> unreadable_db os" if "Open os path = (Inr x, es)" for x es
    using that by (auto simp: Open_def Let_def unreadable_db_def simp del: lit_simps split: option.splits if_splits sum.splits)
  have mig: "\<not> errors_is x StoreErrCorrupt" if "Migrate os = (Inl x, es)" for x es
    using that assms(2) by (auto simp: Migrate_def foreign_def simp del: lit_simps split: option.splits)
  obtain q1 e1 where 1: "make_parent os path = (q1, e1)" by fastforce
  obtain q2 e2 where 2: "restrict_file os path = (q2, e2)" by fastforce
  obtain q3 e3 where 3: "Open os path = (q3, e3)" by fastforce
  consider x where "q1 = Inl x" | x y where "q1 = Inr x" "q2 = Inl y"
    | x y z where "q1 = Inr x" "q2 = Inr y" "q3 = Inl z" | x y z where "q1 = Inr x" "q2 = Inr y" "q3 = Inr z"
    by (metis sum.exhaust_sel)
  then show ?thesis
  proof cases
    case 1
    then show ?thesis using assms(1) \<open>make_parent os path = (q1, e1)\<close> own noconn by (auto simp: openStore_def)
  next
    case 2
    then show ?thesis using assms(1) \<open>make_parent os path = (q1, e1)\<close> \<open>restrict_file os path = (q2, e2)\<close> own noconn
      by (auto simp: openStore_def)
  next
    case (3 x y z)
    then show ?thesis
      using assms(1) \<open>make_parent os path = (q1, e1)\<close> \<open>restrict_file os path = (q2, e2)\<close> \<open>Open os path = (q3, e3)\<close>
        opened [of z e3] noconn
      by (auto simp: openStore_def split: if_splits)
  next
    case (4 x y z)
    then show ?thesis
      using assms(1) \<open>make_parent os path = (q1, e1)\<close> \<open>restrict_file os path = (q2, e2)\<close> \<open>Open os path = (q3, e3)\<close>
        fine [of z e3] mig by (auto simp: openStore_def split: prod.splits sum.splits)
  qed
qed

subsection \<open>A concrete system\<close>

definition plain_os :: opsys where
  "plain_os =
     \<lparr>os_stat = (\<lambda>_. Inl (Msg [])), os_ids = (1000, 1000), os_mkdir = (\<lambda>_. None), os_create = (\<lambda>_. None),
      os_chmod = (\<lambda>_. None), os_sql_open = None, os_ping = None, os_quick_check = Inr (lit ''ok''), os_dialect = None,
      os_up = None\<rparr>"

lemma plain_open:
  "openStore plain_os ''/config/d.db'' =
     (Inr (), [Mkdir ''/config'' dirMode, Create ''/config/d.db'' fileMode, Chmod ''/config/d.db'' fileMode,
               Connect (dsnWithPragmas ''/config/d.db''), MigrateUp])"
proof -
  have "path_dir ''/config/d.db'' = ''/config''" "trim_space (lit ''/config/d.db'') \<noteq> []" by code_simp+
  then show ?thesis
    by (simp add: openStore_def make_parent_def restrict_file_def plain_path_def Open_def Migrate_def plain_os_def Let_def
        del: lit_simps)
qed

theorem store_file_private_witness:
  "fold (apply_effect 420) [Mkdir ''/config'' dirMode, Create ''/config/d.db'' fileMode, Chmod ''/config/d.db'' fileMode]
     (\<lambda>_. Some 420) ''/config/d.db'' = Some fileMode"
proof -
  have "plain_path ''/config/d.db''" by (simp add: plain_path_def)
  from store_file_private [OF plain_open this,
      of "[Mkdir ''/config'' dirMode, Create ''/config/d.db'' fileMode, Chmod ''/config/d.db'' fileMode]"
         "[Connect (dsnWithPragmas ''/config/d.db''), MigrateUp]" "\<lambda>_. Some 420" 420]
  show ?thesis by simp
qed

theorem corrupt_is_told_apart_witness:
  "\<exists>e effs. openStore (plain_os\<lparr>os_ping := Some (Msg [], Some 26)\<rparr>) ''/config/d.db'' = (Inl e, effs) \<and>
     errors_is e StoreErrCorrupt"
proof -
  let ?os = "plain_os\<lparr>os_ping := Some (Msg [], Some 26)\<rparr>"
  have "path_dir ''/config/d.db'' = ''/config''" "trim_space (lit ''/config/d.db'') \<noteq> []" by code_simp+
  then have "\<exists>e effs. openStore ?os ''/config/d.db'' = (Inl e, effs) \<and> Connect (dsnWithPragmas ''/config/d.db'') \<in> set effs"
    by (simp add: openStore_def make_parent_def restrict_file_def plain_path_def Open_def plain_os_def Let_def del: lit_simps)
  then obtain e effs where o: "openStore ?os ''/config/d.db'' = (Inl e, effs)"
    "Connect (dsnWithPragmas ''/config/d.db'') \<in> set effs" by blast
  have "foreign ?os" by (auto simp: foreign_def plain_os_def)
  from corrupt_is_told_apart [OF o(1) this] o show ?thesis by (auto simp: unreadable_db_def)
qed

end
