(* ===== verification/Daemon.thy ===== *)
theory Daemon
  imports System Opening
begin

text \<open>
  The \<open>sync\<close> command of \<open>cmd/difmsync/main.go\<close> from its flags to its exit: the store, the one-shot pass,
  and the runner, alone or as the work of \<open>serveWhile\<close>. The locale \<open>windable\<close> is what \<open>serveWhile\<close> needs of
  its work to be able to end; the runner is its instance.
\<close>

subsection \<open>The command\<close>

text \<open>
  What the command becomes: over, or the runner at the head of its loop, alone or under the status
  endpoints. A world beside an exit is what it leaves behind. \<open>withStore\<close> closes the store of a command
  that is over; a runner's store stays open until it has returned.
\<close>

datatype ('w, 's) process = Exited "gerr option" 'w | Unwatched 's | Watched "'s serving"

definition sync_start ::
  "'e eng_env_scheme \<Rightarrow> (nat \<Rightarrow> disk) \<Rightarrow> config \<Rightarrow> string \<Rightarrow> gerr option \<Rightarrow> int \<Rightarrow> folder \<Rightarrow> 'z world_scheme \<Rightarrow>
   ('z world_scheme, phase \<times> folder \<times> 'z world_scheme) process" where
  "sync_start E k cf httpAddr listen now fo w =
     (if \<not> cf_loop cf then (case sync_once E k cf fo w of (err, w') \<Rightarrow> Exited err w')
      else case EnsureAccount E (cf_label cf) (cf_member cf) (cf_playlist cf) w of
             (Inl e, w') \<Rightarrow> Exited (Some e) w'
           | (Inr account, w') \<Rightarrow>
               if httpAddr = [] then Unwatched (Top, fo, w')
               else case serveWhile httpAddr listen (Top, fo, w') now of
                      Inl e \<Rightarrow> Exited (Some e) w'
                    | Inr s \<Rightarrow> Watched s)"

definition sync_command ::
  "'e eng_env_scheme \<Rightarrow> (nat \<Rightarrow> disk) \<Rightarrow> config \<Rightarrow> opsys \<Rightarrow> string \<Rightarrow> (string \<times> runes) list \<Rightarrow> string \<Rightarrow> gerr option \<Rightarrow> int \<Rightarrow>
   folder \<Rightarrow> 'z world_scheme \<Rightarrow> ('z world_scheme, phase \<times> folder \<times> 'z world_scheme) process \<times> effect list" where
  "sync_command E k cf os path flags httpAddr listen now fo w =
     (case requireFlags flags of
        Some e \<Rightarrow> (Exited (Some e) w, [])
      | None \<Rightarrow>
          (case openStore os path of
             (Inl e, effs) \<Rightarrow> (Exited (Some e) w, effs)
           | (Inr _, effs) \<Rightarrow>
               (case sync_start E k cf httpAddr listen now fo w of
                  Exited err w' \<Rightarrow> (Exited err w', effs @ [Disconnect])
                | p \<Rightarrow> (p, effs))))"

subsection \<open>The runner as the work of serveWhile\<close>

text \<open>
  \<open>workCtx\<close> is the runner's context: canceled, it is so at every later moment, beside whatever else the
  environment does.
\<close>

definition canceled_env :: "bool \<Rightarrow> 'e consent_env_scheme \<Rightarrow> 'e consent_env_scheme" where
  "canceled_env c E = (if c then E\<lparr>c_err := \<lambda>_. Some (Sentinel CtxCanceled)\<rparr> else E)"

definition daemon_work ::
  "'e consent_env_scheme \<Rightarrow> (nat \<Rightarrow> disk) \<Rightarrow> config \<Rightarrow> bool \<Rightarrow>
   phase \<times> folder \<times> 'z world_scheme \<Rightarrow> phase \<times> folder \<times> 'z world_scheme \<Rightarrow> bool" where
  "daemon_work E k cf c = run_step (canceled_env c E) k cf"

fun daemon_result :: "phase \<times> folder \<times> 'z world_scheme \<Rightarrow> gerr option option" where
  "daemon_result (Ended r, fo, w) = Some r"
| "daemon_result (ph, fo, w) = None"

text \<open>Where the daemon spends its life: between two passes, or waiting for the consent.\<close>

fun daemon_waits :: "phase \<times> folder \<times> 'z world_scheme \<Rightarrow> bool" where
  "daemon_waits (Looping a held (Waiting d) dm, fo, w) \<longleftrightarrow> True"
| "daemon_waits (Asking srv (Serving b), fo, w) \<longleftrightarrow> True"
| "daemon_waits (ph, fo, w) \<longleftrightarrow> False"

text \<open>
  The contract of work that can be wound down: from where it waits, its own moves under a canceled
  context lead to its clean end.
\<close>

locale windable =
  fixes W :: "bool \<Rightarrow> 'w \<Rightarrow> 'w \<Rightarrow> bool" and fin :: "'w \<Rightarrow> gerr option option" and waits :: "'w \<Rightarrow> bool"
  assumes winds_down: "waits x \<Longrightarrow> \<exists>y. (\<lambda>a b. fin a = None \<and> W True a b)\<^sup>*\<^sup>* x y \<and> fin y = Some None"
begin

lemma work_ends:
  assumes "(\<lambda>a b. fin a = None \<and> W True a b)\<^sup>*\<^sup>* x y" and "sv_cancel s \<noteq> None"
  shows "(serve_step W fin)\<^sup>*\<^sup>* (s\<lparr>sv_work := x\<rparr>) (s\<lparr>sv_work := y\<rparr>)"
  using assms(1)
proof (induction rule: rtranclp_induct)
  case (step a b)
  have "serve_step W fin (s\<lparr>sv_work := a\<rparr>) (s\<lparr>sv_work := b\<rparr>)"
    using works [of fin "s\<lparr>sv_work := a\<rparr>" W b] step(2) assms(2) by simp
  with step(3) show ?case by (rule rtranclp.rtrancl_into_rtrancl)
qed simp

lemma wound_down:
  assumes "sv_phase s = Draining err" and "sv_cancel s \<noteq> None" and "waits (sv_work s)" and "ln_open (sv_listener s) = 0"
  shows "\<exists>s'. (serve_step W fin)\<^sup>*\<^sup>* s s' \<and> sv_phase s' = Served (status_died err) \<and> fin (sv_work s') = Some None \<and>
    sv_now s' = sv_now s"
proof -
  obtain y where y: "(\<lambda>a b. fin a = None \<and> W True a b)\<^sup>*\<^sup>* (sv_work s) y" "fin y = Some None"
    using winds_down [OF assms(3)] by blast
  let ?t = "s\<lparr>sv_work := y\<rparr>" and ?q = "status_died err"
  have 1: "(serve_step W fin)\<^sup>*\<^sup>* s ?t" using work_ends [OF y(1) assms(2)] by simp
  have 2: "serve_step W fin ?t (unwind ?q ?t)" using work_drained [of ?t err fin None W] assms(1) y(2) by simp
  have 3: "serve_step W fin (unwind ?q ?t) ((unwind ?q ?t)\<lparr>sv_phase := Served ?q\<rparr>)"
    using assms(4) by (intro stop_returns) (auto simp: unwind_def)
  have "(serve_step W fin)\<^sup>*\<^sup>* s ((unwind ?q ?t)\<lparr>sv_phase := Served ?q\<rparr>)"
    using rtranclp.rtrancl_into_rtrancl [OF rtranclp.rtrancl_into_rtrancl [OF 1 2] 3] .
  moreover have "sv_phase ((unwind ?q ?t)\<lparr>sv_phase := Served ?q\<rparr>) = Served ?q" "sv_now ((unwind ?q ?t)\<lparr>sv_phase := Served ?q\<rparr>) = sv_now s"
    "fin (sv_work ((unwind ?q ?t)\<lparr>sv_phase := Served ?q\<rparr>)) = Some None"
    using y(2) by (simp_all add: unwind_def)
  ultimately show ?thesis by blast
qed

end

lemma daemon_moves_on:
  "daemon_work E k cf True x y \<Longrightarrow> daemon_result x = None \<Longrightarrow>
   (\<lambda>a b. daemon_result a = None \<and> daemon_work E k cf True a b)\<^sup>*\<^sup>* y z \<Longrightarrow>
   (\<lambda>a b. daemon_result a = None \<and> daemon_work E k cf True a b)\<^sup>*\<^sup>* x z"
  by (rule converse_rtranclp_into_rtranclp) auto

lemma loop_winds_down:
  "(\<lambda>a b. daemon_result a = None \<and> daemon_work E k cf True a b)\<^sup>*\<^sup>*
     (Looping a held (Waiting d) dm, fo, w) (Ended None, dm_folder dm, w)"
proof -
  let ?E = "canceled_env True E"
  have c: "c_err ?E (s_tick w) = Some (Sentinel CtxCanceled)" by (simp add: canceled_env_def)
  have 1: "daemon_work E k cf True (Looping a held (Waiting d) dm, fo, w) (Looping a held (Returned None) dm, fo, w)"
    using loops [OF loop_step.stopped [OF c]] by (simp add: daemon_work_def done_result_def)
  have 2: "daemon_work E k cf True (Looping a held (Returned None) dm, fo, w) (Stopped a held None, dm_folder dm, w)"
    unfolding daemon_work_def by (rule loop_returns)
  have 3: "daemon_work E k cf True (Stopped a held None, dm_folder dm, w) (Ended None, dm_folder dm, w)"
    unfolding daemon_work_def by (rule returns) (simp add: revoked_def)
  show ?thesis
    by (rule daemon_moves_on [OF 1 _ daemon_moves_on [OF 2 _ daemon_moves_on [OF 3 _ rtranclp.rtrancl_refl]]]) simp_all
qed

lemma consent_winds_down:
  "(\<lambda>a b. daemon_result a = None \<and> daemon_work E k cf True a b)\<^sup>*\<^sup>* (Asking srv (Serving b), fo, w) (Ended None, fo, w)"
proof -
  let ?E = "canceled_env True E" and ?e = "Sentinel CtxCanceled"
  have c: "c_err ?E (s_tick w) = Some ?e" by (simp add: canceled_env_def)
  have 1: "daemon_work E k cf True (Asking srv (Serving b), fo, w) (Asking srv (Answered (Some ?e)), fo, w)"
    unfolding daemon_work_def by (rule waits [OF await_step.canceled [OF c]])
  have 2: "daemon_work E k cf True (Asking srv (Answered (Some ?e)), fo, w) (Ended None, fo, w)"
    using await_failed [of ?E k cf srv ?e fo w] by (simp add: daemon_work_def done_result_def)
  show ?thesis by (rule daemon_moves_on [OF 1 _ daemon_moves_on [OF 2 _ rtranclp.rtrancl_refl]]) simp_all
qed

interpretation daemon: windable "daemon_work E k cf" daemon_result daemon_waits for E k cf
proof
  fix x :: "phase \<times> folder \<times> 'z world_scheme"
  assume "daemon_waits x"
  then show "\<exists>y. (\<lambda>a b. daemon_result a = None \<and> daemon_work E k cf True a b)\<^sup>*\<^sup>* x y \<and> daemon_result y = Some None"
  proof (cases x rule: daemon_waits.cases)
    case (1 a held d dm fo w)
    then show ?thesis using loop_winds_down daemon_result.simps(1) by blast
  next
    case (2 srv b fo w)
    then show ?thesis using consent_winds_down daemon_result.simps(1) by blast
  qed simp_all
qed

subsection \<open>The daemon under its endpoints\<close>

text \<open>
  A dead status listener ends the daemon at once and cleanly. When the listener has failed while the
  runner waits for its next pass or for the consent, \<open>serveWhile\<close> can return without any time passing:
  the runner ends without an error, whatever its environment does, and the command's error names the
  status server.
\<close>

lemma dead_endpoints_end_the_daemon:
  assumes "sv_phase s = Selecting" and "ln_err (sv_listener s) = Some (Some e)" and "ln_open (sv_listener s) = 0"
    and "daemon_waits (sv_work s)"
  shows "\<exists>s'. (serve_step (daemon_work E k cf) daemon_result)\<^sup>*\<^sup>* s s' \<and>
    sv_phase s' = Served (Some (Wrap (lit ''status server: '') e [])) \<and> daemon_result (sv_work s') = Some None \<and>
    sv_now s' = sv_now s"
proof -
  let ?step = "serve_step (daemon_work E k cf) daemon_result"
  let ?d = "s\<lparr>sv_cancel := Some (sv_now s), sv_phase := Draining (Some e)\<rparr>"
  have 1: "?step s ?d" by (rule notices_death [OF assms(1,2)])
  from daemon.wound_down [of ?d "Some e"] assms(3,4) obtain s' where
    s': "?step\<^sup>*\<^sup>* ?d s'" "sv_phase s' = Served (status_died (Some e))" "daemon_result (sv_work s') = Some None" "sv_now s' = sv_now s"
    by fastforce
  from converse_rtranclp_into_rtranclp [OF 1 s'(1)] s'(2-4) show ?thesis
    by (intro exI [of _ s']) (simp add: status_died_def del: lit_simps)
qed

definition waiting_room :: consentServer where
  "waiting_room = \<lparr>cs_flow = \<lparr>fl_account = 1, fl_state = ''s''\<rparr>, cs_nonce = ''n'', cs_startPath = ''/start'', cs_callbackPath = ''/callback''\<rparr>"

lemma dead_endpoints_example:
  "\<exists>s'. (serve_step (daemon_work gate (\<lambda>_. good_disk) household) daemon_result)\<^sup>*\<^sup>*
      \<lparr>sv_now = 7, sv_listener = \<lparr>ln_loop = Finished, ln_open = 0, ln_err = Some (Some (Msg (lit ''accept'')))\<rparr>,
       sv_work = (Asking waiting_room (Serving False), [], cellar), sv_cancel = None, sv_phase = Selecting\<rparr> s' \<and>
    sv_phase s' = Served (Some (Wrap (lit ''status server: '') (Msg (lit ''accept'')) [])) \<and>
    daemon_result (sv_work s') = Some None \<and> sv_now s' = 7"
  using dead_endpoints_end_the_daemon [where e = "Msg (lit ''accept'')" and E = gate and k = "\<lambda>_. good_disk" and cf = household and
      s = "\<lparr>sv_now = 7, sv_listener = \<lparr>ln_loop = Finished, ln_open = 0, ln_err = Some (Some (Msg (lit ''accept'')))\<rparr>,
           sv_work = (Asking waiting_room (Serving False), [], cellar), sv_cancel = None, sv_phase = Selecting\<rparr>"]
  by (simp del: lit_simps)

text \<open>Without its required flags the command touches neither the disk nor the store.\<close>

lemma sync_needs_flags:
  "requireFlags flags = Some e \<Longrightarrow> sync_command E k cf os path flags httpAddr listen now fo w = (Exited (Some e) w, [])"
  by (simp add: sync_command_def)

text \<open>A bad address for the endpoints ends the command before the runner has moved.\<close>

lemma sync_bad_address:
  assumes "cf_loop cf" and "httpAddr \<noteq> []"
  shows "\<exists>f w' effs. sync_command E k cf os path flags httpAddr (Some e) now fo w = (Exited (Some f) w', effs)"
proof -
  have "\<exists>f w'. sync_start E k cf httpAddr (Some e) now fo w = Exited (Some f) w'"
    using assms by (auto simp: sync_start_def serveWhile_def serveHTTP_def simp del: lit_simps split: prod.split sum.split)
  then show ?thesis by (auto simp: sync_command_def split: option.split prod.split sum.split)
qed

text \<open>The endpoints are served only by the daemon and only for an address.\<close>

lemma sync_watched:
  assumes "sync_command E k cf os path flags httpAddr listen now fo w = (Watched s, effs)"
  shows "cf_loop cf \<and> httpAddr \<noteq> [] \<and> listen = None \<and> fst (sv_work s) = Top \<and> sv_phase s = Selecting"
  using assms by (auto simp: sync_command_def sync_start_def serveWhile_def serveHTTP_def simp del: lit_simps
      split: option.splits prod.splits sum.splits if_splits process.splits)

end
