(* ===== verification/Printed.thy ===== *)
theory Printed
  imports CommandLaws
begin

text \<open>
  What the commands print for a person: \<open>printStatus\<close> with the \<open>status\<close> command around it, and the table
  of \<open>review\<close>, both of \<open>cmd/difmsync/main.go\<close>, as the text they write. A text is a list of code points; 10
  ends a line and 8212 is the dash between artist and title.
\<close>

subsection \<open>Version and environment\<close>

text \<open>
  \<open>buildVersion\<close>: the stamped tag, else the version the toolchain recorded, which is the argument
  \<open>info\<close>, else \<open>dev\<close>.
\<close>

definition buildVersion :: "string \<Rightarrow> string option \<Rightarrow> string" where
  "buildVersion stamped info =
     (if stamped \<noteq> [] then stamped
      else case info of
             None \<Rightarrow> ''dev''
           | Some v \<Rightarrow> if v \<noteq> [] \<and> v \<noteq> ''(devel)'' then v else ''dev'')"

text \<open>\<open>nonEmptyEnv.Lookup\<close>: a variable that is set but blank counts as absent.\<close>

definition Lookup :: "string option \<Rightarrow> string \<times> bool" where
  "Lookup var =
     (case var of None \<Rightarrow> ([], False) | Some v \<Rightarrow> (v, trim_space (lit v) \<noteq> []))"

lemma buildVersion_nonempty: "buildVersion stamped info \<noteq> []"
  by (auto simp: buildVersion_def split: option.split)

subsection \<open>Verbs of fmt\<close>

text \<open>\<open>%-ns\<close> and \<open>%nd\<close> pad with blanks and never cut.\<close>

definition pad_right :: "nat \<Rightarrow> runes \<Rightarrow> runes" where
  "pad_right n s = s @ replicate (n - length s) 32"

definition pad_left :: "nat \<Rightarrow> runes \<Rightarrow> runes" where
  "pad_left n s = replicate (n - length s) 32 @ s"

text \<open>\<open>%.3f\<close>: to the nearest, halves to the even neighbour.\<close>

definition thousandths :: "score \<Rightarrow> int" where
  "thousandths y =
     (let n = floor (y * 1000); d = y * 1000 - of_int n
      in if d < 1 / 2 \<or> d = 1 / 2 \<and> even n then n else n + 1)"

definition fixed3 :: "score \<Rightarrow> runes" where
  "fixed3 x =
     (let m = thousandths (abs x)
      in (if x < 0 then [45] else []) @ itoa (m div 1000) @ [46] @ lit (digits 3 (m mod 1000)))"

lemma thousandths_near: "abs (of_int (thousandths y) - y * 1000) \<le> 1 / 2"
proof -
  have "of_int (floor (y * 1000)) \<le> y * 1000" "y * 1000 < of_int (floor (y * 1000)) + 1" by linarith+
  then show ?thesis unfolding thousandths_def Let_def abs_le_iff by (simp only: of_int_add of_int_1 split: if_split) linarith
qed

definition line :: "runes \<Rightarrow> runes" where
  "line s = s @ [10]"

definition dash :: runes where
  "dash = lit '' '' @ [8212] @ lit '' ''"

subsection \<open>status\<close>

definition runs_header :: runes where
  "runs_header =
     line (pad_right 20 (lit ''STARTED'') @ lit ''  '' @ pad_right 5 (lit ''DRY'') @ lit ''  '' @ pad_left 5 (lit ''ADDED'') @ lit ''  ''
           @ pad_left 5 (lit ''QUEUE'') @ lit ''  '' @ pad_left 5 (lit ''SKIP'') @ lit ''  '' @ pad_right 21 (lit ''KIND'') @ lit ''  ''
           @ lit ''ERROR'')"

definition run_line :: "Run \<Rightarrow> runes" where
  "run_line run =
     (let dry = (if Rn_DryRun run then lit ''yes'' else []);
          started = (if length (Rn_StartedAt run) > 19 then take 19 (Rn_StartedAt run) else Rn_StartedAt run)
      in line (pad_right 20 (lit started) @ lit ''  '' @ pad_right 5 dry @ lit ''  '' @ pad_left 5 (itoa (Rn_Added run)) @ lit ''  ''
               @ pad_left 5 (itoa (Rn_Queued run)) @ lit ''  '' @ pad_left 5 (itoa (Rn_Skipped run)) @ lit ''  ''
               @ pad_right 21 (lit (Rn_ErrorKind run)) @ lit ''  '' @ Rn_Error run))"

definition printStatus :: "Report \<Rightarrow> string \<Rightarrow> runes" where
  "printStatus rep backupDir =
     line (lit ''account:   '' @ lit (Rp_Account rep))
     @ line (lit ''playlist:  '' @ lit (Rp_Playlist rep))
     @ line (lit ''synced:    '' @ itoa (Rp_Synced rep) @ lit '' track(s)'')
     @ line (lit ''pending:   '' @ itoa (Rp_Pending rep) @ lit '' item(s) awaiting review''
             @ (if Rp_Skipped rep > 0 then lit '' (+'' @ itoa (Rp_Skipped rep) @ lit '' skipped non-track(s) recorded)'' else []))
     @ (if Rp_Watermark rep = [] then line (lit ''watermark: none'' @ dash @ lit ''next run reads full history'')
        else line (lit ''watermark: '' @ lit (Rp_Watermark rep)))
     @ (if Rp_Healthy rep then line (lit ''health:    ok'') else line (lit ''health:    NOT OK'' @ dash @ Rp_Reason rep))
     @ line (lit ''version:   '' @ lit (Rp_Version rep))
     @ (if Rp_LastSuccessAt rep \<noteq> [] then line (lit ''last ok:   '' @ lit (Rp_LastSuccessAt rep))
        else if Rp_Runs rep \<noteq> [] then line (lit ''last ok:   none in the last '' @ itoa HealthScanLimit @ lit '' runs'')
        else [])
     @ (if Rp_ConsecutiveFailures rep = HealthScanLimit \<and> Rp_LastSuccessAt rep = []
        then line (lit ''failures:  '' @ itoa HealthScanLimit @ lit ''+ since the last clean pass'')
        else if Rp_ConsecutiveFailures rep > 0
        then line (lit ''failures:  '' @ itoa (Rp_ConsecutiveFailures rep) @ lit '' since the last clean pass'')
        else [])
     @ (if backupDir = [] then []
        else if Rp_LastBackupAt rep \<noteq> [] then line (lit ''last backup: '' @ lit (Rp_LastBackupAt rep))
        else line (lit ''last backup: none''))
     @ line []
     @ (if Rp_Runs rep = [] then line (lit ''no sync runs recorded yet'')
        else runs_header @ concat (map run_line (Rp_Runs rep)))"

datatype printed = Text runes | Json json

text \<open>\<open>check\<close> and \<open>as_json\<close> are the flags of the command; \<open>check\<close> wins.\<close>

definition status_command ::
  "'e env_scheme \<Rightarrow> disk \<Rightarrow> folder \<Rightarrow> string \<Rightarrow> duration \<Rightarrow> bool \<Rightarrow> bool \<Rightarrow> int \<Rightarrow> string \<Rightarrow> string \<Rightarrow> ('z, printed) op" where
  "status_command E k fo label maxAge check as_json n version backupDir s =
     (case Build E k fo label maxAge n version backupDir s of
        (Inl e, s') \<Rightarrow> (Inl e, s')
      | (Inr rep, s') \<Rightarrow>
          (if check then (if Rp_Healthy rep then Inr (Text (line (lit ''ok''))) else Inl (Msg (Rp_Reason rep)))
           else if as_json then Inr (Json (encode_report rep))
           else Inr (Text (printStatus rep backupDir)), s'))"

subsection \<open>review\<close>

definition candidate_line :: "nat \<Rightarrow> Scored \<Rightarrow> runes" where
  "candidate_line i c =
     line (lit ''      '' @ itoa (int i + 1) @ lit ''. '' @ fixed3 (SScore c) @ lit ''  '' @ C_Artist (Cand c) @ dash @ C_Title (Cand c)
           @ lit ''  ('' @ itoa (C_DurationSec (Cand c)) @ lit ''s)  '' @ Why c)"

definition item_text :: "ReviewItem \<Rightarrow> runes" where
  "item_text it =
     line [] @ line (lit ''['' @ itoa (R_DifmTrackID it) @ lit ''] '' @ R_Artist it @ dash @ R_Title it)
     @ line (lit ''    reason='' @ lit (R_Reason it) @ lit '' best='' @ fixed3 (R_BestScore it) @ lit '' duration=''
             @ itoa (R_DurationSec it) @ lit ''s'')
     @ concat (map (\<lambda>(i, c). candidate_line i c) (enumerate 0 (R_Candidates it)))
     @ (if R_DetailsURL it \<noteq> [] then line (lit ''    '' @ lit (R_DetailsURL it)) else [])"

definition review_text :: "ReviewItem list \<Rightarrow> runes" where
  "review_text items =
     (if items = [] then line (lit ''review queue is empty'')
      else concat (map item_text items) @ line []
           @ line (itoa (int (length items)) @ lit '' item(s). Resolve with --approve=<id> or --reject=<id>.''))"

subsection \<open>What is shown\<close>

text \<open>With \<open>--check\<close> the command is the health check of the container.\<close>

lemma status_command_check:
  "status_command E k fo label maxAge True as_json n version dir s =
     (case status_check E k fo label maxAge n version dir s of
        (None, s') \<Rightarrow> (Inr (Text (line (lit ''ok''))), s')
      | (Some e, s') \<Rightarrow> (Inl e, s'))"
  by (simp add: status_command_def status_check_def del: lit_simps split: prod.split sum.split)

text \<open>Nothing that is printed depends on the refresh token, except on whether there is one.\<close>

lemma judge_token:
  "tok \<noteq> [] \<Longrightarrow> A_SpotifyRefreshToken a \<noteq> [] \<Longrightarrow>
   judge (a\<lparr>A_SpotifyRefreshToken := tok\<rparr>) c rs maxAge n now version backup = judge a c rs maxAge n now version backup"
  by (simp add: judge_def assemble_def Let_def split: prod.split)

text \<open>
  The columns of the table: whatever a run counted, below 100000, its error begins where the header
  says \<open>ERROR\<close>, in column 73.
\<close>

lemma length_pads: "length (pad_right n s) = max n (length s)" "length (pad_left n s) = max n (length s)"
  by (simp_all add: pad_right_def pad_left_def)

lemma length_nat_digits: "n < 10 ^ k \<Longrightarrow> 0 < k \<Longrightarrow> length (nat_digits n) \<le> k"
proof (induction n arbitrary: k rule: nat_digits.induct)
  case (1 n)
  show ?case
  proof (cases "n < 10")
    case True
    then show ?thesis using 1 by (simp add: nat_digits.simps [of n])
  next
    case False
    obtain j where j: "k = Suc j" using 1(3) by (cases k) auto
    with 1(2) False have "0 < j" by (cases j) auto
    moreover have "n div 10 < 10 ^ j" using 1(2) j by (simp add: div_less_iff_less_mult)
    ultimately show ?thesis using 1(1) [of j] False j by (simp add: nat_digits.simps [of n])
  qed
qed

lemma Known_length: "Known kind \<Longrightarrow> length kind \<le> 21"
  by (auto simp: Known_def KindDiFMUnauthorized_def KindSpotifyGrantRevoked_def KindRateLimited_def KindIncomplete_def KindError_def)

lemma run_line_columns:
  assumes "Known (Rn_ErrorKind run)" and "\<forall>x\<in>{Rn_Added run, Rn_Queued run, Rn_Skipped run}. 0 \<le> x \<and> x < 100000"
  shows "\<exists>row. run_line run = row @ line (Rn_Error run) \<and> length row = 73"
    and "\<exists>row. runs_header = row @ line (lit ''ERROR'') \<and> length row = 73"
proof -
  have num: "max 5 (length (itoa x)) = 5" if "0 \<le> x \<and> x < 100000" for x
    using that length_nat_digits [of "nat x" 5] by (simp add: itoa_def nat_less_iff)
  have kind: "max 21 (length (lit (Rn_ErrorKind run))) = 21" using Known_length [OF assms(1)] by (simp add: lit_def)
  have started: "max 20 (length (lit (if length x > 19 then take 19 x else x))) = 20" for x by (simp add: lit_def)
  have dry: "max 5 (length (if b then lit ''yes'' else [])) = 5" for b by simp
  let ?s = "lit ''  ''"
  show "\<exists>row. run_line run = row @ line (Rn_Error run) \<and> length row = 73"
  proof (intro exI conjI)
    let ?row = "pad_right 20 (lit (if length (Rn_StartedAt run) > 19 then take 19 (Rn_StartedAt run) else Rn_StartedAt run)) @ ?s
      @ pad_right 5 (if Rn_DryRun run then lit ''yes'' else []) @ ?s @ pad_left 5 (itoa (Rn_Added run)) @ ?s
      @ pad_left 5 (itoa (Rn_Queued run)) @ ?s @ pad_left 5 (itoa (Rn_Skipped run)) @ ?s
      @ pad_right 21 (lit (Rn_ErrorKind run)) @ ?s"
    show "run_line run = ?row @ line (Rn_Error run)" by (simp add: run_line_def line_def Let_def del: lit_simps)
    show "length ?row = 73"
      using assms(2) by (simp only: length_append length_pads kind started dry num ball_simps) (simp add: lit_def)
  qed
  show "\<exists>row. runs_header = row @ line (lit ''ERROR'') \<and> length row = 73"
  proof (intro exI conjI)
    let ?row = "pad_right 20 (lit ''STARTED'') @ ?s @ pad_right 5 (lit ''DRY'') @ ?s @ pad_left 5 (lit ''ADDED'') @ ?s
      @ pad_left 5 (lit ''QUEUE'') @ ?s @ pad_left 5 (lit ''SKIP'') @ ?s @ pad_right 21 (lit ''KIND'') @ ?s"
    show "runs_header = ?row @ line (lit ''ERROR'')" by (simp add: runs_header_def line_def del: lit_simps)
    show "length ?row = 73" by (simp add: length_pads)
  qed
qed

end
