(* ===== verification/Settings.thy ===== *)
theory Settings
  imports Daemon Printed
begin

text \<open>
  The command line of \<open>cmd/difmsync\<close>: every flag with its default and its environment variable
  (\<open>newApp\<close> and the commands), the configuration \<open>sync\<close> makes of them, and \<open>newLogger\<close>.

  How a command line is parsed is \<open>urfave/cli\<close>'s: the argument \<open>cli\<close> gives, for a flag's default, what the
  command line says and what the flag's source reports, the value and whether the flag counts as set.
\<close>

subsection \<open>The flags\<close>

datatype setting =
    Str string | Score_of score | Span duration | Count int | Flag bool | Ids "int list"

text \<open>\<open>NonEmptyEnv\<close> is the program's own source; \<open>EnvVar\<close> is \<open>cli.EnvVars\<close>.\<close>

datatype source = NoSource | EnvVar string | NonEmptyEnv string

record flag =
  fg_Name :: string
  fg_Default :: setting
  fg_Source :: source

definition flag :: "string \<Rightarrow> setting \<Rightarrow> source \<Rightarrow> flag" where
  "flag nm d src = \<lparr>fg_Name = nm, fg_Default = d, fg_Source = src\<rparr>"

definition DefaultBaseURL :: string where "DefaultBaseURL = ''https://api.audioaddict.com/v1''"
definition DefaultNetwork :: string where "DefaultNetwork = ''di''"
definition defaultAccountLabel :: string where "defaultAccountLabel = ''default''"

definition newApp :: "flag list" where
  "newApp =
     [flag ''db-path'' (Str ''./tmp/difmsync.db'') (EnvVar ''DIFMSYNC_DB_PATH''),
      flag ''log-format'' (Str ''json'') (EnvVar ''DIFMSYNC_LOG_FORMAT''),
      flag ''log-level'' (Str ''info'') (EnvVar ''DIFMSYNC_LOG_LEVEL''),
      flag ''account'' (Str defaultAccountLabel) (EnvVar ''DIFMSYNC_ACCOUNT''),
      flag ''api-key'' (Str []) (EnvVar ''DIFMSYNC_API_KEY''),
      flag ''member-id'' (Str []) (EnvVar ''DIFMSYNC_MEMBER_ID''),
      flag ''network'' (Str DefaultNetwork) (EnvVar ''DIFMSYNC_NETWORK''),
      flag ''playlist-id'' (Str []) (EnvVar ''DIFMSYNC_PLAYLIST_ID''),
      flag ''spotify-client-id'' (Str []) (EnvVar ''DIFMSYNC_SPOTIFY_CLIENT_ID''),
      flag ''spotify-client-secret'' (Str []) (EnvVar ''DIFMSYNC_SPOTIFY_CLIENT_SECRET''),
      flag ''spotify-redirect-url'' (Str ''http://127.0.0.1:8888/callback'') (EnvVar ''DIFMSYNC_SPOTIFY_REDIRECT_URL''),
      flag ''auth-bind'' (Str []) (EnvVar ''DIFMSYNC_AUTH_BIND''),
      flag ''auto-threshold'' (Score_of (85 / 100)) (EnvVar ''DIFMSYNC_AUTO_THRESHOLD''),
      flag ''review-threshold'' (Score_of (60 / 100)) (EnvVar ''DIFMSYNC_REVIEW_THRESHOLD'')]"

definition maxAgeFlag :: flag where
  "maxAgeFlag = flag ''max-age'' (Span (45 * minute)) (NonEmptyEnv ''DIFMSYNC_STATUS_MAX_AGE'')"

definition intervalFlag :: flag where
  "intervalFlag = flag ''interval'' (Span (15 * minute)) (EnvVar ''DIFMSYNC_INTERVAL'')"

definition jsonFlag :: flag where "jsonFlag = flag ''json'' (Flag False) NoSource"
definition limitFlag :: "int \<Rightarrow> flag" where "limitFlag n = flag ''limit'' (Count n) NoSource"
definition backupDirFlag :: flag where "backupDirFlag = flag ''backup-dir'' (Str []) (EnvVar ''DIFMSYNC_BACKUP_DIR'')"

definition syncCommand :: "flag list" where
  "syncCommand =
     [flag ''dry-run'' (Flag False) NoSource, flag ''loop'' (Flag False) NoSource, intervalFlag,
      flag ''http-addr'' (Str []) (EnvVar ''DIFMSYNC_HTTP_ADDR''),
      flag ''auth-http-addr'' (Str []) (EnvVar ''DIFMSYNC_AUTH_HTTP_ADDR''), maxAgeFlag, backupDirFlag,
      flag ''backup-keep'' (Count 14) (EnvVar ''DIFMSYNC_BACKUP_KEEP'')]"

definition authCommand :: "flag list" where "authCommand = [flag ''manual'' (Flag False) NoSource]"

definition reviewCommand :: "flag list" where
  "reviewCommand =
     [flag ''status'' (Str ''pending'') NoSource, limitFlag 50, flag ''approve'' (Count 0) NoSource,
      flag ''candidate'' (Count 1) NoSource, flag ''reject'' (Count 0) NoSource, jsonFlag]"

definition resyncCommand :: "flag list" where
  "resyncCommand =
     [flag ''all'' (Flag False) NoSource, flag ''forget'' (Ids []) NoSource, flag ''forget-all'' (Flag False) NoSource]"

definition statusCommand :: "flag list" where
  "statusCommand =
     [jsonFlag, flag ''check'' (Flag False) NoSource, limitFlag DefaultRunLimit, intervalFlag, maxAgeFlag, backupDirFlag]"

definition backupCommand :: "flag list" where "backupCommand = [flag ''to'' (Str []) NoSource]"

subsection \<open>Their values\<close>

type_synonym environ = "string \<Rightarrow> string option"
type_synonym cli = "setting \<Rightarrow> string option \<Rightarrow> string option \<Rightarrow> gerr + setting \<times> bool"

definition sourced :: "environ \<Rightarrow> source \<Rightarrow> string option" where
  "sourced env src =
     (case src of
        NoSource \<Rightarrow> None
      | EnvVar n \<Rightarrow> env n
      | NonEmptyEnv n \<Rightarrow> (case Lookup (env n) of (v, found) \<Rightarrow> if found then Some v else None))"

definition flag_value :: "cli \<Rightarrow> environ \<Rightarrow> (string \<Rightarrow> string option) \<Rightarrow> flag \<Rightarrow> gerr + setting \<times> bool" where
  "flag_value cli env args f = cli (fg_Default f) (args (fg_Name f)) (sourced env (fg_Source f))"

fun span_of :: "setting \<Rightarrow> duration" where
  "span_of (Span d) = d"
| "span_of v = 0"

text \<open>\<open>effectiveMaxAge\<close> on the flags of a command.\<close>

definition window :: "cli \<Rightarrow> environ \<Rightarrow> (string \<Rightarrow> string option) \<Rightarrow> flag list \<Rightarrow> gerr + duration" where
  "window cli env args flags =
     (case map_option (flag_value cli env args) (List.find (\<lambda>f. fg_Name f = ''max-age'') flags) of
        Some (Inr (age, age_set)) \<Rightarrow>
          (case map_option (flag_value cli env args) (List.find (\<lambda>f. fg_Name f = ''interval'') flags) of
             Some (Inr (every, every_set)) \<Rightarrow>
               Inr (effectiveMaxAge (if age_set then Some (span_of age) else None) MinInterval (span_of every))
           | Some (Inl e) \<Rightarrow> Inl e
           | None \<Rightarrow> Inr (effectiveMaxAge (if age_set then Some (span_of age) else None) MinInterval 0))
      | Some (Inl e) \<Rightarrow> Inl e
      | None \<Rightarrow> Inr 0)"

subsection \<open>The configuration of sync\<close>

definition New :: "string \<Rightarrow> string \<Rightarrow> Client" where
  "New apiKey memberID =
     \<lparr>BaseURL = DefaultBaseURL, Network = DefaultNetwork, APIKey = apiKey, MemberID = memberID\<rparr>"

fun str :: "setting \<Rightarrow> string" where "str (Str v) = v" | "str v = []"
fun score_of :: "setting \<Rightarrow> score" where "score_of (Score_of v) = v" | "score_of v = 0"
fun on :: "setting \<Rightarrow> bool" where "on (Flag b) = b" | "on v = False"
fun num :: "setting \<Rightarrow> int" where "num (Count n) = n" | "num v = 0"

definition config_of :: "(string \<Rightarrow> setting) \<Rightarrow> config" where
  "config_of v =
     \<lparr>cf_label = str (v ''account''), cf_member = str (v ''member-id''), cf_playlist = str (v ''playlist-id''),
      cf_difm = (New (str (v ''api-key'')) (str (v ''member-id'')))\<lparr>Network := str (v ''network'')\<rparr>,
      cf_auto = score_of (v ''auto-threshold''), cf_review = score_of (v ''review-threshold''),
      cf_interval = span_of (v ''interval''), cf_dryRun = on (v ''dry-run''), cf_loop = on (v ''loop''),
      cf_authAddr = str (v ''auth-http-addr''), cf_redirect = str (v ''spotify-redirect-url''),
      cf_backupDir = str (v ''backup-dir''), cf_backupKeep = num (v ''backup-keep'')\<rparr>"

definition default_of :: "flag list \<Rightarrow> string \<Rightarrow> setting" where
  "default_of flags nm = (case List.find (\<lambda>f. fg_Name f = nm) flags of Some f \<Rightarrow> fg_Default f | None \<Rightarrow> Str [])"

subsection \<open>The logger\<close>

definition upper :: "rune \<Rightarrow> rune" where
  "upper r = (if ascii_lower r then r - 32 else r)"

text \<open>
  \<open>slog.Level.UnmarshalText\<close>, for ASCII: a name in any case, then an optional offset with its sign.
\<close>

definition parse_level :: "runes \<Rightarrow> int option" where
  "parse_level s =
     (let nm = map upper (takeWhile (\<lambda>r. r \<noteq> 43 \<and> r \<noteq> 45) s); tl = dropWhile (\<lambda>r. r \<noteq> 43 \<and> r \<noteq> 45) s;
          base = (if nm = lit ''DEBUG'' then Some (- 4) else if nm = lit ''INFO'' then Some 0
                  else if nm = lit ''WARN'' then Some 4 else if nm = lit ''ERROR'' then Some 8 else None)
      in case (if tl = [] then Some 0 else atoi tl) of
           None \<Rightarrow> None
         | Some n \<Rightarrow> map_option (\<lambda>b. wrap64 (b + n)) base)"

datatype log_format = TextFormat | JsonFormat

text \<open>The handler, its level, and the warning about a level it could not read.\<close>

definition newLogger :: "runes \<Rightarrow> runes \<Rightarrow> log_format \<times> int \<times> runes option" where
  "newLogger format level =
     ((if map upper format = lit ''TEXT'' then TextFormat else JsonFormat),
      (case parse_level level of Some l \<Rightarrow> l | None \<Rightarrow> 0),
      (case parse_level level of Some l \<Rightarrow> None | None \<Rightarrow> if level = [] then None else Some level))"

subsection \<open>What the tables promise\<close>

definition commands :: "flag list list" where
  "commands = [syncCommand, authCommand, reviewCommand, resyncCommand, statusCommand, backupCommand]"

text \<open>
  No command line has a flag twice, and two flags that read the same variable, on whatever commands,
  are the same flag: they cannot drift apart.
\<close>

lemma names_distinct: "c \<in> set commands \<Longrightarrow> distinct (map fg_Name (newApp @ c))"
proof -
  have "list_all (\<lambda>c. distinct (map fg_Name (newApp @ c))) commands" by code_simp
  then show "c \<in> set commands \<Longrightarrow> distinct (map fg_Name (newApp @ c))" by (simp add: list_all_iff)
qed

lemma shared_variables:
  assumes "f \<in> set (newApp @ concat commands)" and "g \<in> set (newApp @ concat commands)"
    and "fg_Source f = fg_Source g" and "fg_Source f \<noteq> NoSource"
  shows "f = g"
proof -
  have "list_all (\<lambda>f. list_all (\<lambda>g. fg_Source f = NoSource \<or> fg_Source f \<noteq> fg_Source g \<or> f = g) (newApp @ concat commands))
      (newApp @ concat commands)" by code_simp
  with assms show ?thesis unfolding list_all_iff by blast
qed

text \<open>The two flags of the freshness window, on the commands that have them.\<close>

lemma window_flags:
  "flags \<in> {syncCommand, statusCommand} \<Longrightarrow> List.find (\<lambda>f. fg_Name f = ''max-age'') flags = Some maxAgeFlag"
  "flags \<in> {syncCommand, statusCommand} \<Longrightarrow> List.find (\<lambda>f. fg_Name f = ''interval'') flags = Some intervalFlag"
proof -
  have "List.find (\<lambda>f. fg_Name f = ''max-age'') syncCommand = Some maxAgeFlag"
    "List.find (\<lambda>f. fg_Name f = ''max-age'') statusCommand = Some maxAgeFlag"
    "List.find (\<lambda>f. fg_Name f = ''interval'') syncCommand = Some intervalFlag"
    "List.find (\<lambda>f. fg_Name f = ''interval'') statusCommand = Some intervalFlag" by code_simp+
  then show "flags \<in> {syncCommand, statusCommand} \<Longrightarrow> List.find (\<lambda>f. fg_Name f = ''max-age'') flags = Some maxAgeFlag"
    "flags \<in> {syncCommand, statusCommand} \<Longrightarrow> List.find (\<lambda>f. fg_Name f = ''interval'') flags = Some intervalFlag" by auto
qed

lemma window_value:
  assumes "flags \<in> {syncCommand, statusCommand}"
  shows "window cli env args flags =
    (case flag_value cli env args maxAgeFlag of
       Inl e \<Rightarrow> Inl e
     | Inr (age, age_set) \<Rightarrow>
         map_sum id (\<lambda>(every, b). effectiveMaxAge (if age_set then Some (span_of age) else None) MinInterval (span_of every))
           (flag_value cli env args intervalFlag))"
  by (simp add: window_def window_flags [OF assms] split: sum.split prod.split)

text \<open>
  The daemon's endpoint and the container's probe judge by the same window: with the same environment
  and no such flags on either command line, \<open>sync\<close> and \<open>status\<close> derive the same one.
\<close>

lemma windows_agree:
  assumes "args ''max-age'' = args' ''max-age''" and "args ''interval'' = args' ''interval''"
  shows "window cli env args syncCommand = window cli env args' statusCommand"
proof -
  have "flag_value cli env args maxAgeFlag = flag_value cli env args' maxAgeFlag"
    "flag_value cli env args intervalFlag = flag_value cli env args' intervalFlag"
    using assms by (simp_all add: flag_value_def maxAgeFlag_def intervalFlag_def flag_def)
  then show ?thesis by (simp add: window_value split: sum.split)
qed

text \<open>A blank variable is no window: it is derived as if the variable were not there.\<close>

lemma blank_max_age:
  assumes "flags \<in> {syncCommand, statusCommand}" and "env ''DIFMSYNC_STATUS_MAX_AGE'' = Some v" and "trim_space (lit v) = []"
  shows "window cli env args flags = window cli (env(''DIFMSYNC_STATUS_MAX_AGE'' := None)) args flags"
proof -
  let ?env = "env(''DIFMSYNC_STATUS_MAX_AGE'' := None)"
  have "flag_value cli env args maxAgeFlag = flag_value cli ?env args maxAgeFlag"
    "flag_value cli env args intervalFlag = flag_value cli ?env args intervalFlag"
    using assms(2,3) by (simp_all add: flag_value_def maxAgeFlag_def intervalFlag_def flag_def sourced_def Lookup_def)
  then show ?thesis by (simp add: window_value [OF assms(1)] split: sum.split)
qed

text \<open>
  What the library documents: a flag nobody set has its default and does not count as set. Then an
  unset window is the declared one at the default interval, and three intervals at any other.
\<close>

definition documented :: "cli \<Rightarrow> bool" where
  "documented cli \<longleftrightarrow> (\<forall>d. cli d None None = Inr (d, False))"

lemma default_window:
  assumes "documented cli" and "flags \<in> {syncCommand, statusCommand}" and "args ''max-age'' = None" and "args ''interval'' = None"
    and "env ''DIFMSYNC_STATUS_MAX_AGE'' = None" and "env ''DIFMSYNC_INTERVAL'' = None"
  shows "window cli env args flags = Inr (45 * minute)" "span_of (fg_Default maxAgeFlag) = 45 * minute"
proof -
  have v: "flag_value cli env args maxAgeFlag = Inr (fg_Default maxAgeFlag, False)"
    "flag_value cli env args intervalFlag = Inr (fg_Default intervalFlag, False)"
    using assms by (simp_all add: flag_value_def documented_def maxAgeFlag_def intervalFlag_def flag_def sourced_def Lookup_def)
  show "window cli env args flags = Inr (45 * minute)"
    unfolding window_value [OF assms(2)] v by (simp add: effectiveMaxAge_def intervalFlag_def flag_def MinInterval_def minute_def second_def
        mul_duration_def wrap64_def)
  show "span_of (fg_Default maxAgeFlag) = 45 * minute" by (simp add: maxAgeFlag_def flag_def)
qed

text \<open>The default thresholds are in order, and no version conflict reaches the one for adding.\<close>

lemma default_thresholds:
  "cf_auto (config_of (default_of (newApp @ syncCommand))) = 85 / 100"
  "cf_review (config_of (default_of (newApp @ syncCommand))) = 60 / 100"
  by code_simp+

lemma logger_examples:
  "newLogger (lit ''Text'') (lit ''verbose'') = (TextFormat, 0, Some (lit ''verbose''))"
  "newLogger (lit ''json'') (lit ''Warn+2'') = (JsonFormat, 6, None)"
  "newLogger (lit ''json'') [] = (JsonFormat, 0, None)"
  by code_simp+

end
