(* ===== verification/History.thy ===== *)
theory History
  imports System
begin

text \<open>
  What stays on record. A like that a pass has dealt with is in the ledger or in the review queue, and
  the watermark has passed it: DI.fm is not asked for it again. So nothing may take it off the record,
  except the command that is there for it. \<open>history\<close> is any interleaving of the daemon's moves and the
  operator's, with the tracks that resyncs were told to forget.
\<close>

subsection \<open>Operations that remember\<close>

abbreviation remembering :: "(int \<times> int) set \<Rightarrow> ('z, 'a) op \<Rightarrow> bool" where
  "remembering F \<equiv> confined (\<lambda>w w'. forgets_only F (s_db w) (s_db w'))"

interpretation memory: op_frame "\<lambda>w w'. forgets_only F (s_db w) (s_db w')" for F
  by unfold_locales (simp, use forgets_only_trans [of F _ _ F] in simp)

named_theorems memory_ops \<open>operations that forget no more than they are told to\<close>

lemmas [memory_ops] = memory.const memory.bind memory.cond

lemma remembering_query:
  assumes "\<And>now d. forgets_only F d (snd (q now d))"
  shows "remembering F (query E q)" "remembering F (\<lambda>w. map_res f g (query E q w))"
  using assms by (simp_all add: confined_def query_def split: option.split prod.split) (metis snd_conv)+

lemma remembering_reads [memory_ops]:
  "remembering F (GetAccount E label)" "remembering F (requireAccount E label)" "remembering F (ListReview E acct status n)"
  "remembering F (GetReviewItem E acct track)"
proof -
  have same: "(\<And>now d. snd (q now d) = d) \<Longrightarrow> forgets_only F d (snd (q now d))" for q :: "gotime \<Rightarrow> 'x sql" and now d
    by simp
  show g: "remembering F (GetAccount E label)"
    unfolding GetAccount_def [abs_def]
    by (intro remembering_query same) (simp add: getAccountByLabel_def split: option.split)
  then show "remembering F (requireAccount E label)" by (simp add: confined_def requireAccount_def)
  show "remembering F (ListReview E acct status n)"
    unfolding ListReview_def [abs_def] by (intro remembering_query same) (simp add: listReviewQueue_def)
  show "remembering F (GetReviewItem E acct track)"
    unfolding GetReviewItem_def [abs_def]
    by (intro remembering_query same) (simp add: getReviewItem_def split: option.split)
qed

lemma remembering_liked_at [memory_ops]: "remembering F (SyncedTrackLikedAt E acct track :: ('z, gotime option) op)"
proof -
  have "snd (SyncedTrackLikedAt E acct track w) = snd (query E (\<lambda>_. getSyncedTrackLikedAt acct track) w)"
    for w :: "'z store_scheme"
    by (auto simp: SyncedTrackLikedAt_def simp del: lit_simps split: prod.split sum.split option.split)
  moreover have "remembering F (query E (\<lambda>_. getSyncedTrackLikedAt acct track) :: ('z, string) op)"
    by (intro remembering_query) (simp add: getSyncedTrackLikedAt_def split: list.split)
  ultimately show ?thesis by (simp add: confined_def)
qed

lemma forgets_only_delete:
  assumes "\<And>r. p r \<Longrightarrow> (sr_account r, sr_track r) \<in> F"
  shows "forgets_only F d (d\<lparr>synced_tracks := delete_where p (synced_tracks d)\<rparr>)"
  using assms by (auto simp: forgets_only_def synced_def queued_def ledger_key_def image_iff)

lemma remembering_writes [memory_ops]:
  "remembering F (EnsureAccount E label mid playlist)" "remembering F (ResolveReview E acct track status)"
  "remembering F (SetWatermark E acct mark)" "remembering F (ClearWatermark E acct)"
  "remembering F (SetSpotifyRefreshToken E acct tok)" "remembering F (ClearSpotifyRefreshTokenIf E acct tok)"
  "remembering F (RecordSynced E t)"
proof -
  show "remembering F (EnsureAccount E label mid playlist)"
    unfolding EnsureAccount_def [abs_def]
    by (intro remembering_query remembers_same) (simp_all add: upsertAccount_def Let_def split: option.split)
  show "remembering F (ResolveReview E acct track status)"
    unfolding ResolveReview_def [abs_def]
    by (intro remembering_query)
      (auto simp: forgets_only_def resolveReview_def Let_def queued_update same_review_def synced_def)
  show "remembering F (SetWatermark E acct mark)"
    unfolding SetWatermark_def [abs_def] by (intro remembering_query remembers_same) (simp_all add: setWatermark_def)
  show "remembering F (ClearWatermark E acct)"
    unfolding ClearWatermark_def [abs_def] by (intro remembering_query remembers_same) (simp_all add: clearWatermark_def)
  show "remembering F (SetSpotifyRefreshToken E acct tok)"
    unfolding SetSpotifyRefreshToken_def [abs_def]
    by (intro remembering_query remembers_same) (simp_all add: setSpotifyRefreshToken_def)
  show "remembering F (ClearSpotifyRefreshTokenIf E acct tok)"
    unfolding ClearSpotifyRefreshTokenIf_def [abs_def]
    by (intro remembering_query remembers_same) (simp_all add: clearSpotifyRefreshTokenIf_def Let_def)
  show "remembering F (RecordSynced E t)"
    unfolding RecordSynced_def [abs_def]
    by (intro remembering_query) (use remembers_record in simp)
qed

lemma remembering_forget [memory_ops]:
  "(acct, track) \<in> F \<Longrightarrow> remembering F (ForgetTrack E acct track)"
  "(\<And>t. (acct, t) \<in> F) \<Longrightarrow> remembering F (ForgetAllTracks E acct)"
proof -
  assume "(acct, track) \<in> F"
  then show "remembering F (ForgetTrack E acct track)"
    unfolding ForgetTrack_def [abs_def]
    by (intro remembering_query) (auto simp: forgetSyncedTrack_def Let_def intro: forgets_only_delete)
next
  assume "\<And>t. (acct, t) \<in> F"
  then show "remembering F (ForgetAllTracks E acct)"
    unfolding ForgetAllTracks_def [abs_def]
    by (intro remembering_query) (auto simp: forgetAllSyncedTracks_def intro: forgets_only_delete)
qed

subsection \<open>The commands\<close>

lemma remembering_forget_each:
  "\<forall>i\<in>set ids. (acct, i) \<in> F \<Longrightarrow> remembering F (forget_each E acct ids missed earliest)"
proof (induction ids arbitrary: missed earliest)
  case Nil
  show ?case by (simp add: confined_def)
next
  case (Cons i ids)
  then show ?case unfolding forget_each_Cons by (intro memory_ops Cons) simp_all
qed

text \<open>What a move may take off the ledger.\<close>

fun forgettable :: "deed \<Rightarrow> db \<Rightarrow> (int \<times> int) set" where
  "forgettable (Resyncs label forget forgetAll) d =
     {(ar_id row, t) | row t. row \<in> set (accounts d) \<and> ar_label row = label \<and> (forgetAll \<or> t \<in> set forget)}"
| "forgettable Stores d = {}"
| "forgettable Plain d = {}"

lemma resync_forgets:
  assumes "resync E label all forget forgetAll w = (r, w')"
  shows "forgets_only (forgettable (Resyncs label forget forgetAll) (s_db w)) (s_db w) (s_db w')"
proof -
  let ?F = "forgettable (Resyncs label forget forgetAll) (s_db w)"
  obtain q w1 where a: "requireAccount E label w = (q, w1)" by fastforce
  note A = confined_apply [OF remembering_reads(2) a, of ?F]
  show ?thesis
  proof (cases q)
    case (Inl e)
    with assms a A show ?thesis by (simp add: resync_def bind_op_def)
  next
    case (Inr account)
    note R = requireAccount_result [OF a [unfolded Inr]]
    have all: "forgetAll \<Longrightarrow> (A_ID account, t) \<in> ?F" and some: "t \<in> set forget \<Longrightarrow> (A_ID account, t) \<in> ?F" for t
      using R(3) by (auto simp: toAccount_def)
    have tracks: "remembering ?F (forget_tracks E account forget clear)" for clear
      unfolding forget_tracks_eq split_beta by (intro memory_ops remembering_forget_each) (use some in blast)
    let ?clear = "all \<or> forgetAll"
    let ?rest = "if \<not> ?clear \<and> forget = [] then (\<lambda>s. (Inl nothing_to_do, s))
      else bind_op (if forgetAll then ForgetAllTracks E (A_ID account)
          else if forget \<noteq> [] then forget_tracks E account forget ?clear else (\<lambda>s. (Inr (), s)))
        (\<lambda>_. if ?clear then ClearWatermark E (A_ID account) else (\<lambda>s. (Inr (), s)))"
    have "remembering ?F ?rest"
      by (cases forgetAll) (use all tracks in \<open>simp_all, (intro impI conjI memory_ops; simp)+\<close>)
    moreover have "?rest w1 = (r, w')" using assms a Inr by (simp add: resync_def bind_op_def Let_def)
    ultimately have "forgets_only ?F (s_db w1) (s_db w')" by (rule confined_apply)
    with R(2) show ?thesis by simp
  qed
qed

lemma remembering_approve [memory_ops]: "remembering F (approveReview E cid sec account track n)"
  unfolding confined_def
proof
  fix w :: "'z world_scheme"
  have add: "remembering F (add_approved E pl i)" for pl i
    unfolding confined_def using add_approved_result(1) by (metis forgets_only_refl prod.collapse)
  have chosen: "remembering F (approve_chosen E account track item c)" for item c
    unfolding approve_chosen_def by (intro memory_ops add)
  obtain r w' where a: "approveReview E cid sec account track n w = (r, w')" by fastforce
  then have "forgets_only F (s_db w) (s_db w')"
  proof (cases rule: approve_cases)
    case (chosen row w1)
    from confined_apply [OF \<open>\<And>item c. remembering F (approve_chosen E account track item c)\<close> chosen(7)] chosen(5)
    show ?thesis by simp
  qed simp
  with a show "forgets_only F (s_db w) (s_db (snd (approveReview E cid sec account track n w)))" by simp
qed

lemma remembering_review [memory_ops]: "remembering F (review E cid sec label approve candidate reject status n)"
  unfolding review_def rejectReview_eq by (intro memory_ops)

subsection \<open>Passes\<close>

lemma RunOnce_remembers:
  assumes "RunOnce E k dry dm w = (r, dm', w')"
  shows "remembers (s_db w) (s_db w')"
proof -
  obtain st err g' w1 where p: "pass E (dm_engine dm) dry w = ((st, err, g'), w1)"
    by (cases "pass E (dm_engine dm) dry w") auto
  have "remembers (s_db w) (s_db w1)"
  proof (cases dry)
    case True
    with p dry_pass(1) show ?thesis using remembers_runs by metis
  next
    case False
    with p have "pass E (dm_engine dm) False w = ((st, err, g'), w1)" by simp
    then show ?thesis by (cases rule: real_pass) simp_all
  qed
  then show ?thesis using remembers_trans remembers_runs [OF RunOnce_frame(4) [OF p assms]] by blast
qed

lemma sync_once_remembers:
  assumes "sync_once E k cf fo w = (err, w')"
  shows "remembers (s_db w) (s_db w')"
proof -
  obtain q w1 where e: "EnsureAccount E (cf_label cf) (cf_member cf) (cf_playlist cf) w = (q, w1)" by fastforce
  have 1: "remembers (s_db w) (s_db w1)" by (rule confined_apply [OF remembering_writes(1) e])
  show ?thesis
  proof (cases q)
    case (Inl x)
    with assms e 1 show ?thesis by (simp add: sync_once_def bind_op_def)
  next
    case (Inr a)
    obtain p w2 where n: "newEngine E cf fo a w1 = (p, w2)" by fastforce
    have db: "s_db w2 = s_db w1" by (rule newEngine_db [OF n])
    show ?thesis
    proof (cases p)
      case (Inl x)
      with assms e Inr n 1 db show ?thesis by (simp add: sync_once_def bind_op_def)
    next
      case dm: (Inr dm)
      obtain r dm' w3 where o: "RunOnce E k (cf_dryRun cf) dm w2 = (r, dm', w3)" by (metis prod_cases3)
      have "w' = w3" using assms e Inr n dm o by (simp add: sync_once_def bind_op_def split: prod.splits)
      then show ?thesis using remembers_trans [OF 1] RunOnce_remembers [OF o] db by simp
    qed
  qed
qed

subsection \<open>Moves\<close>

lemma op_step_forgets:
  assumes "op_step E k w deed w'"
  shows "forgets_only (forgettable deed (s_db w)) (s_db w) (s_db w')"
  using assms
proof (cases rule: op_step.cases)
  case (resyncs label all forget forgetAll r)
  then show ?thesis using resync_forgets by simp
next
  case (syncs cf fo err)
  then show ?thesis using sync_once_remembers by simp
qed (auto dest: confined_apply [OF remembering_review] confined_apply [OF remembering_writes(1)]
      confined_apply [OF remembering_writes(5)])

lemma run_step_remembers:
  assumes "run_step E k cf (ph, fo, w) (ph', fo', w')"
  shows "remembers (s_db w) (s_db w')"
proof -
  have rot: "rotated E i tok held w = (held', v) \<Longrightarrow> remembers (s_db w) (s_db v)" for i tok held held' v
    using rotated_result [of E i tok held w held' v] by (auto simp: setSpotifyRefreshToken_def intro: remembers_same)
  note read = confined_apply [OF remembering_reads(1) [of "{}"]]
    and clear = confined_apply [OF remembering_writes(6) [of "{}"]]
  show ?thesis
    using assms
  proof (cases rule: run_step.cases)
    case (waits srv c c')
    then show ?thesis using await_step_frame by (intro remembers_same) blast+
  next
    case (loops ls dm ls' dm' a held)
    then obtain d where step: "loop_step E k (cf_interval cf) (cf_dryRun cf) (Waiting d, dm, w) (ls', dm', w')"
      by (cases ls) (auto elim: returned_stepE)
    show ?thesis by (rule loop_stepE [OF step]) (auto dest: RunOnce_remembers)
  qed (auto dest: read clear rot newEngine_db)
qed

subsection \<open>Whatever happens afterwards\<close>

text \<open>\<open>F\<close> collects, by account and track, what the resyncs on the way were told to forget.\<close>

inductive history ::
  "'e consent_env_scheme \<Rightarrow> (nat \<Rightarrow> disk) \<Rightarrow> config \<Rightarrow> phase \<times> folder \<times> 'z world_scheme \<Rightarrow>
   (int \<times> int) set \<Rightarrow> phase \<times> folder \<times> 'z world_scheme \<Rightarrow> bool"
  for E :: "'e consent_env_scheme" and k and cf and start where
  begins: "history E k cf start {} start"
| daemon_went_on: "history E k cf start F s \<Longrightarrow> run_step E k cf s s' \<Longrightarrow> history E k cf start F s'"
| operator_acted: "history E k cf start F (ph, fo, w) \<Longrightarrow> op_step E k w deed w' \<Longrightarrow>
    history E k cf start (F \<union> forgettable deed (s_db w)) (ph, fo, w')"

lemma history_forgets:
  "history E k cf s F t \<Longrightarrow> forgets_only F (s_db (snd (snd s))) (s_db (snd (snd t)))"
proof (induction rule: history.induct)
  case begins
  show ?case by simp
next
  case (daemon_went_on F t u)
  obtain ph fo w ph' fo' w' where t: "t = (ph, fo, w)" "u = (ph', fo', w')" by (metis prod_cases3)
  from run_step_remembers [OF daemon_went_on(2) [unfolded t]] forgets_only_trans [OF daemon_went_on(3)] t
  show ?case by fastforce
next
  case (operator_acted F ph fo w deed w')
  from forgets_only_trans [OF operator_acted(3)] op_step_forgets [OF operator_acted(2)] show ?case by simp
qed

text \<open>
  C2: only a resync forgets. Take any pass that returned without an error, in the daemon or by hand, and
  whatever happens afterwards: consents, further passes, housekeeping, restarts of the loop and the operator's
  commands in any order and with any failures. Every like that pass fetched is in the review queue or in
  the ledger at every later time, unless a resync was told to forget that track or that account's ledger.
\<close>

theorem likes_stay_on_record:
  assumes "RunOnce E k False dm w0 = ((st, None), dm', w)"
    and "history E k cf (ph, fo, w) F (ph', fo', w')"
  shows "\<exists>row likes n. row \<in> set (accounts (s_db w0)) \<and> ar_label row = A_Label (eg_account (dm_engine dm)) \<and>
    ListLikedTracks (eg_difm (dm_engine dm)) (e_now E n) (n_http_date E) (d_pages E n)
      (A_WatermarkLikedAt (toAccount row)) = (likes, None) \<and>
    (\<forall>l\<in>set likes. queued (s_db w') (ar_id row) (L_TrackID l) \<or>
       synced (s_db w') (ar_id row, L_TrackID l, eg_playlist (dm_engine dm)) \<or> (ar_id row, L_TrackID l) \<in> F)"
proof -
  obtain st1 err g' w1 where p: "pass E (dm_engine dm) False w0 = ((st1, err, g'), w1)"
    by (cases "pass E (dm_engine dm) False w0") auto
  have err: "err = None" and after: "forgets_only F (s_db w1) (s_db w')"
    using RunOnce_frame(1,4) [OF p assms(1)] history_forgets [OF assms(2)]
      forgets_only_trans [where F = "{}" and G = F] remembers_runs by fastforce+
  from p show ?thesis
  proof (cases rule: real_pass)
    case (ran row likes n)
    have "queued (s_db w') (ar_id row) (L_TrackID l) \<or>
       synced (s_db w') (ar_id row, L_TrackID l, eg_playlist (dm_engine dm)) \<or> (ar_id row, L_TrackID l) \<in> F"
      if "l \<in> set likes" for l
      using ran(7) [OF err] that after unfolding durable_def forgets_only_def by blast
    with ran(1,2) ran(8) [OF err] show ?thesis by blast
  qed (simp add: err)
qed

subsection \<open>A concrete history\<close>

text \<open>A clean pass over the two likes; then the operator has one of them forgotten.\<close>

lemma office_run:
  obtains st dm' w' where "RunOnce office (\<lambda>_. good_disk) False butler shelf = ((st, None), dm', w')"
proof -
  have E: "all_well office" "quiet office" using studio(1,2) by (simp_all add: all_well_def quiet_def office_def)
  have "snd (ListLikedTracks (eg_difm robot) (e_now office n) (n_http_date office) (d_pages office n)
      (A_WatermarkLikedAt (toAccount default_row))) = None" for n
    using studio_likes(2) [of n] by (simp add: office_def)
  from pass_well [OF E studio(3-5) this] obtain st g' w1 where
    p: "pass office (dm_engine butler) False shelf = ((st, None, g'), w1)" by (auto simp: butler_def)
  obtain r dm' w' where r: "RunOnce office (\<lambda>_. good_disk) False butler shelf = (r, dm', w')" by (metis prod_cases3)
  with RunOnce_frame(1) [OF p r] show thesis by (intro that) simp
qed

theorem likes_stay_on_record_witness:
  "\<exists>st dm' w r w' F. RunOnce office (\<lambda>_. good_disk) False butler shelf = ((st, None), dm', w) \<and>
     resync office ''default'' False [101] False w = (r, w') \<and>
     history office (\<lambda>_. good_disk) household (Top, [], w) F (Top, [], w') \<and> (1, 102) \<notin> F \<and>
     (queued (s_db w') 1 102 \<or> synced (s_db w') (1, 102, ''PL''))"
proof -
  obtain st dm' w where run: "RunOnce office (\<lambda>_. good_disk) False butler shelf = ((st, None), dm', w)" by (rule office_run)
  obtain r w' where r: "resync office ''default'' False [101] False w = (r, w')" by fastforce
  let ?F = "{} \<union> forgettable (Resyncs ''default'' [101] False) (s_db w)"
  have h: "history office (\<lambda>_. good_disk) household (Top, [], w) ?F (Top, [], w')"
    by (rule operator_acted [OF begins resyncs [OF r]])
  have only: "(1, 102) \<notin> ?F" by simp
  from likes_stay_on_record [OF run h] obtain row likes n where row: "row \<in> set (accounts (s_db shelf))"
    and l: "ListLikedTracks (eg_difm robot) (e_now office n) (n_http_date office) (d_pages office n)
        (A_WatermarkLikedAt (toAccount row)) = (likes, None)"
    and kept: "\<forall>l\<in>set likes. queued (s_db w') (ar_id row) (L_TrackID l) \<or>
       synced (s_db w') (ar_id row, L_TrackID l, eg_playlist robot) \<or> (ar_id row, L_TrackID l) \<in> ?F"
    unfolding butler_def by simp blast
  have "row = default_row" using row by (simp add: shelf_def one_account)
  then have id: "ar_id row = 1" and "map (\<lambda>l. (L_TrackID l, L_VoteID l)) likes = [(101, 1), (102, 2)]"
    using studio_likes(1) [of n] l by (simp_all add: default_row_def office_def)
  then have "\<exists>l\<in>set likes. L_TrackID l = 102" by auto
  with kept id only have "queued (s_db w') 1 102 \<or> synced (s_db w') (1, 102, ''PL'')" by (auto simp: robot_def)
  with run r h only show ?thesis by blast
qed

end
