(* ===== verification/Spec2Isabelle.thy ===== *)
theory Spec2Isabelle
  imports Settings ReviewQueue StatusLaws CommandLaws History
begin

text \<open>
  A verification development for difm-spotify-sync, a connector that copies a DI.fm member's liked
  tracks into a Spotify playlist. This theory only gathers the others; what follows says what is where.

  \<^bold>\<open>The program.\<close> A pass reads the account's watermark, fetches the likes that are newer from DI.fm,
  searches each on Spotify, scores the candidates, adds what it is sure of to the playlist, queues
  what it is not sure of for review, and commits the ledger together with the new watermark. The
  daemon runs passes at an interval, takes daily snapshots and serves its status; its outer loop asks
  for the Spotify consent when there is no refresh token and starts over when Spotify revokes one. The
  operator approves or rejects queued tracks, forgets tracks so that they are read again, and looks
  at the status.

  \<^bold>\<open>How it is modelled.\<close> The model is a shallow embedding. A struct is a record, an error is a value of
  \<open>gerr\<close> (a tree of wrapped errors with \<open>errors_is\<close> for \<open>errors.Is\<close>), and code that reads or writes is
  explicit state passing: a \<open>store\<close> is the database with a step counter, a \<open>world\<close> adds the playlists.
  What the outside answers at a step (faults of the database, the clock, HTTP failures, tracks that
  others add, DI.fm's pages, cancellation) is a function of the step in an \<open>env\<close> record, so a theorem
  about all environments is about all failures at all points. Long-running parts (the sync loop, the
  consent wait, the listener of \<open>auth\<close>, the runner, the system) are inductive step relations.

  \<^bold>\<open>Theories and sources.\<close>

  \<^item> \<open>Prelude\<close>, \<open>GoText\<close>, \<open>GoTime\<close>, \<open>GoError\<close>, \<open>Urls\<close>: what the code uses of Go's standard library. Lists and
    tables, \<open>strings\<close> and a backtracking \<open>regexp\<close> matcher with Go's leftmost-first choice, times and
    64-bit durations with their wrap-around, error trees, cleaned paths, query strings, hosts and ports.
  \<^item> \<open>Levenshtein\<close>, \<open>Score\<close>, \<open>Normalize\<close>: \<open>pkg/match\<close>. The two-row loop equals the least number of edits; the score
    stays in range and cannot reach the threshold on conflicting versions or artists; the regexp
    pipeline of \<open>Normalize\<close> equals splitting into words.
  \<^item> \<open>Store\<close>, \<open>StoreLaws\<close>, \<open>StoreOps\<close>, \<open>ReviewQueue\<close>: \<open>internal/store/sqlite\<close> with its generated queries and schema. Every
    reachable database satisfies the schema, timestamps read back, transactions are atomic, and the
    review queue refines a book of decisions (locale \<open>refines\<close>).
  \<^item> \<open>Opening\<close>: \<open>openStore\<close> of \<open>cmd/difmsync/main.go\<close> and \<open>Open\<close> of \<open>store.go\<close>, as the effects they have on files.
  \<^item> \<open>Difm\<close>: \<open>pkg/difm\<close>, the walk over the pages of votes; complete against an honest server, no silent loss
    but for one kind of record.
  \<^item> \<open>Spotify\<close>, \<open>SpotifyLaws\<close>: \<open>pkg/spotify\<close>, requests, search, playlists, token renewal.
  \<^item> \<open>Engine\<close>, \<open>EngineLaws\<close>, \<open>PassLaws\<close>, \<open>Liveness\<close>: one pass, \<open>internal/syncer/engine.go\<close>. Nothing is lost, nothing is
    added twice, the ledger follows the playlist, the watermark moves only after a clean pass, a dry
    run writes nothing, the run row tells what happened; and a pass succeeds when the services answer.
  \<^item> \<open>Backup\<close>, \<open>Loop\<close>: \<open>backup.go\<close>, \<open>loop.go\<close> and the housekeeping of \<open>engine.go\<close>.
  \<^item> \<open>Status\<close>, \<open>StatusLaws\<close>: \<open>internal/status\<close>, the health verdict, the report and the two endpoints.
  \<^item> \<open>Commands\<close>, \<open>CommandLaws\<close>, \<open>ResyncLaws\<close>: the operator's \<open>review\<close>, \<open>resync\<close> and \<open>backup\<close> of \<open>cmd/difmsync\<close>.
  \<^item> \<open>Consent\<close>, \<open>ConsentLaws\<close>: \<open>consent.go\<close>, \<open>authserver.go\<close> and \<open>auth.go\<close>, the exchange, the consent server, the
    listener of \<open>auth\<close> and the manual flow.
  \<^item> \<open>Runner\<close>, \<open>RunnerLaws\<close>: \<open>runloop.go\<close> and what the \<open>sync\<close> command supplies to it.
  \<^item> \<open>System\<close>: the runner and the operator interleaved. The locale \<open>careful_writer\<close> states what both writers of
    a playlist promise, passes and approvals are its interpretations, and the books balance in every
    reachable state; the runner's retries are bounded by the tokens others store.
  \<^item> \<open>History\<close>: what stays on record. After a clean pass its likes stay in the ledger or the review queue through
    every move of the daemon and the operator, unless a resync forgets them (locale \<open>op_frame\<close>).
  \<^item> \<open>Listeners\<close>: \<open>httpserve.go\<close> and \<open>serveWhile\<close> of \<open>main.go\<close>, two goroutines, a listener and a clock. It returns, and
    the store is closed, only when the work is over or has had its thirty seconds.
  \<^item> \<open>Daemon\<close>: the \<open>sync\<close> command as a whole, and the runner as the work of \<open>serveWhile\<close> (locale \<open>windable\<close>).
  \<^item> \<open>Settings\<close>: every flag of the command line with its default and variable, the configuration that follows,
    the freshness window both \<open>sync\<close> and \<open>status\<close> derive, and \<open>newLogger\<close>.
  \<^item> \<open>Printed\<close>: the text of \<open>status\<close> and of the table of \<open>review\<close>, \<open>buildVersion\<close> and \<open>nonEmptyEnv\<close>.

  \<^bold>\<open>Bounds.\<close> Loops of the code recurse structurally or with a measure, and none has fuel of its own: the page
  walks end at the code's own limits (\<open>maxPages\<close>, \<open>maxOffset\<close>), and the regexp matcher recurses on the text
  that is left. Loops that may run for ever are step relations. Durations are integers wrapped to 64
  bits where the code multiplies them; \<open>float64\<close> scores are exact rationals. Time in \<open>Listeners\<close> passes by steps.

  \<^bold>\<open>Parameters.\<close> Code that is not in the repository is an argument: the HTTP services and the transport, SQLite
  beyond the queries and constraints the code uses, the file system's answers, oauth2's exchange and
  consent URL, \<open>url.Parse\<close>, \<open>net.ParseIP\<close>, goose, the Unicode tables, and the parser of HTTP dates. Where a
  theorem needs a documented fact about one of them it is a hypothesis with a name, and a witness
  shows it can hold.

  \<^bold>\<open>Not modelled.\<close> How \<open>urfave/cli\<close> parses a command line (a parameter), the usage texts, the log lines and
  \<open>main\<close>'s signal handler; the timeouts of single connections; \<open>embed.go\<close> and sqlc's \<open>db.go\<close>, which have no
  logic. A panic is a state without successors; that it also ends the other goroutines is left out.
  Statements of two processes interleave in the program; here a command runs between two moves of the
  daemon, and what others add to a playlist in between is in the environment (\<open>add_approved_races\<close> shows why
  the theorems on playlists exclude it). \<open>ServeMux\<close> is modelled for patterns without wildcards and paths
  without percent-encoding.
\<close>

end
